(* ===== verification/Go_Prelude.thy ===== *)
theory Go_Prelude
  imports Main "HOL-Library.Word"
begin

text \<open>
  The part of Go and of its standard library that every component of go-ddd-core uses:
  machine integers, dynamically typed values, counting loops, and the error values of
  the packages \<^verbatim>\<open>errors\<close> and \<^verbatim>\<open>fmt\<close>.

  \<^item> A Go \<^verbatim>\<open>string\<close> and a Go \<^verbatim>\<open>[]byte\<close> are byte sequences, modelled by \<^typ>\<open>string\<close>
    (an Isabelle \<^typ>\<open>char\<close> is one byte).
  \<^item> \<^verbatim>\<open>int\<close> and \<^verbatim>\<open>int64\<close> are \<^typ>\<open>64 word\<close> wherever overflow matters; they are read with
    \<^term>\<open>sint\<close>.
  \<^item> A Go error is a value of \<open>goerr\<close>; the absence of an error (\<^verbatim>\<open>nil\<close>) is \<^term>\<open>None\<close>.
  \<^item> A function that returns \<^verbatim>\<open>(T, error)\<close> and changes a state returns the triple of the
    value, the optional error and the new state.
\<close>

section \<open>Automation shared by the components\<close>

named_theorems sentinel_defs \<open>the package level error variables\<close>
named_theorems code_defs \<open>the error codes\<close>
named_theorems op_defs \<open>operations unfolded when a program is executed symbolically\<close>

section \<open>Integers\<close>

type_synonym i64 = "64 word"

abbreviation minInt64 :: int where "minInt64 \<equiv> - (2 ^ 63)"
abbreviation maxInt64 :: int where "maxInt64 \<equiv> 2 ^ 63 - 1"

section \<open>Dynamically typed values\<close>

text \<open>Values stored under the Go type \<^verbatim>\<open>any\<close>: \<open>ANil\<close> is the nil interface.\<close>

datatype any = ANil | AString string | AInt int | ABool bool | AOpaque nat

section \<open>Counting loops\<close>

text \<open>
  \<^verbatim>\<open>for i := n - 1; i >= 0; i-- { s = f(i, s) }\<close>: the body sees the indices
  \<open>n - 1\<close> down to \<open>0\<close>.
\<close>

primrec for_down :: "nat \<Rightarrow> (nat \<Rightarrow> 's \<Rightarrow> 's) \<Rightarrow> 's \<Rightarrow> 's" where
  "for_down 0 f s = s"
| "for_down (Suc i) f s = for_down i f (f i s)"

section \<open>Errors\<close>

text \<open>
  One constructor per kind of error value that the program builds:
  \<^item> \<open>Sentinel m\<close>: a package level variable \<^verbatim>\<open>errors.New(m)\<close>. Each such variable of the
    program has its own message, so the message stands for the identity of the pointer.
  \<^item> \<open>RuleViolationErr c m\<close>: a \<^verbatim>\<open>*domain.RuleViolation\<close>.
  \<^item> \<open>CodedErr c m d cause\<close>: a \<^verbatim>\<open>*errorsx.Error\<close>; \<open>d\<close> is \<^term>\<open>None\<close> for a nil map.
  \<^item> \<open>AuthErr c m\<close>: one of the \<^verbatim>\<open>*codedError\<close> variables of \<^verbatim>\<open>ports/auth\<close>.
  \<^item> \<open>WrapErr m e\<close>: \<^verbatim>\<open>fmt.Errorf\<close> with one \<^verbatim>\<open>%w\<close> verb; \<open>m\<close> is the formatted text.
  \<^item> \<open>JoinErr es\<close>: \<^verbatim>\<open>errors.Join\<close>.
  \<^item> \<open>OpaqueErr i m\<close>: an error of a type of another package that wraps nothing.
\<close>

datatype goerr =
    Sentinel string
  | RuleViolationErr string string
  | CodedErr string string "(string \<Rightarrow> any option) option" "goerr option"
  | AuthErr string string
  | WrapErr string goerr
  | JoinErr "goerr list"
  | OpaqueErr nat string

text \<open>
  The error tree of the package \<^verbatim>\<open>errors\<close>: an error followed by the trees of the errors
  its \<^verbatim>\<open>Unwrap\<close> method returns, in pre-order. A \<^verbatim>\<open>*codedError\<close> of \<^verbatim>\<open>ports/auth\<close> unwraps to
  a freshly built \<^verbatim>\<open>*errorsx.Error\<close> with the same code and message.
\<close>

fun err_tree :: "goerr \<Rightarrow> goerr list" where
  "err_tree (Sentinel m) = [Sentinel m]"
| "err_tree (RuleViolationErr c m) = [RuleViolationErr c m]"
| "err_tree (CodedErr c m d None) = [CodedErr c m d None]"
| "err_tree (CodedErr c m d (Some e)) = CodedErr c m d (Some e) # err_tree e"
| "err_tree (AuthErr c m) = [AuthErr c m, CodedErr c m None None]"
| "err_tree (WrapErr m e) = WrapErr m e # err_tree e"
| "err_tree (JoinErr es) = JoinErr es # concat (map err_tree es)"
| "err_tree (OpaqueErr i m) = [OpaqueErr i m]"

text \<open>
  \<^verbatim>\<open>errors.Join\<close> drops nil errors and returns nil when nothing is left.
\<close>

definition errors_Join :: "goerr option list \<Rightarrow> goerr option" where
  "errors_Join es =
     (let present = List.map_filter id es in if present = [] then None else Some (JoinErr present))"

text \<open>The first error of the tree that a partial selection accepts: \<^verbatim>\<open>errors.As\<close>.\<close>

definition errors_As :: "(goerr \<Rightarrow> 'a option) \<Rightarrow> goerr option \<Rightarrow> 'a option" where
  "errors_As sel err =
     (case err of None \<Rightarrow> None
      | Some e \<Rightarrow> (case List.map_filter sel (err_tree e) of [] \<Rightarrow> None | x # _ \<Rightarrow> Some x))"

section \<open>Formatting\<close>

text \<open>The verb \<^verbatim>\<open>%d\<close> of \<^verbatim>\<open>fmt\<close>.\<close>

fun dec_digits :: "nat \<Rightarrow> string" where
  "dec_digits n = (if n < 10 then [char_of (48 + n)] else dec_digits (n div 10) @ [char_of (48 + n mod 10)])"

declare dec_digits.simps [simp del]

definition fmt_d :: "int \<Rightarrow> string" where
  "fmt_d i = (if i < 0 then CHR ''-'' # dec_digits (nat (- i)) else dec_digits (nat i))"

section \<open>Contexts\<close>

text \<open>The part of a \<^verbatim>\<open>context.Context\<close> that adapters consult: the result of \<^verbatim>\<open>Err()\<close>.\<close>

record gocontext =
  ctx_Err :: "goerr option"

definition context_Canceled :: goerr where "context_Canceled = Sentinel ''context canceled''"

definition context_DeadlineExceeded :: goerr where "context_DeadlineExceeded = Sentinel ''context deadline exceeded''"

definition context_Background :: gocontext where "context_Background = \<lparr>ctx_Err = None\<rparr>"

text \<open>\<^verbatim>\<open>ctx, cancel := context.WithCancel(context.Background()); cancel()\<close>\<close>

definition cancelled_Background :: gocontext where "cancelled_Background = \<lparr>ctx_Err = Some context_Canceled\<rparr>"

text \<open>\<^verbatim>\<open>context.WithDeadline(context.Background(), time.Now().Add(-time.Hour))\<close>\<close>

definition expired_Background :: gocontext where "expired_Background = \<lparr>ctx_Err = Some context_DeadlineExceeded\<rparr>"

section \<open>Generic facts\<close>

lemma context_simps [simp]:
  "ctx_Err context_Background = None" "ctx_Err cancelled_Background = Some context_Canceled"
  "ctx_Err expired_Background = Some context_DeadlineExceeded"
  by (simp_all add: context_Background_def cancelled_Background_def expired_Background_def)


lemma for_down_nth: "for_down (length ms) (\<lambda>i. ms ! i) s = foldr (\<lambda>m acc. m acc) ms s"
proof (induction ms arbitrary: s rule: rev_induct)
  case Nil
  then show ?case by simp
next
  case (snoc m ms)
  have eq: "for_down n (\<lambda>i. (ms @ [m]) ! i) t = for_down n (\<lambda>i. ms ! i) t"
    if "n \<le> length ms" for n t
    using that by (induction n arbitrary: t) (auto simp: nth_append)
  show ?case by (simp add: eq snoc.IH)
qed

lemma for_down_Cons:
  "for_down (Suc (length ms)) ((!) (m # ms)) s = m (for_down (length ms) ((!) ms) s)"
  using for_down_nth [of "m # ms" s] for_down_nth [of ms s] by (simp del: for_down.simps)

text \<open>
  Signed 64 bit arithmetic: exact when the mathematical result is representable. The range
  is written with numerals, which the simplifier and linear arithmetic normalise to.
\<close>

lemma sint_i64_bounds: "minInt64 \<le> sint (x :: i64)" "sint (x :: i64) \<le> maxInt64"
  using sint_greater_eq [of x] sint_less [of x] by simp_all

lemma sint_i64_of_int:
  assumes "minInt64 \<le> k" "k \<le> maxInt64"
  shows "sint (word_of_int k :: i64) = k"
  using assms by (simp add: signed_of_int signed_take_bit_int_eq_self)

text \<open>Counters that start at zero behave like natural numbers below \<open>2^63\<close>.\<close>

lemma sint_i64_unat:
  assumes "unat (n :: i64) < 2 ^ 63"
  shows "sint n = int (unat n)"
proof -
  have "int (unat n) < 2 ^ 63" using assms by (simp flip: of_nat_less_iff [where 'a = int])
  then show ?thesis using sint_i64_of_int [of "uint n"] order_trans [of "- (2 ^ 63)" 0 "uint n"] by simp
qed

lemma i64_Suc:
  assumes "unat (n :: i64) < 2 ^ 63 - 1"
  shows "unat (n + 1) = Suc (unat n)" "sint (n + 1) = int (Suc (unat n))"
proof -
  show u: "unat (n + 1) = Suc (unat n)" using assms unat_add_lem [of n 1] by simp
  show "sint (n + 1) = int (Suc (unat n))"
    using assms by (subst sint_i64_unat) (simp_all add: u)
qed

lemma i64_add_of_int: "(a :: i64) + b = word_of_int (sint a + sint b)"
  by simp

lemma i64_sub_of_int: "(a :: i64) - b = word_of_int (sint a - sint b)"
  by simp

lemma i64_mult_of_int: "(a :: i64) * b = word_of_int (sint a * sint b)"
  by simp

lemma sint_i64_add:
  "minInt64 \<le> sint (a :: i64) + sint b \<Longrightarrow> sint a + sint b \<le> maxInt64 \<Longrightarrow> sint (a + b) = sint a + sint b"
  by (subst i64_add_of_int) (rule sint_i64_of_int)

lemma sint_i64_sub:
  "minInt64 \<le> sint (a :: i64) - sint b \<Longrightarrow> sint a - sint b \<le> maxInt64 \<Longrightarrow> sint (a - b) = sint a - sint b"
  by (subst i64_sub_of_int) (rule sint_i64_of_int)

lemma sint_i64_mult:
  "minInt64 \<le> sint (a :: i64) * sint b \<Longrightarrow> sint a * sint b \<le> maxInt64 \<Longrightarrow> sint (a * b) = sint a * sint b"
  by (subst i64_mult_of_int) (rule sint_i64_of_int)

lemma sint_i64_neg: "0 \<le> sint (a :: i64) \<Longrightarrow> sint (- a) = - sint a"
  using sint_i64_sub [of 0 a] sint_i64_bounds [of a] by simp

lemma err_tree_head: "\<exists>es. err_tree e = e # es"
  by (cases e rule: err_tree.cases) auto

lemma err_tree_nonempty [simp]: "err_tree e \<noteq> []"
  using err_tree_head [of e] by auto

lemma errors_As_None [simp]: "errors_As sel None = None"
  by (simp add: errors_As_def)

lemma errors_As_root:
  assumes "sel e = Some x"
  shows "errors_As sel (Some e) = Some x"
proof -
  obtain es where "err_tree e = e # es" using err_tree_head by blast
  with assms show ?thesis by (simp add: errors_As_def)
qed

text \<open>Wrapping an error with \<^verbatim>\<open>fmt.Errorf\<close> hides nothing from \<^verbatim>\<open>errors.As\<close>.\<close>

lemma errors_As_wrap:
  "sel (WrapErr m e) = None \<Longrightarrow> errors_As sel (Some (WrapErr m e)) = errors_As sel (Some e)"
  by (simp add: errors_As_def)

lemma map_filter_Nil_iff: "List.map_filter f xs = [] \<longleftrightarrow> (\<forall>x\<in>set xs. f x = None)"
  by (induction xs) (auto split: option.splits)

lemma map_filter_append [simp]: "List.map_filter f (xs @ ys) = List.map_filter f xs @ List.map_filter f ys"
  by (induction xs) (auto split: option.split)

lemma errors_Join_drop_nil: "errors_Join (filter (\<lambda>e. e \<noteq> None) es) = errors_Join es"
proof -
  have "List.map_filter id (filter (\<lambda>e. e \<noteq> None) es) = List.map_filter id es"
    by (induction es) (auto split: option.split)
  then show ?thesis by (simp add: errors_Join_def)
qed

lemma errors_As_iff:
  "errors_As sel (Some e) = None \<longleftrightarrow> (\<forall>x\<in>set (err_tree e). sel x = None)"
  using map_filter_Nil_iff [of sel "err_tree e"]
  by (cases "List.map_filter sel (err_tree e)") (simp_all add: errors_As_def)

end
