(* ===== verification/Errorsx.thy ===== *)
theory Errorsx
  imports Go_Prelude
begin

text \<open>
  Error values and their translation to transports:
  \<^item> \<^verbatim>\<open>domain/errors.go\<close>: the domain sentinels and \<^verbatim>\<open>RuleViolation\<close>;
  \<^item> \<^verbatim>\<open>pkg/errorsx/errorsx.go\<close>: the coded error, \<^verbatim>\<open>WithDetail\<close> and \<^verbatim>\<open>CodeOf\<close>. \<^verbatim>\<open>WithDetail\<close>
    is given twice, on error values and on a heap of maps, since its purpose is that two
    errors built from one base do not share a \<^verbatim>\<open>Details\<close> map;
  \<^item> \<^verbatim>\<open>pkg/errorsx/httpx/mapping.go\<close> and \<^verbatim>\<open>transport/grpc/errorx.go\<close>: the status tables and
    \<^verbatim>\<open>Translate\<close>;
  \<^item> \<^verbatim>\<open>ports/auth\<close>: the tamper proof sentinels.
\<close>

section \<open>domain/errors.go\<close>

definition ErrNotFound :: goerr where [sentinel_defs]:
  "ErrNotFound = Sentinel ''domain: aggregate not found''"
definition ErrConcurrencyConflict :: goerr where [sentinel_defs]:
  "ErrConcurrencyConflict = Sentinel ''domain: concurrency conflict''"
definition ErrInvalidArgument :: goerr where [sentinel_defs]:
  "ErrInvalidArgument = Sentinel ''domain: invalid argument''"
definition ErrRuleViolation :: goerr where [sentinel_defs]:
  "ErrRuleViolation = Sentinel ''domain: business rule violation''"

record RuleViolation =
  rv_Code :: string
  rv_Message :: string

definition NewRuleViolation :: "string \<Rightarrow> string \<Rightarrow> goerr" where [op_defs]:
  "NewRuleViolation code message = RuleViolationErr code message"

text \<open>
  \<^verbatim>\<open>errors.Is(err, target)\<close> for a target that is a package level variable: the walk visits
  the error tree and stops at an error that is the target itself or whose \<^verbatim>\<open>Is\<close> method
  accepts it. Only \<^verbatim>\<open>RuleViolation\<close> has an \<^verbatim>\<open>Is\<close> method.
\<close>

fun err_matches :: "goerr \<Rightarrow> goerr \<Rightarrow> bool" where
  "err_matches target (Sentinel m) = (target = Sentinel m)"
| "err_matches target (AuthErr c m) = (target = AuthErr c m)"
| "err_matches target (RuleViolationErr c m) = (target = ErrRuleViolation)"
| "err_matches target _ = False"

definition errors_Is :: "goerr option \<Rightarrow> goerr \<Rightarrow> bool" where
  "errors_Is err target =
     (case err of None \<Rightarrow> False | Some e \<Rightarrow> list_ex (err_matches target) (err_tree e))"

section \<open>pkg/errorsx\<close>

definition CodeUnknown :: string where [code_defs]: "CodeUnknown = ''unknown''"
definition CodeInvalidArgument :: string where [code_defs]: "CodeInvalidArgument = ''invalid_argument''"
definition CodeNotFound :: string where [code_defs]: "CodeNotFound = ''not_found''"
definition CodeAlreadyExists :: string where [code_defs]: "CodeAlreadyExists = ''already_exists''"
definition CodeUnauthorized :: string where [code_defs]: "CodeUnauthorized = ''unauthorized''"
definition CodeForbidden :: string where [code_defs]: "CodeForbidden = ''forbidden''"
definition CodeConflict :: string where [code_defs]: "CodeConflict = ''conflict''"
definition CodeRateLimited :: string where [code_defs]: "CodeRateLimited = ''rate_limited''"
definition CodeInternal :: string where [code_defs]: "CodeInternal = ''internal''"
definition CodeUnavailable :: string where [code_defs]: "CodeUnavailable = ''unavailable''"

text \<open>The fields of an \<^verbatim>\<open>*errorsx.Error\<close>.\<close>

record Error =
  ex_Code :: string
  ex_Message :: string
  ex_Details :: "(string \<Rightarrow> any option) option"
  ex_cause :: "goerr option"

definition err_of :: "Error \<Rightarrow> goerr" where
  "err_of e = CodedErr (ex_Code e) (ex_Message e) (ex_Details e) (ex_cause e)"

fun as_Error :: "goerr \<Rightarrow> Error option" where
  "as_Error (CodedErr c m d k) = Some \<lparr>ex_Code = c, ex_Message = m, ex_Details = d, ex_cause = k\<rparr>"
| "as_Error _ = None"

fun as_RuleViolation :: "goerr \<Rightarrow> RuleViolation option" where
  "as_RuleViolation (RuleViolationErr c m) = Some \<lparr>rv_Code = c, rv_Message = m\<rparr>"
| "as_RuleViolation _ = None"

definition New :: "string \<Rightarrow> string \<Rightarrow> Error" where
  "New code msg = \<lparr>ex_Code = code, ex_Message = msg, ex_Details = None, ex_cause = None\<rparr>"

definition Wrap :: "string \<Rightarrow> string \<Rightarrow> goerr option \<Rightarrow> Error" where
  "Wrap code msg cause = \<lparr>ex_Code = code, ex_Message = msg, ex_Details = None, ex_cause = cause\<rparr>"

definition WithDetail :: "Error \<Rightarrow> string \<Rightarrow> any \<Rightarrow> Error" where
  "WithDetail e key val =
     (let d = (case ex_Details e of Some m \<Rightarrow> m | None \<Rightarrow> Map.empty)
      in e\<lparr>ex_Details := Some (d(key \<mapsto> val))\<rparr>)"

definition CodeOf :: "goerr option \<Rightarrow> string" where
  "CodeOf err = (case errors_As as_Error err of Some e \<Rightarrow> ex_Code e | None \<Rightarrow> CodeUnknown)"

text \<open>The text of the \<^verbatim>\<open>Error()\<close> methods.\<close>

fun join_lines :: "string list \<Rightarrow> string" where
  "join_lines [] = []"
| "join_lines [x] = x"
| "join_lines (x # y # ys) = x @ [CHR 0x0A] @ join_lines (y # ys)"

fun error_text :: "goerr \<Rightarrow> string" where
  "error_text (Sentinel m) = m"
| "error_text (RuleViolationErr c m) = c @ '': '' @ m"
| "error_text (CodedErr c m d (Some k)) = c @ '': '' @ m @ '': '' @ error_text k"
| "error_text (CodedErr c m d None) = c @ '': '' @ m"
| "error_text (AuthErr c m) = c @ '': '' @ m"
| "error_text (WrapErr m e) = m"
| "error_text (JoinErr es) = join_lines (map error_text es)"
| "error_text (OpaqueErr i m) = m"

subsection \<open>WithDetail on a heap\<close>

text \<open>
  The pointer level view: an \<^verbatim>\<open>*errorsx.Error\<close> holds a reference to its \<^verbatim>\<open>Details\<close> map, and
  \<open>map_heap\<close> gives the contents of the maps allocated so far (the addresses below
  \<open>h_next\<close>). \<open>maps_Clone\<close> allocates; an assignment \<^verbatim>\<open>m[k] = v\<close> writes in place.
\<close>

record map_heap =
  h_maps :: "nat \<Rightarrow> string \<Rightarrow> any option"
  h_next :: nat

record ErrorObj =
  eo_Code :: string
  eo_Message :: string
  eo_Details :: "nat option"
  eo_cause :: "goerr option"

definition alloc_map :: "map_heap \<Rightarrow> (string \<Rightarrow> any option) \<Rightarrow> nat \<times> map_heap" where
  "alloc_map h m = (h_next h, h\<lparr>h_maps := (h_maps h)(h_next h := m), h_next := Suc (h_next h)\<rparr>)"

definition assign_map :: "map_heap \<Rightarrow> nat \<Rightarrow> string \<Rightarrow> any \<Rightarrow> map_heap" where
  "assign_map h a key val = h\<lparr>h_maps := (h_maps h)(a := (h_maps h a)(key \<mapsto> val))\<rparr>"

definition WithDetail_heap :: "map_heap \<Rightarrow> ErrorObj \<Rightarrow> string \<Rightarrow> any \<Rightarrow> ErrorObj \<times> map_heap" where
  "WithDetail_heap h e key val =
     (let (a, h1) = (case eo_Details e of
                       Some d \<Rightarrow> alloc_map h (h_maps h d)
                     | None \<Rightarrow> alloc_map h Map.empty);
          cp = e\<lparr>eo_Details := Some a\<rparr>;
          h2 = assign_map h1 a key val
      in (cp, h2))"

definition view_Error :: "map_heap \<Rightarrow> ErrorObj \<Rightarrow> Error" where
  "view_Error h e =
     \<lparr>ex_Code = eo_Code e, ex_Message = eo_Message e,
      ex_Details = map_option (h_maps h) (eo_Details e), ex_cause = eo_cause e\<rparr>"

definition allocated :: "map_heap \<Rightarrow> ErrorObj \<Rightarrow> bool" where
  "allocated h e = (case eo_Details e of None \<Rightarrow> True | Some a \<Rightarrow> a < h_next h)"

section \<open>pkg/errorsx/httpx/mapping.go\<close>

definition statusByCode :: "string \<Rightarrow> int option" where
  "statusByCode = map_of
     [(CodeUnknown, 500), (CodeInvalidArgument, 400), (CodeNotFound, 404),
      (CodeAlreadyExists, 409), (CodeUnauthorized, 401), (CodeForbidden, 403),
      (CodeConflict, 409), (CodeRateLimited, 429), (CodeInternal, 500), (CodeUnavailable, 503)]"

definition StatusFromCode :: "string \<Rightarrow> int" where
  "StatusFromCode c = (case statusByCode c of Some s \<Rightarrow> s | None \<Rightarrow> 500)"

record Body =
  bd_Code :: string
  bd_Message :: string
  bd_Details :: "(string \<Rightarrow> any option) option"

definition FromRuleViolation :: "RuleViolation option \<Rightarrow> Error" where
  "FromRuleViolation rv =
     (case rv of None \<Rightarrow> New CodeInvalidArgument []
      | Some r \<Rightarrow> WithDetail (New CodeInvalidArgument (rv_Message r)) ''rule'' (AString (rv_Code r)))"

definition Translate :: "goerr option \<Rightarrow> Body \<times> int" where
  "Translate err =
     (case err of
        None \<Rightarrow> (\<lparr>bd_Code = CodeUnknown, bd_Message = [], bd_Details = None\<rparr>, 500)
      | Some e \<Rightarrow>
          (case errors_As as_Error err of
             Some ex \<Rightarrow>
               (\<lparr>bd_Code = ex_Code ex, bd_Message = ex_Message ex, bd_Details = ex_Details ex\<rparr>,
                StatusFromCode (ex_Code ex))
           | None \<Rightarrow>
               (case errors_As as_RuleViolation err of
                  Some rv \<Rightarrow>
                    (let ex = FromRuleViolation (Some rv)
                     in (\<lparr>bd_Code = ex_Code ex, bd_Message = ex_Message ex, bd_Details = ex_Details ex\<rparr>,
                         StatusFromCode (ex_Code ex)))
                | None \<Rightarrow>
                    (\<lparr>bd_Code = CodeUnknown, bd_Message = error_text e, bd_Details = None\<rparr>, 500))))"

text \<open>
  An \<^verbatim>\<open>http.ResponseWriter\<close>: the header map, the status sent by the first \<^verbatim>\<open>WriteHeader\<close>
  (later calls are ignored by \<^verbatim>\<open>net/http\<close>) and the values encoded into the body.
\<close>

record 'b ResponseWriter =
  rw_header :: "string \<Rightarrow> string option"
  rw_status :: "int option"
  rw_body :: "'b list"

definition rw_WriteHeader :: "int \<Rightarrow> 'b ResponseWriter \<Rightarrow> 'b ResponseWriter" where
  "rw_WriteHeader s w = (case rw_status w of None \<Rightarrow> w\<lparr>rw_status := Some s\<rparr> | Some _ \<Rightarrow> w)"

definition WriteJSON :: "Body ResponseWriter \<Rightarrow> goerr option \<Rightarrow> Body ResponseWriter" where
  "WriteJSON w err =
     (let (body, status) = Translate err;
          w1 = w\<lparr>rw_header := (rw_header w)(''Content-Type'' \<mapsto> ''application/json; charset=utf-8'')\<rparr>;
          w2 = rw_WriteHeader status w1
      in w2\<lparr>rw_body := rw_body w2 @ [body]\<rparr>)"

section \<open>transport/grpc/errorx.go\<close>

definition StatusOK :: "32 word" where [code_defs]: "StatusOK = 0"
definition StatusUnknown :: "32 word" where [code_defs]: "StatusUnknown = 2"
definition StatusInvalidArgument :: "32 word" where [code_defs]: "StatusInvalidArgument = 3"
definition StatusNotFound :: "32 word" where [code_defs]: "StatusNotFound = 5"
definition StatusAlreadyExists :: "32 word" where [code_defs]: "StatusAlreadyExists = 6"
definition StatusPermissionDenied :: "32 word" where [code_defs]: "StatusPermissionDenied = 7"
definition StatusResourceExhausted :: "32 word" where [code_defs]: "StatusResourceExhausted = 8"
definition StatusAborted :: "32 word" where [code_defs]: "StatusAborted = 10"
definition StatusInternal :: "32 word" where [code_defs]: "StatusInternal = 13"
definition StatusUnavailable :: "32 word" where [code_defs]: "StatusUnavailable = 14"
definition StatusUnauthenticated :: "32 word" where [code_defs]: "StatusUnauthenticated = 16"

definition statusByErrorsxCode :: "string \<Rightarrow> 32 word option" where
  "statusByErrorsxCode = map_of
     [(CodeUnknown, StatusUnknown), (CodeInvalidArgument, StatusInvalidArgument),
      (CodeNotFound, StatusNotFound), (CodeAlreadyExists, StatusAlreadyExists),
      (CodeUnauthorized, StatusUnauthenticated), (CodeForbidden, StatusPermissionDenied),
      (CodeConflict, StatusAborted), (CodeRateLimited, StatusResourceExhausted),
      (CodeInternal, StatusInternal), (CodeUnavailable, StatusUnavailable)]"

definition CodeFromErrorsx :: "string \<Rightarrow> 32 word" where
  "CodeFromErrorsx c = (case statusByErrorsxCode c of Some s \<Rightarrow> s | None \<Rightarrow> StatusUnknown)"

section \<open>ports/auth: sentinels\<close>

definition ErrTokenMissing :: goerr where [sentinel_defs]:
  "ErrTokenMissing = AuthErr CodeUnauthorized ''auth: token missing''"
definition ErrTokenInvalid :: goerr where [sentinel_defs]:
  "ErrTokenInvalid = AuthErr CodeUnauthorized ''auth: token invalid''"
definition ErrTokenExpired :: goerr where [sentinel_defs]:
  "ErrTokenExpired = AuthErr CodeUnauthorized ''auth: token expired''"
definition ErrForbidden :: goerr where [sentinel_defs]:
  "ErrForbidden = AuthErr CodeForbidden ''auth: forbidden''"
definition ErrInvalidAuthorizationRequest :: goerr where [sentinel_defs]:
  "ErrInvalidAuthorizationRequest = AuthErr CodeInvalidArgument ''auth: invalid authorization request''"

section \<open>Facts\<close>

definition declared_codes :: "string set" where
  "declared_codes =
     {CodeUnknown, CodeInvalidArgument, CodeNotFound, CodeAlreadyExists, CodeUnauthorized,
      CodeForbidden, CodeConflict, CodeRateLimited, CodeInternal, CodeUnavailable}"

lemma as_Error_err_of [simp]: "as_Error (err_of e) = Some e"
  by (simp add: err_of_def)

lemma CodeOf_err_of [simp]: "CodeOf (Some (err_of e)) = ex_Code e"
  by (simp add: CodeOf_def errors_As_root)

lemma CodeOf_None [simp]: "CodeOf None = CodeUnknown"
  by (simp add: CodeOf_def)

lemma New_sel [simp]:
  "ex_Code (New c m) = c" "ex_Message (New c m) = m" "ex_Details (New c m) = None" "ex_cause (New c m) = None"
  by (simp_all add: New_def)

lemma Wrap_sel [simp]:
  "ex_Code (Wrap c m k) = c" "ex_Message (Wrap c m k) = m" "ex_Details (Wrap c m k) = None" "ex_cause (Wrap c m k) = k"
  by (simp_all add: Wrap_def)

lemma errors_Is_None [simp]: "\<not> errors_Is None t"
  by (simp add: errors_Is_def)

lemma errors_Is_Sentinel [simp]: "errors_Is (Some (Sentinel m)) t \<longleftrightarrow> t = Sentinel m"
  by (simp add: errors_Is_def)

lemma errors_Is_wrap [simp]: "errors_Is (Some (WrapErr m e)) t \<longleftrightarrow> errors_Is (Some e) t"
  by (simp add: errors_Is_def)

text \<open>A coded error is transparent: \<^verbatim>\<open>errors.Is\<close> looks at its cause.\<close>

lemma errors_Is_err_of [simp]: "errors_Is (Some (err_of e)) t \<longleftrightarrow> errors_Is (ex_cause e) t"
  by (cases "ex_cause e") (simp_all add: errors_Is_def err_of_def)

lemma errors_Is_join: "errors_Is (Some (JoinErr es)) t \<longleftrightarrow> (\<exists>e\<in>set es. errors_Is (Some e) t)"
  by (auto simp: errors_Is_def list_ex_iff)

lemma FromRuleViolation_sel [simp]:
  "ex_Code (FromRuleViolation (Some rv)) = CodeInvalidArgument"
  "ex_Message (FromRuleViolation (Some rv)) = rv_Message rv"
  "ex_Details (FromRuleViolation (Some rv)) = Some [''rule'' \<mapsto> AString (rv_Code rv)]"
  by (simp_all add: FromRuleViolation_def WithDetail_def)

lemma StatusFromCode_cases:
  "StatusFromCode c \<in> {400, 401, 403, 404, 409, 429, 500, 503}"
  by (simp add: StatusFromCode_def statusByCode_def)

lemma StatusFromCode_declared:
  "StatusFromCode CodeUnknown = 500" "StatusFromCode CodeInvalidArgument = 400"
  "StatusFromCode CodeUnauthorized = 401" "StatusFromCode CodeForbidden = 403"
  by (simp_all add: StatusFromCode_def statusByCode_def code_defs)

lemma CodeFromErrorsx_declared:
  "CodeFromErrorsx CodeUnknown = 2" "CodeFromErrorsx CodeInvalidArgument = 3"
  "CodeFromErrorsx CodeNotFound = 5" "CodeFromErrorsx CodeAlreadyExists = 6"
  "CodeFromErrorsx CodeUnauthorized = 16" "CodeFromErrorsx CodeForbidden = 7"
  "CodeFromErrorsx CodeConflict = 10" "CodeFromErrorsx CodeRateLimited = 8"
  "CodeFromErrorsx CodeInternal = 13" "CodeFromErrorsx CodeUnavailable = 14"
  by (simp_all add: CodeFromErrorsx_def statusByErrorsxCode_def code_defs)

lemma Translate_coded:
  "errors_As as_Error err = Some ex \<Longrightarrow>
     Translate err = (\<lparr>bd_Code = ex_Code ex, bd_Message = ex_Message ex, bd_Details = ex_Details ex\<rparr>,
                      StatusFromCode (ex_Code ex))"
  by (cases err) (simp_all add: Translate_def)

lemma Translate_rule:
  assumes "errors_As as_Error err = None" "errors_As as_RuleViolation err = Some rv"
  shows "Translate err = (\<lparr>bd_Code = CodeInvalidArgument, bd_Message = rv_Message rv,
           bd_Details = Some [''rule'' \<mapsto> AString (rv_Code rv)]\<rparr>, 400)"
  using assms by (cases err) (simp_all add: Translate_def Let_def StatusFromCode_declared)

text \<open>
  The HTTP status that \<^verbatim>\<open>Translate\<close> returns is always the table entry of the code it puts
  into the body, whatever the error is (nil, coded, rule violation or foreign), and it is
  one of the error statuses of the table: no error is ever reported as a success.
\<close>

theorem Translate_status_agrees:
  "snd (Translate err) = StatusFromCode (bd_Code (fst (Translate err))) \<and>
   snd (Translate err) \<in> {400, 401, 403, 404, 409, 429, 500, 503}"
proof (cases err)
  case None
  then show ?thesis by (simp add: Translate_def StatusFromCode_declared)
next
  case (Some e)
  show ?thesis
  proof (cases "errors_As as_Error err")
    case None
    with Some show ?thesis
      by (cases "errors_As as_RuleViolation err")
        (simp_all add: Translate_rule StatusFromCode_declared, simp add: Translate_def StatusFromCode_declared)
  next
    case (Some ex)
    then show ?thesis using StatusFromCode_cases by (simp add: Translate_coded)
  qed
qed

text \<open>
  A rule violation that an application wrapped any number of times, and that nothing coded,
  reaches the client as 400 with its message, and its rule code is kept as the detail
  \<^verbatim>\<open>rule\<close>; \<^verbatim>\<open>errors.Is\<close> still recognises it.
\<close>

theorem Translate_wrapped_rule_violation:
  "let err = Some (foldr WrapErr ms (NewRuleViolation c m))
   in Translate err = (\<lparr>bd_Code = CodeInvalidArgument, bd_Message = m,
                        bd_Details = Some [''rule'' \<mapsto> AString c]\<rparr>, 400) \<and>
      errors_Is err ErrRuleViolation"
proof -
  let ?e = "foldr WrapErr ms (NewRuleViolation c m)"
  have "errors_As as_Error (Some ?e) = None"
    by (induction ms) (simp_all add: errors_As_def op_defs)
  moreover have "errors_As as_RuleViolation (Some ?e) = Some \<lparr>rv_Code = c, rv_Message = m\<rparr>"
    by (induction ms) (simp_all add: errors_As_def op_defs)
  moreover have "errors_Is (Some ?e) ErrRuleViolation"
    by (induction ms) (simp_all add: errors_Is_def op_defs)
  ultimately show ?thesis by (simp add: Translate_rule)
qed

text \<open>
  The gRPC table never yields OK and separates all declared codes, so a client can recover
  the code. The HTTP table is complete on the declared codes but identifies
  \<^verbatim>\<open>CodeAlreadyExists\<close> with \<^verbatim>\<open>CodeConflict\<close>: a status 409 alone does not prove which code an
  implementation returned.
\<close>

lemma status_tables_separation:
  "CodeFromErrorsx c \<noteq> StatusOK \<and> inj_on CodeFromErrorsx declared_codes \<and>
   declared_codes = dom statusByCode \<and> dom statusByErrorsxCode = dom statusByCode \<and>
   StatusFromCode CodeAlreadyExists = StatusFromCode CodeConflict"
proof (intro conjI)
  show "CodeFromErrorsx c \<noteq> StatusOK"
    by (simp add: CodeFromErrorsx_def statusByErrorsxCode_def code_defs)
  show "inj_on CodeFromErrorsx declared_codes"
    unfolding declared_codes_def by (auto simp: CodeFromErrorsx_declared)
  show "declared_codes = dom statusByCode" "dom statusByErrorsxCode = dom statusByCode"
    by (auto simp: statusByCode_def statusByErrorsxCode_def dom_map_of_conv_image_fst declared_codes_def)
  show "StatusFromCode CodeAlreadyExists = StatusFromCode CodeConflict"
    by (simp add: StatusFromCode_def statusByCode_def code_defs)
qed

text \<open>
  C27. \<^verbatim>\<open>WithDetail\<close> on the heap implements \<^verbatim>\<open>WithDetail\<close> on values and pollutes nothing: the
  new error shows the base error's details plus the new entry, and every error that
  existed before, the base included, keeps its details.
\<close>

theorem WithDetail_no_pollution:
  assumes "allocated h e" "WithDetail_heap h e key val = (e', h')"
  shows "view_Error h' e' = WithDetail (view_Error h e) key val \<and> allocated h' e' \<and>
         (\<forall>e0. allocated h e0 \<longrightarrow> view_Error h' e0 = view_Error h e0 \<and> allocated h' e0)"
proof -
  have "h_maps h' a = h_maps h a \<and> a < h_next h'" if "a < h_next h" for a
    using assms(2) that
    by (auto simp: WithDetail_heap_def alloc_map_def assign_map_def Let_def split: option.splits)
  moreover have "view_Error h' e' = WithDetail (view_Error h e) key val \<and> allocated h' e'"
    using assms
    by (auto simp: WithDetail_heap_def alloc_map_def assign_map_def Let_def view_Error_def
        WithDetail_def allocated_def split: option.splits)
  ultimately show ?thesis
    by (auto simp: view_Error_def allocated_def split: option.splits)
qed

theorem WithDetail_no_pollution_witness:
  "let h = \<lparr>h_maps = (\<lambda>_. [''a'' \<mapsto> AInt 1]), h_next = 1\<rparr>;
       e = \<lparr>eo_Code = CodeInternal, eo_Message = ''m'', eo_Details = Some 0, eo_cause = None\<rparr>;
       h' = snd (WithDetail_heap h e ''b'' (AInt 2))
   in view_Error h' e = view_Error h e"
  using WithDetail_no_pollution
    [of "\<lparr>h_maps = (\<lambda>_. [''a'' \<mapsto> AInt 1]), h_next = 1\<rparr>"
        "\<lparr>eo_Code = CodeInternal, eo_Message = ''m'', eo_Details = Some 0, eo_cause = None\<rparr>"
        "''b''" "AInt 2"]
  by (simp add: Let_def allocated_def prod_eq_iff)

lemma wrapped_AuthErr:
  "snd (Translate (Some (foldr WrapErr ms (AuthErr c m)))) = StatusFromCode c \<and>
   CodeOf (Some (foldr WrapErr ms (AuthErr c m))) = c \<and>
   (errors_Is (Some (foldr WrapErr ms (AuthErr c m))) t \<longleftrightarrow> t = AuthErr c m)"
proof -
  let ?e = "foldr WrapErr ms (AuthErr c m)"
  have "errors_As as_Error (Some ?e) = Some (New c m)"
    by (induction ms) (simp_all add: errors_As_def New_def)
  moreover have "errors_Is (Some ?e) t \<longleftrightarrow> t = AuthErr c m"
    by (induction ms) (simp_all add: errors_Is_def)
  ultimately show ?thesis by (simp add: Translate_coded CodeOf_def)
qed

text \<open>
  The authentication and authorization sentinels keep their transport meaning under any
  number of wraps: 401 for the three token errors, 403 for a denial and 400 for a
  malformed request; and \<^verbatim>\<open>errors.Is\<close> still finds exactly the wrapped sentinel.
\<close>

theorem auth_sentinel_status:
  "snd (Translate (Some (foldr WrapErr ms ErrTokenMissing))) = 401 \<and>
   snd (Translate (Some (foldr WrapErr ms ErrTokenInvalid))) = 401 \<and>
   snd (Translate (Some (foldr WrapErr ms ErrTokenExpired))) = 401 \<and>
   snd (Translate (Some (foldr WrapErr ms ErrForbidden))) = 403 \<and>
   snd (Translate (Some (foldr WrapErr ms ErrInvalidAuthorizationRequest))) = 400 \<and>
   (errors_Is (Some (foldr WrapErr ms ErrForbidden)) t \<longleftrightarrow> t = ErrForbidden) \<and>
   (errors_Is (Some (foldr WrapErr ms ErrInvalidAuthorizationRequest)) t \<longleftrightarrow>
      t = ErrInvalidAuthorizationRequest)"
  by (simp add: sentinel_defs wrapped_AuthErr StatusFromCode_declared)

end
