(* ===== verification/Domain.thy ===== *)
theory Domain
  imports Errorsx
begin

text \<open>
  The tactical building blocks of \<^verbatim>\<open>domain/\<close>: \<^verbatim>\<open>BaseEntity\<close>, \<^verbatim>\<open>BaseAggregate\<close>, \<^verbatim>\<open>BaseEvent\<close>.
  Go embedding is record extension: a concrete aggregate extends \<open>BaseAggregate\<close> with its
  own fields and the operations below work on every extension. The clock read by
  \<^verbatim>\<open>NewBaseEvent\<close> is the argument \<open>now\<close>.

  The locale \<open>recorder\<close> is the contract that every aggregate method of the repository
  follows: a failing call changes nothing; a successful one bumps the version by one and
  records one event that carries the new version.
\<close>

section \<open>entity.go\<close>

record 'id BaseEntity =
  be_id :: 'id

definition NewBaseEntity :: "'id \<Rightarrow> 'id BaseEntity" where
  "NewBaseEntity i = \<lparr>be_id = i\<rparr>"

definition Entity_Equal :: "('id, 'z) BaseEntity_scheme \<Rightarrow> ('id, 'y) BaseEntity_scheme option \<Rightarrow> bool" where
  "Entity_Equal e other = (case other of None \<Rightarrow> False | Some o' \<Rightarrow> be_id e = be_id o')"

section \<open>event.go\<close>

record BaseEvent =
  ev_ID :: string
  ev_Name :: string
  ev_AggregateKey :: string
  ev_AggregateKind :: string
  ev_At :: int
  ev_Ver :: i64

definition NewBaseEvent :: "int \<Rightarrow> string \<Rightarrow> string \<Rightarrow> string \<Rightarrow> string \<Rightarrow> i64 \<Rightarrow> BaseEvent" where
  "NewBaseEvent now id' name aggregateID aggregateType version =
     \<lparr>ev_ID = id', ev_Name = name, ev_AggregateKey = aggregateID, ev_AggregateKind = aggregateType,
      ev_At = now, ev_Ver = version\<rparr>"

section \<open>aggregate.go\<close>

record ('id, 'ev) BaseAggregate = "'id BaseEntity" +
  ba_events :: "'ev list"
  ba_version :: i64

definition NewBaseAggregate :: "'id \<Rightarrow> ('id, 'ev) BaseAggregate" where
  "NewBaseAggregate i = \<lparr>be_id = i, ba_events = [], ba_version = 0\<rparr>"

definition Record :: "'ev \<Rightarrow> ('id, 'ev, 'z) BaseAggregate_scheme \<Rightarrow> ('id, 'ev, 'z) BaseAggregate_scheme" where
  "Record event a = a\<lparr>ba_events := ba_events a @ [event]\<rparr>"

definition DomainEvents :: "('id, 'ev, 'z) BaseAggregate_scheme \<Rightarrow> 'ev list" where
  "DomainEvents a = ba_events a"

definition ClearEvents :: "('id, 'ev, 'z) BaseAggregate_scheme \<Rightarrow> ('id, 'ev, 'z) BaseAggregate_scheme" where
  "ClearEvents a = a\<lparr>ba_events := []\<rparr>"

definition SetVersion :: "i64 \<Rightarrow> ('id, 'ev, 'z) BaseAggregate_scheme \<Rightarrow> ('id, 'ev, 'z) BaseAggregate_scheme" where
  "SetVersion v a = a\<lparr>ba_version := v\<rparr>"

definition IncrementVersion :: "('id, 'ev, 'z) BaseAggregate_scheme \<Rightarrow> ('id, 'ev, 'z) BaseAggregate_scheme" where
  "IncrementVersion a = a\<lparr>ba_version := ba_version a + 1\<rparr>"

section \<open>Sequences of calls\<close>

text \<open>A caller that goes on after a failed call, as a transport does with each request.\<close>

fun run_ops :: "('op \<Rightarrow> 'a \<Rightarrow> goerr option \<times> 'a) \<Rightarrow> 'op list \<Rightarrow> 'a \<Rightarrow> 'a" where
  "run_ops step [] a = a"
| "run_ops step (x # xs) a = run_ops step xs (snd (step x a))"

text \<open>The number of calls of such a sequence that succeed.\<close>

fun successes :: "('op \<Rightarrow> 'a \<Rightarrow> goerr option \<times> 'a) \<Rightarrow> 'op list \<Rightarrow> 'a \<Rightarrow> nat" where
  "successes step [] a = 0"
| "successes step (x # xs) a =
     (if fst (step x a) = None then 1 else 0) + successes step xs (snd (step x a))"

text \<open>The \<open>n\<close> version numbers that follow \<open>v\<close>.\<close>

fun versions_after :: "i64 \<Rightarrow> nat \<Rightarrow> i64 list" where
  "versions_after v 0 = []"
| "versions_after v (Suc n) = (v + 1) # versions_after (v + 1) n"

lemma run_ops_append: "run_ops step (xs @ ys) a = run_ops step ys (run_ops step xs a)"
  by (induction xs arbitrary: a) auto

lemma BaseAggregate_sel [simp]:
  "ba_events (Record e a) = ba_events a @ [e]" "ba_version (Record e a) = ba_version a"
  "be_id (Record e a) = be_id a" "BaseAggregate.more (Record e a) = BaseAggregate.more a"
  "ba_events (IncrementVersion a) = ba_events a" "ba_version (IncrementVersion a) = ba_version a + 1"
  "be_id (IncrementVersion a) = be_id a" "BaseAggregate.more (IncrementVersion a) = BaseAggregate.more a"
  "ba_events (ClearEvents a) = []" "ba_version (ClearEvents a) = ba_version a"
  "be_id (ClearEvents a) = be_id a" "BaseAggregate.more (ClearEvents a) = BaseAggregate.more a"
  by (simp_all add: Record_def IncrementVersion_def ClearEvents_def)

lemma ClearEvents_idem [simp]: "ClearEvents (ClearEvents a) = ClearEvents a"
  by (simp add: ClearEvents_def)

lemma IncrementVersion_ClearEvents: "IncrementVersion (ClearEvents a) = ClearEvents (IncrementVersion a)"
  by (simp add: ClearEvents_def IncrementVersion_def)

lemma NewBaseEvent_Ver [simp]: "ev_Ver (NewBaseEvent now i n k t v) = v"
  by (simp add: NewBaseEvent_def)

section \<open>The contract of an event recording aggregate\<close>

locale recorder =
  fixes step :: "'op \<Rightarrow> 'a \<Rightarrow> goerr option \<times> 'a"
    and pending :: "'a \<Rightarrow> 'ev list"
    and version :: "'a \<Rightarrow> i64"
    and evVersion :: "'ev \<Rightarrow> i64"
  assumes step_fail: "step x a = (Some e, a') \<Longrightarrow> a' = a"
    and step_ok: "step x a = (None, a') \<Longrightarrow>
      version a' = version a + 1 \<and> (\<exists>ev. pending a' = pending a @ [ev] \<and> evVersion ev = version a')"
begin

lemma step_pending:
  "\<exists>new. pending (snd (step x a)) = pending a @ new \<and>
     map evVersion new = (if fst (step x a) = None then [version a + 1] else []) \<and>
     version (snd (step x a)) = version a + of_nat (length new)"
proof (cases "step x a")
  case (Pair r a')
  show ?thesis
  proof (cases r)
    case None
    with Pair step_ok [of x a a'] show ?thesis by force
  next
    case (Some e)
    with Pair step_fail [of x a e a'] show ?thesis by auto
  qed
qed

text \<open>
  The pending events of any sequence of calls are numbered without gaps or repetitions from
  the version at its start, and there is one per successful call.
\<close>

lemma run_numbering:
  "\<exists>new. pending (run_ops step xs a) = pending a @ new \<and>
     length new = successes step xs a \<and>
     map evVersion new = versions_after (version a) (length new) \<and>
     version (run_ops step xs a) = version a + of_nat (length new)"
proof (induction xs arbitrary: a)
  case Nil
  then show ?case by simp
next
  case (Cons x xs)
  obtain n1 where n1: "pending (snd (step x a)) = pending a @ n1"
    "map evVersion n1 = (if fst (step x a) = None then [version a + 1] else [])"
    "version (snd (step x a)) = version a + of_nat (length n1)"
    using step_pending by blast
  obtain n2 where n2: "pending (run_ops step xs (snd (step x a))) = pending (snd (step x a)) @ n2"
    "length n2 = successes step xs (snd (step x a))"
    "map evVersion n2 = versions_after (version (snd (step x a))) (length n2)"
    "version (run_ops step xs (snd (step x a))) = version (snd (step x a)) + of_nat (length n2)"
    using Cons.IH by blast
  have "length n1 = (if fst (step x a) = None then 1 else 0)"
    using arg_cong [OF n1(2), of length] by simp
  with n1 n2 show ?case
    by (intro exI [of _ "n1 @ n2"]) (simp add: ac_simps)
qed

end

end
