(* ===== verification/Order.thy ===== *)
theory Order
  imports Domain
begin

text \<open>
  The aggregate of \<^verbatim>\<open>examples/minimal/domain/order\<close>. \<^verbatim>\<open>Place\<close> keeps the slice it is given and
  \<^verbatim>\<open>Items\<close> returns a copy, so item slices live on a heap: \<open>sl_array\<close> gives the elements of the
  backing arrays allocated so far, a slice value is \<^term>\<open>None\<close> (nil) or the address of its
  array. Reading \<open>sl_len\<close> elements from the start is the whole slice: the program never
  re-slices. \<^verbatim>\<open>int\<close> is 64 bits wide.

  Shown: what \<^verbatim>\<open>Place\<close> accepts and computes, that an order is placed at most once, that
  \<^verbatim>\<open>Items\<close> hands out an independent copy, and what sharing the slice given to \<^verbatim>\<open>Place\<close> means.
\<close>

section \<open>Slices\<close>

record Item =
  it_SKU :: string
  it_Quantity :: i64
  it_PriceCents :: i64

record slices =
  sl_array :: "nat \<Rightarrow> Item list"
  sl_next :: nat

definition sl_read :: "slices \<Rightarrow> nat option \<Rightarrow> Item list" where
  "sl_read h s = (case s of None \<Rightarrow> [] | Some a \<Rightarrow> sl_array h a)"

text \<open>\<^verbatim>\<open>make\<close> followed by \<^verbatim>\<open>copy\<close>, or a slice built by a decoder: a fresh array.\<close>

definition sl_alloc :: "Item list \<Rightarrow> slices \<Rightarrow> nat \<times> slices" where
  "sl_alloc xs h = (sl_next h, h\<lparr>sl_array := (sl_array h)(sl_next h := xs), sl_next := Suc (sl_next h)\<rparr>)"

text \<open>The element assignment \<^verbatim>\<open>s[i] = x\<close>; it panics when \<open>i\<close> is out of range.\<close>

definition sl_set :: "nat option \<Rightarrow> nat \<Rightarrow> Item \<Rightarrow> slices \<Rightarrow> slices option" where
  "sl_set s i x h =
     (case s of None \<Rightarrow> None
      | Some a \<Rightarrow> if i < length (sl_array h a)
                 then Some (h\<lparr>sl_array := (sl_array h)(a := (sl_array h a)[i := x])\<rparr>) else None)"

definition sl_valid :: "slices \<Rightarrow> nat option \<Rightarrow> bool" where
  "sl_valid h s = (case s of None \<Rightarrow> True | Some a \<Rightarrow> a < sl_next h)"

section \<open>events.go\<close>

record OrderPlaced = BaseEvent +
  op_CustomerID :: string
  op_TotalCents :: i64

definition NewOrderPlaced :: "int \<Rightarrow> string \<Rightarrow> string \<Rightarrow> i64 \<Rightarrow> string \<Rightarrow> i64 \<Rightarrow> OrderPlaced" where
  "NewOrderPlaced now eventID aggregateID version customerID totalCents =
     BaseEvent.extend (NewBaseEvent now eventID ''order.placed'' aggregateID ''Order'' version)
       (OrderPlaced.fields customerID totalCents)"

section \<open>order.go\<close>

definition StatusDraft :: string where "StatusDraft = ''draft''"
definition StatusPlaced :: string where "StatusPlaced = ''placed''"

record Order = "(string, OrderPlaced) BaseAggregate" +
  od_customerID :: string
  od_items :: "nat option"
  od_status :: string
  od_totalCents :: i64

definition Order_New :: "string \<Rightarrow> string \<Rightarrow> Order" where
  "Order_New i customerID =
     BaseAggregate.extend (NewBaseAggregate i) (Order.fields customerID None StatusDraft 0)"

definition Items :: "Order \<Rightarrow> slices \<Rightarrow> nat \<times> slices" where
  "Items o' h = sl_alloc (sl_read h (od_items o')) h"

text \<open>The loop of \<^verbatim>\<open>Place\<close>: \<open>Inl\<close> is its early return.\<close>

fun place_loop :: "Item list \<Rightarrow> i64 \<Rightarrow> goerr + i64" where
  "place_loop [] tot = Inr tot"
| "place_loop (it # its) tot =
     (if it_Quantity it \<le>s 0 then
        Inl (NewRuleViolation ''ITEM_INVALID_QTY'' ''item quantity must be positive'')
      else place_loop its (tot + it_PriceCents it * it_Quantity it))"

definition Place :: "slices \<Rightarrow> int \<Rightarrow> nat option \<Rightarrow> string \<Rightarrow> Order \<Rightarrow> goerr option \<times> Order" where
  "Place h now items eventID o' =
     (if od_status o' \<noteq> StatusDraft then
        (Some (NewRuleViolation ''ORDER_NOT_DRAFT'' ''order is not in draft state''), o')
      else if sl_read h items = [] then
        (Some (NewRuleViolation ''ORDER_EMPTY'' ''order must have at least one item''), o')
      else
        (case place_loop (sl_read h items) 0 of
           Inl e \<Rightarrow> (Some e, o')
         | Inr tot \<Rightarrow>
             (let o1 = o'\<lparr>od_items := items, od_totalCents := tot, od_status := StatusPlaced\<rparr>;
                  o2 = IncrementVersion o1
              in (None, Record (NewOrderPlaced now eventID (be_id o2) (ba_version o2) (od_customerID o2) tot) o2))))"

section \<open>Facts\<close>

lemma NewOrderPlaced_sel [simp]:
  "ev_Ver (NewOrderPlaced now e i v c t) = v" "op_TotalCents (NewOrderPlaced now e i v c t) = t"
  "op_CustomerID (NewOrderPlaced now e i v c t) = c" "ev_AggregateKey (NewOrderPlaced now e i v c t) = i"
  by (simp_all add: NewOrderPlaced_def NewBaseEvent_def BaseEvent.defs OrderPlaced.defs)

lemma Order_sel [simp]:
  "od_status (Record e o') = od_status o'" "od_status (IncrementVersion o') = od_status o'"
  "od_totalCents (Record e o') = od_totalCents o'" "od_totalCents (IncrementVersion o') = od_totalCents o'"
  "od_items (Record e o') = od_items o'" "od_items (IncrementVersion o') = od_items o'"
  "od_customerID (Record e o') = od_customerID o'" "od_customerID (IncrementVersion o') = od_customerID o'"
  "od_status (ClearEvents o') = od_status o'" "od_totalCents (ClearEvents o') = od_totalCents o'"
  "od_items (ClearEvents o') = od_items o'" "od_customerID (ClearEvents o') = od_customerID o'"
  by (simp_all add: Record_def IncrementVersion_def ClearEvents_def)

lemma Order_New_sel [simp]:
  "be_id (Order_New i c) = i" "ba_events (Order_New i c) = []" "ba_version (Order_New i c) = 0"
  "od_customerID (Order_New i c) = c" "od_items (Order_New i c) = None"
  "od_status (Order_New i c) = StatusDraft" "od_totalCents (Order_New i c) = 0"
  by (simp_all add: Order_New_def NewBaseAggregate_def BaseAggregate.defs Order.defs)

lemma StatusPlaced_neq_Draft [simp]: "StatusPlaced \<noteq> StatusDraft" "StatusDraft \<noteq> StatusPlaced"
  by (simp_all add: StatusPlaced_def StatusDraft_def)

lemma place_loop_ok:
  "(\<forall>it\<in>set its. 0 < sint (it_Quantity it)) \<Longrightarrow>
     place_loop its t = Inr (t + (\<Sum>it\<leftarrow>its. it_PriceCents it * it_Quantity it))"
  by (induction its arbitrary: t) (auto simp: word_sle_eq add.assoc)

lemma place_loop_bad:
  "\<exists>it\<in>set its. \<not> 0 < sint (it_Quantity it) \<Longrightarrow>
     place_loop its t = Inl (NewRuleViolation ''ITEM_INVALID_QTY'' ''item quantity must be positive'')"
  by (induction its arbitrary: t) (auto simp: word_sle_eq)

text \<open>The total in unbounded arithmetic, and when it is the stored one.\<close>

definition order_sum :: "Item list \<Rightarrow> int" where
  "order_sum its = (\<Sum>it\<leftarrow>its. sint (it_PriceCents it) * sint (it_Quantity it))"

lemma word_total_of_int:
  "(\<Sum>it\<leftarrow>its. it_PriceCents it * it_Quantity it) = (word_of_int (order_sum its) :: i64)"
  by (induction its) (simp_all add: order_sum_def)

definition placed_by :: "Order \<Rightarrow> i64 \<Rightarrow> nat option \<Rightarrow> Order \<Rightarrow> bool" where
  "placed_by o' tot items o2 \<longleftrightarrow>
     od_status o2 = StatusPlaced \<and> od_totalCents o2 = tot \<and> od_items o2 = items \<and>
     od_customerID o2 = od_customerID o' \<and> be_id o2 = be_id o' \<and> ba_version o2 = ba_version o' + 1 \<and>
     (\<exists>ev. ba_events o2 = ba_events o' @ [ev] \<and> ev_Ver ev = ba_version o2 \<and> op_TotalCents ev = tot \<and>
        op_CustomerID ev = od_customerID o' \<and> ev_AggregateKey ev = be_id o')"

definition placeable :: "slices \<Rightarrow> nat option \<Rightarrow> Order \<Rightarrow> bool" where
  "placeable h items o' \<longleftrightarrow>
     od_status o' = StatusDraft \<and> sl_read h items \<noteq> [] \<and>
     (\<forall>it\<in>set (sl_read h items). 0 < sint (it_Quantity it))"

lemma Place_ok:
  assumes "placeable h items o'"
  shows "\<exists>o2. Place h now items eid o' = (None, o2) \<and>
     placed_by o' (word_of_int (order_sum (sl_read h items))) items o2"
  using assms place_loop_ok [of "sl_read h items" 0]
  by (auto simp: Place_def placeable_def Let_def placed_by_def word_total_of_int)

lemma Place_fails:
  assumes "\<not> placeable h items o'"
  shows "\<exists>e. Place h now items eid o' = (Some e, o') \<and> errors_Is (Some e) ErrRuleViolation"
proof (cases "od_status o' = StatusDraft \<and> sl_read h items \<noteq> []")
  case True
  with assms have "\<exists>it\<in>set (sl_read h items). \<not> 0 < sint (it_Quantity it)"
    by (auto simp: placeable_def)
  with True place_loop_bad [of "sl_read h items" 0] show ?thesis
    by (simp add: Place_def NewRuleViolation_def errors_Is_def)
next
  case False
  then show ?thesis by (auto simp: Place_def NewRuleViolation_def errors_Is_def)
qed

text \<open>
  C30. \<^verbatim>\<open>Place\<close> is all or nothing: it succeeds exactly on a draft order with at least one item
  and positive quantities only; then the order is placed, the version bumped, one
  \<^verbatim>\<open>OrderPlaced\<close> event with the same total and customer recorded, and the total is the
  mathematical sum of price times quantity whenever that sum fits in an \<^verbatim>\<open>int64\<close>. Otherwise
  the result is a rule violation and the order is unchanged.
\<close>

theorem Place_all_or_nothing:
  "case Place h now items eid o' of
     (None, o2) \<Rightarrow> placeable h items o' \<and> placed_by o' (od_totalCents o2) items o2 \<and>
       (minInt64 \<le> order_sum (sl_read h items) \<and> order_sum (sl_read h items) \<le> maxInt64 \<longrightarrow>
          sint (od_totalCents o2) = order_sum (sl_read h items))
   | (Some e, o2) \<Rightarrow> \<not> placeable h items o' \<and> o2 = o' \<and> errors_Is (Some e) ErrRuleViolation"
proof (cases "placeable h items o'")
  case True
  then obtain o2 where "Place h now items eid o' = (None, o2)"
    "placed_by o' (word_of_int (order_sum (sl_read h items))) items o2"
    using Place_ok by blast
  with True sint_i64_of_int [of "order_sum (sl_read h items)"] show ?thesis
    by (auto simp: placed_by_def)
next
  case False
  with Place_fails [of h items o' now eid] show ?thesis by auto
qed

section \<open>Sequences of calls\<close>

definition order_step :: "slices \<Rightarrow> int \<times> nat option \<times> string \<Rightarrow> Order \<Rightarrow> goerr option \<times> Order" where
  "order_step h x o' = (case x of (now, items, eid) \<Rightarrow> Place h now items eid o')"

lemma order_step_cases:
  "order_step h x o' = (r, o2) \<Longrightarrow>
     (r = None \<and> od_status o' = StatusDraft \<and> (\<exists>t items. placed_by o' t items o2)) \<or> (r \<noteq> None \<and> o2 = o')"
proof -
  assume st: "order_step h x o' = (r, o2)"
  obtain now items eid where x: "x = (now, items, eid)" by (cases x)
  show ?thesis
  proof (cases "placeable h items o'")
    case True
    with st x Place_ok [OF True, of now eid] show ?thesis
      by (auto simp: order_step_def placeable_def)
  next
    case False
    with st x Place_fails [OF False, of now eid] show ?thesis
      by (auto simp: order_step_def)
  qed
qed

interpretation ord: recorder "order_step h" DomainEvents ba_version ev_Ver for h
  by unfold_locales (auto simp: DomainEvents_def placed_by_def dest!: order_step_cases)

lemma placed_absorbs:
  "od_status o' = StatusPlaced \<Longrightarrow> run_ops (order_step h) xs o' = o' \<and> successes (order_step h) xs o' = 0"
proof (induction xs)
  case Nil
  then show ?case by simp
next
  case (Cons x xs)
  obtain r o2 where "order_step h x o' = (r, o2)" by (cases "order_step h x o'")
  with Cons order_step_cases [of h x o' r o2] show ?case by auto
qed

lemma order_at_most_once:
  "od_status o' = StatusDraft \<Longrightarrow> successes (order_step h) xs o' \<le> 1 \<and>
     (od_status (run_ops (order_step h) xs o') = StatusPlaced \<longleftrightarrow> successes (order_step h) xs o' = 1)"
proof (induction xs arbitrary: o')
  case Nil
  then show ?case by simp
next
  case (Cons x xs)
  obtain r o2 where "order_step h x o' = (r, o2)" by (cases "order_step h x o'")
  with Cons order_step_cases [of h x o' r o2] placed_absorbs [of o2 h xs] show ?case
    by (auto simp: placed_by_def)
qed

text \<open>
  C32. An order is placed at most once: whatever sequence of \<^verbatim>\<open>Place\<close> calls follows \<^verbatim>\<open>New\<close>, at most
  one succeeds, the order is placed exactly when one did, and there are as many pending
  events, numbered from 1, as successful calls; the version is that number.
\<close>

theorem order_placed_at_most_once:
  "successes (order_step h) xs (Order_New i c) \<le> 1 \<and>
   (od_status (run_ops (order_step h) xs (Order_New i c)) = StatusPlaced \<longleftrightarrow>
      successes (order_step h) xs (Order_New i c) = 1) \<and>
   map ev_Ver (DomainEvents (run_ops (order_step h) xs (Order_New i c))) =
     versions_after 0 (successes (order_step h) xs (Order_New i c)) \<and>
   ba_version (run_ops (order_step h) xs (Order_New i c)) = of_nat (successes (order_step h) xs (Order_New i c))"
proof -
  let ?o1 = "run_ops (order_step h) xs (Order_New i c)"
  obtain new where "DomainEvents ?o1 = DomainEvents (Order_New i c) @ new"
    "length new = successes (order_step h) xs (Order_New i c)"
    "map ev_Ver new = versions_after (ba_version (Order_New i c)) (length new)"
    "ba_version ?o1 = ba_version (Order_New i c) + of_nat (length new)"
    using ord.run_numbering by blast
  with order_at_most_once [of "Order_New i c" h xs] show ?thesis
    by (simp add: DomainEvents_def)
qed

section \<open>Sharing of item slices\<close>

lemma sl_set_read:
  "sl_set (Some a) i x h = Some h' \<Longrightarrow>
     sl_read h' s = (if s = Some a then (sl_read h s)[i := x] else sl_read h s)"
  by (auto simp: sl_set_def sl_read_def split: if_splits option.splits)

text \<open>
  Encapsulation of the lines: the slice that \<^verbatim>\<open>Items\<close> returns has the lines of the order, and
  no assignment through it changes what the order (or any other slice) holds.
\<close>

theorem Items_is_a_copy:
  assumes "sl_valid h (od_items o')" "Items o' h = (a, h1)"
  shows "sl_read h1 (Some a) = sl_read h (od_items o') \<and>
     (\<forall>i x h2. sl_set (Some a) i x h1 = Some h2 \<longrightarrow>
        (\<forall>s. sl_valid h s \<longrightarrow> sl_read h2 s = sl_read h s))"
proof -
  have a: "a = sl_next h" and h1: "sl_read h1 s = (if s = Some a then sl_read h (od_items o') else sl_read h s)" for s
    using assms(2) by (auto simp: Items_def sl_alloc_def sl_read_def split: option.split)
  have "s \<noteq> Some a" if "sl_valid h s" for s
    using that a by (auto simp: sl_valid_def)
  then show ?thesis by (simp add: h1 sl_set_read)
qed

definition demo_item :: "i64 \<Rightarrow> Item" where
  "demo_item p = \<lparr>it_SKU = ''sku'', it_Quantity = 2, it_PriceCents = p\<rparr>"

theorem Place_all_or_nothing_witness:
  "sint (od_totalCents (snd (Place \<lparr>sl_array = (\<lambda>_. [demo_item 5]), sl_next = 1\<rparr> 0 (Some 0) ''e'' (Order_New ''o'' ''c'')))) = 10"
proof -
  let ?h = "\<lparr>sl_array = (\<lambda>_. [demo_item 5]), sl_next = 1\<rparr>"
  have "placeable ?h (Some 0) (Order_New ''o'' ''c'')" "order_sum (sl_read ?h (Some 0)) = 10"
    by (simp_all add: placeable_def sl_read_def demo_item_def order_sum_def)
  with Place_all_or_nothing [where h = ?h and now = 0 and items = "Some 0" and eid = "''e''" and o' = "Order_New ''o'' ''c''"] show ?thesis
    by (auto split: prod.splits option.splits)
qed

theorem Items_is_a_copy_witness:
  "sl_read (snd (Items ((Order_New ''o'' ''c'')\<lparr>od_items := Some 0\<rparr>)
      \<lparr>sl_array = (\<lambda>_. [demo_item 5]), sl_next = 1\<rparr>)) (Some 1) = [demo_item 5]"
  using Items_is_a_copy [of "\<lparr>sl_array = (\<lambda>_. [demo_item 5]), sl_next = 1\<rparr>"
      "(Order_New ''o'' ''c'')\<lparr>od_items := Some 0\<rparr>" 1
      "snd (Items ((Order_New ''o'' ''c'')\<lparr>od_items := Some 0\<rparr>) \<lparr>sl_array = (\<lambda>_. [demo_item 5]), sl_next = 1\<rparr>)"]
  by (simp add: sl_valid_def Items_def sl_alloc_def sl_read_def)

text \<open>
  C37. The other direction is not protected: \<^verbatim>\<open>Place\<close> keeps the caller's slice, so after a
  successful call an assignment through that slice changes the lines of the placed order, and
  raising the price of a line leaves the recorded total behind.
\<close>

theorem Place_shares_caller_slice:
  assumes "Place h now (Some a) eid o' = (None, o2)" "i < length (sl_array h a)"
  shows "\<exists>h2. sl_set (Some a) i x h = Some h2 \<and>
     sl_read h2 (od_items o2) = (sl_read h (od_items o2))[i := x] \<and> od_items o2 = Some a"
proof -
  have "placeable h (Some a) o'"
    using assms(1) Place_fails [of h "Some a" o' now eid] by auto
  with assms(1) Place_ok [of h "Some a" o' now eid] have "od_items o2 = Some a"
    by (auto simp: placed_by_def)
  with assms(2) show ?thesis by (simp add: sl_set_def sl_read_def)
qed

theorem Place_shares_caller_slice_witness:
  "case Place \<lparr>sl_array = (\<lambda>_. [demo_item 5]), sl_next = 1\<rparr> 0 (Some 0) ''e'' (Order_New ''o'' ''c'') of
     (None, o2) \<Rightarrow> od_totalCents o2 = 10 \<and>
       (\<exists>h2. sl_set (Some 0) 0 (demo_item 9) \<lparr>sl_array = (\<lambda>_. [demo_item 5]), sl_next = 1\<rparr> = Some h2 \<and>
          order_sum (sl_read h2 (od_items o2)) = 18)
   | _ \<Rightarrow> False"
proof -
  let ?h = "\<lparr>sl_array = (\<lambda>_. [demo_item 5]), sl_next = 1\<rparr>"
  let ?o2 = "snd (Place ?h 0 (Some 0) ''e'' (Order_New ''o'' ''c''))"
  have *: "Place ?h 0 (Some 0) ''e'' (Order_New ''o'' ''c'') = (None, ?o2)" "od_totalCents ?o2 = 10"
    by (simp_all add: Place_def sl_read_def demo_item_def word_sle_eq Let_def)
  with Place_shares_caller_slice [OF *(1), of 0 "demo_item 9"] show ?thesis
    by (auto simp: sl_read_def demo_item_def order_sum_def)
qed

end
