(* ===== verification/Middleware.thy ===== *)
theory Middleware
  imports Go_Prelude
begin

text \<open>
  What the buses, the event router and the HTTP transport share: middleware chains and the
  routing of messages by name.
  \<^item> The locale \<open>middleware_chain\<close> is the contract of the four functions \<^verbatim>\<open>Chain\<close> of the
    repository (the first middleware is the outermost).
  \<^item> The locale \<open>message_bus\<close> is the contract of \<^verbatim>\<open>command.Bus\<close> and \<^verbatim>\<open>query.Bus\<close>.
  \<^item> \<open>gotype\<close> and \<open>gotypes\<close> model the use of \<^verbatim>\<open>reflect\<close> and of type assertions in the
    resolution of routing names.
  \<^verbatim>\<open>transport/http\<close>'s \<^verbatim>\<open>Chain\<close> is defined here too, since it has no other behaviour.
\<close>

section \<open>Types at run time\<close>

datatype gotype = TNamed string | TUnnamed nat | TInterface string | TPointer gotype

text \<open>\<^verbatim>\<open>for t.Kind() == reflect.Pointer { t = t.Elem() }\<close>\<close>

fun strip_pointers :: "gotype \<Rightarrow> gotype" where
  "strip_pointers (TPointer t) = strip_pointers t"
| "strip_pointers t = t"

text \<open>\<^verbatim>\<open>reflect.Type.Name\<close>: empty for types without a name.\<close>

fun type_Name :: "gotype \<Rightarrow> string" where
  "type_Name (TNamed n) = n"
| "type_Name (TInterface n) = n"
| "type_Name _ = []"

text \<open>
  The types of a program: the dynamic type of a value, the optional naming method
  (\<^verbatim>\<open>CommandName\<close> or \<^verbatim>\<open>QueryName\<close>) in the method set of a type, the zero value of a type, the
  value that \<^verbatim>\<open>reflect.New\<close> allocates, and which types implement a named interface.
\<close>

record 'v gotypes =
  typeOf :: "'v \<Rightarrow> gotype"
  nameMethod :: "gotype \<Rightarrow> ('v \<Rightarrow> string) option"
  zeroOf :: "gotype \<Rightarrow> 'v"
  newOf :: "gotype \<Rightarrow> 'v"
  implements :: "string \<Rightarrow> gotype \<Rightarrow> bool"

text \<open>The type assertion \<^verbatim>\<open>v, ok := x.(T)\<close>; a nil interface (\<^term>\<open>None\<close>) never matches.\<close>

definition type_assert :: "'v gotypes \<Rightarrow> gotype \<Rightarrow> 'v option \<Rightarrow> 'v option" where
  "type_assert ty t x =
     (case x of None \<Rightarrow> None
      | Some v \<Rightarrow>
          (if (case t of TInterface i \<Rightarrow> implements ty i (typeOf ty v) | _ \<Rightarrow> typeOf ty v = t)
           then Some v else None))"

text \<open>
  A well formed program: the dynamic type of a value is never an interface, a zero value and
  an allocated pointer have the types they should.
\<close>

definition wf_gotypes :: "'v gotypes \<Rightarrow> bool" where
  "wf_gotypes ty \<longleftrightarrow>
     (\<forall>v i. typeOf ty v \<noteq> TInterface i) \<and>
     (\<forall>t. (\<forall>i. t \<noteq> TInterface i) \<longrightarrow> typeOf ty (zeroOf ty t) = t) \<and>
     (\<forall>t. typeOf ty (newOf ty t) = TPointer t)"

text \<open>The naming method of \<open>t\<close> answers the same for every value of the type.\<close>

definition stable_name :: "'v gotypes \<Rightarrow> gotype \<Rightarrow> bool" where
  "stable_name ty t \<longleftrightarrow>
     (\<forall>f v v'. nameMethod ty t = Some f \<and> typeOf ty v = t \<and> typeOf ty v' = t \<longrightarrow> f v = f v')"

section \<open>transport/http\<close>

definition http_Chain :: "(('r \<Rightarrow> 'w \<Rightarrow> 'w) \<Rightarrow> ('r \<Rightarrow> 'w \<Rightarrow> 'w)) list \<Rightarrow> ('r \<Rightarrow> 'w \<Rightarrow> 'w) \<Rightarrow> ('r \<Rightarrow> 'w \<Rightarrow> 'w)" where
  "http_Chain mws next' = for_down (length mws) (\<lambda>i next'. (mws ! i) next') next'"

section \<open>Contracts\<close>

locale middleware_chain =
  fixes chain :: "('f \<Rightarrow> 'f) list \<Rightarrow> 'f \<Rightarrow> 'f"
  assumes chain_Nil: "chain [] f = f"
    and chain_Cons: "chain (m # ms) f = m (chain ms f)"
begin

lemma chain_append: "chain (ms @ ns) f = chain ms (chain ns f)"
  by (induction ms) (simp_all add: chain_Nil chain_Cons)

lemma chain_foldr: "chain ms f = foldr (\<lambda>m g. m g) ms f"
  by (induction ms) (simp_all add: chain_Nil chain_Cons)

text \<open>A property that every middleware preserves holds for the wrapped handler.\<close>

lemma chain_invariant: "P f \<Longrightarrow> (\<And>m g. m \<in> set ms \<Longrightarrow> P g \<Longrightarrow> P (m g)) \<Longrightarrow> P (chain ms f)"
  by (induction ms) (simp_all add: chain_Nil chain_Cons)

end

locale message_bus =
  fixes RegisterHandler :: "string \<Rightarrow> ('c \<Rightarrow> 'q \<Rightarrow> 'w \<Rightarrow> 'o) \<Rightarrow> 'b \<Rightarrow> 'b"
    and Dispatch :: "'b \<Rightarrow> 'c \<Rightarrow> 'q \<Rightarrow> 'w \<Rightarrow> 'o"
    and nameOf :: "'q \<Rightarrow> string"
    and wrapped :: "'b \<Rightarrow> ('c \<Rightarrow> 'q \<Rightarrow> 'w \<Rightarrow> 'o) \<Rightarrow> ('c \<Rightarrow> 'q \<Rightarrow> 'w \<Rightarrow> 'o)"
  assumes dispatch_hit: "nameOf q = n \<Longrightarrow> Dispatch (RegisterHandler n f b) c q w = wrapped b f c q w"
    and dispatch_miss: "nameOf q \<noteq> n \<Longrightarrow> Dispatch (RegisterHandler n f b) c q w = Dispatch b c q w"
    and wrapped_register: "wrapped (RegisterHandler n f b) = wrapped b"
begin

lemma wrapped_fold: "wrapped (fold (\<lambda>(n, f). RegisterHandler n f) rs b) = wrapped b"
  by (induction rs arbitrary: b) (auto simp: wrapped_register)

text \<open>After any wiring the last registration for the message's name decides.\<close>

lemma dispatch_wiring:
  "Dispatch (fold (\<lambda>(n, f). RegisterHandler n f) rs b) c q w =
     (case map_of (rev rs) (nameOf q) of
        Some f \<Rightarrow> wrapped b f c q w
      | None \<Rightarrow> Dispatch b c q w)"
proof (induction rs arbitrary: b rule: rev_induct)
  case Nil
  then show ?case by simp
next
  case (snoc r rs)
  obtain n f where r: "r = (n, f)" by (cases r)
  show ?case
    using snoc.IH by (cases "nameOf q = n") (simp_all add: r dispatch_hit dispatch_miss wrapped_fold)
qed

end

interpretation httpc: middleware_chain http_Chain
  by unfold_locales (simp_all add: http_Chain_def for_down_Cons del: for_down.simps(2))

text \<open>The values a variable of a static type can hold, and a handler replaced outside its type.\<close>

definition instance_of :: "'v gotypes \<Rightarrow> gotype \<Rightarrow> 'v \<Rightarrow> bool" where
  "instance_of ty t v = (case t of TInterface i \<Rightarrow> implements ty i (typeOf ty v) | _ \<Rightarrow> typeOf ty v = t)"

definition on_type :: "'v gotypes \<Rightarrow> gotype \<Rightarrow> ('c \<Rightarrow> 'v \<Rightarrow> 'o) \<Rightarrow> ('c \<Rightarrow> 'v \<Rightarrow> 'o) \<Rightarrow> 'c \<Rightarrow> 'v \<Rightarrow> 'o" where
  "on_type ty t h bad = (\<lambda>ctx v. if instance_of ty t v then h ctx v else bad ctx v)"

lemma type_assert_instance: "type_assert ty t (Some v) = (if instance_of ty t v then Some v else None)"
  by (simp add: type_assert_def instance_of_def)

lemma type_assert_Some:
  "type_assert ty t (Some v) = Some v' \<Longrightarrow> v' = v"
  by (auto simp: type_assert_def split: if_splits)

end
