(* ===== verification/Command_Bus.thy ===== *)
theory Command_Bus
  imports Middleware
begin

text \<open>
  \<^verbatim>\<open>application/command\<close>: the write side bus. A dispatcher receives the
  context, the command (\<^term>\<open>None\<close> is a nil interface) and the state of the world its handler
  works on; it returns the result (\<^term>\<open>None\<close> is nil), the error and the new world.
  \<^verbatim>\<open>InMemoryBus\<close> guards its map with a lock, so each operation is one atomic step.
\<close>

section \<open>errors.go\<close>

definition cmd_ErrHandlerNotFound :: goerr where
  "cmd_ErrHandlerNotFound = Sentinel ''command: handler not found''"
definition ErrCommandMismatch :: goerr where
  "ErrCommandMismatch = Sentinel ''command: command type mismatch''"

section \<open>command.go\<close>

type_synonym ('c, 'v, 'w, 'r) cmd_handler = "'c \<Rightarrow> 'v \<Rightarrow> 'w \<Rightarrow> 'r \<times> goerr option \<times> 'w"
type_synonym ('c, 'v, 'w, 'r) cmd_dispatcher = "'c \<Rightarrow> 'v option \<Rightarrow> 'w \<Rightarrow> 'r option \<times> goerr option \<times> 'w"

text \<open>\<^verbatim>\<open>CommandName()\<close> of the dynamic type when it is declared, otherwise the name of the type.\<close>

definition cmd_NameOf :: "'v gotypes \<Rightarrow> 'v option \<Rightarrow> string" where
  "cmd_NameOf ty cmd =
     (case cmd of
        None \<Rightarrow> []
      | Some v \<Rightarrow>
          (let s = (case nameMethod ty (typeOf ty v) of Some f \<Rightarrow> f v | None \<Rightarrow> [])
           in if s \<noteq> [] then s else type_Name (strip_pointers (typeOf ty v))))"

text \<open>The probe: a fresh pointer for pointer types, else the zero value (nil for an interface).\<close>

definition cmd_probe :: "'v gotypes \<Rightarrow> gotype \<Rightarrow> 'v option" where
  "cmd_probe ty t =
     (case t of
        TPointer t' \<Rightarrow> Some (newOf ty t')
      | TInterface _ \<Rightarrow> None
      | _ \<Rightarrow> Some (zeroOf ty t))"

definition cmd_nameOfType :: "'v gotypes \<Rightarrow> gotype \<Rightarrow> string" where
  "cmd_nameOfType ty t =
     (let s = (case cmd_probe ty t of
                 None \<Rightarrow> []
               | Some v \<Rightarrow> (case nameMethod ty (typeOf ty v) of Some f \<Rightarrow> f v | None \<Rightarrow> []))
      in if s \<noteq> [] then s else type_Name (strip_pointers t))"

section \<open>middleware.go\<close>

definition cmd_Chain :: "(('c, 'v, 'w, 'r) cmd_dispatcher \<Rightarrow> ('c, 'v, 'w, 'r) cmd_dispatcher) list
    \<Rightarrow> ('c, 'v, 'w, 'r) cmd_dispatcher \<Rightarrow> ('c, 'v, 'w, 'r) cmd_dispatcher" where
  "cmd_Chain mws next' = for_down (length mws) (\<lambda>i next'. (mws ! i) next') next'"

definition cmd_Apply :: "('c, 'v, 'w, 'r) cmd_dispatcher
    \<Rightarrow> (('c, 'v, 'w, 'r) cmd_dispatcher \<Rightarrow> ('c, 'v, 'w, 'r) cmd_dispatcher) list \<Rightarrow> ('c, 'v, 'w, 'r) cmd_dispatcher" where
  "cmd_Apply fn mws = cmd_Chain mws fn"

section \<open>inmem.go\<close>

record ('c, 'v, 'w, 'r) cmd_InMemoryBus =
  cmd_handlers :: "string \<Rightarrow> ('c, 'v, 'w, 'r) cmd_dispatcher option"
  cmd_middlewares :: "(('c, 'v, 'w, 'r) cmd_dispatcher \<Rightarrow> ('c, 'v, 'w, 'r) cmd_dispatcher) list"

definition cmd_NewInMemoryBus :: "(('c, 'v, 'w, 'r) cmd_dispatcher \<Rightarrow> ('c, 'v, 'w, 'r) cmd_dispatcher) list
    \<Rightarrow> ('c, 'v, 'w, 'r) cmd_InMemoryBus" where
  "cmd_NewInMemoryBus mws = \<lparr>cmd_handlers = Map.empty, cmd_middlewares = mws\<rparr>"

definition cmd_RegisterHandler :: "string \<Rightarrow> ('c, 'v, 'w, 'r) cmd_dispatcher
    \<Rightarrow> ('c, 'v, 'w, 'r) cmd_InMemoryBus \<Rightarrow> ('c, 'v, 'w, 'r) cmd_InMemoryBus" where
  "cmd_RegisterHandler name fn b =
     b\<lparr>cmd_handlers := (cmd_handlers b)(name \<mapsto> cmd_Apply fn (cmd_middlewares b))\<rparr>"

definition cmd_Dispatch :: "'v gotypes \<Rightarrow> ('c, 'v, 'w, 'r) cmd_InMemoryBus \<Rightarrow> ('c, 'v, 'w, 'r) cmd_dispatcher" where
  "cmd_Dispatch ty b ctx cmd w =
     (case cmd_handlers b (cmd_NameOf ty cmd) of
        None \<Rightarrow> (None, Some cmd_ErrHandlerNotFound, w)
      | Some fn \<Rightarrow> fn ctx cmd w)"

text \<open>The dispatcher that \<^verbatim>\<open>Register\<close> builds around a typed handler, and \<^verbatim>\<open>Register\<close> itself.\<close>

definition cmd_typed :: "'v gotypes \<Rightarrow> gotype \<Rightarrow> ('c, 'v, 'w, 'r) cmd_handler \<Rightarrow> ('c, 'v, 'w, 'r) cmd_dispatcher" where
  "cmd_typed ty t h ctx cmd w =
     (case type_assert ty t cmd of
        None \<Rightarrow> (None, Some ErrCommandMismatch, w)
      | Some typed \<Rightarrow> (let (r, err, w') = h ctx typed w in (Some r, err, w')))"

definition cmd_Register :: "'v gotypes \<Rightarrow> gotype \<Rightarrow> ('c, 'v, 'w, 'r) cmd_handler
    \<Rightarrow> ('c, 'v, 'w, 'r) cmd_InMemoryBus \<Rightarrow> ('c, 'v, 'w, 'r) cmd_InMemoryBus" where
  "cmd_Register ty t h b = cmd_RegisterHandler (cmd_nameOfType ty t) (cmd_typed ty t h) b"

section \<open>The contracts hold\<close>

interpretation cmdc: middleware_chain cmd_Chain
  by unfold_locales (simp_all add: cmd_Chain_def for_down_Cons del: for_down.simps(2))

interpretation cmdbus: message_bus cmd_RegisterHandler "cmd_Dispatch ty" "cmd_NameOf ty"
    "\<lambda>b f. cmd_Apply f (cmd_middlewares b)" for ty :: "'v gotypes"
  by unfold_locales (simp_all add: cmd_RegisterHandler_def cmd_Dispatch_def)

lemma cmd_names_symmetric:
  assumes "wf_gotypes ty" "stable_name ty t" "typeOf ty v = t"
  shows "cmd_NameOf ty (Some v) = cmd_nameOfType ty t"
proof -
  have notI: "t \<noteq> TInterface i" for i
    using assms(1,3) by (auto simp: wf_gotypes_def)
  then obtain u where u: "cmd_probe ty t = Some u" "typeOf ty u = t"
    using assms(1) by (cases t) (auto simp: cmd_probe_def wf_gotypes_def)
  have "f v = f u" if "nameMethod ty t = Some f" for f
    using assms(2,3) u(2) that unfolding stable_name_def by blast
  then have "(case nameMethod ty t of Some f \<Rightarrow> f v | None \<Rightarrow> []) =
             (case nameMethod ty t of Some f \<Rightarrow> f u | None \<Rightarrow> [])"
    by (simp split: option.split)
  with u assms(3) show ?thesis by (simp add: cmd_NameOf_def cmd_nameOfType_def Let_def)
qed

lemma cmd_reaches_typed:
  assumes "wf_gotypes ty" "stable_name ty t" "typeOf ty v = t"
  shows "cmd_Dispatch ty (cmd_Register ty t h b) ctx (Some v) w =
     cmd_Chain (cmd_middlewares b) (cmd_typed ty t h) ctx (Some v) w"
  using cmd_names_symmetric [OF assms] by (simp add: cmd_Register_def cmdbus.dispatch_hit cmd_Apply_def)

text \<open>A typed handler is never called outside its type, so its behaviour there does not matter.\<close>

lemma cmd_typed_on_type: "cmd_typed ty t (on_type ty t h bad) = cmd_typed ty t h"
proof (intro ext)
  fix ctx cmd w
  show "cmd_typed ty t (on_type ty t h bad) ctx cmd w = cmd_typed ty t h ctx cmd w"
  proof (cases cmd)
    case (Some v)
    then show ?thesis by (cases "instance_of ty t v") (simp_all add: cmd_typed_def on_type_def type_assert_instance)
  qed (simp add: cmd_typed_def type_assert_def)
qed

lemma cmd_typed_match:
  assumes "wf_gotypes ty" "typeOf ty v = t"
  shows "cmd_typed ty t h ctx (Some v) w = (let (r, err, w') = h ctx v w in (Some r, err, w'))"
proof -
  have "t \<noteq> TInterface i" for i
    using assms by (auto simp: wf_gotypes_def)
  then have "type_assert ty t (Some v) = Some v"
    using assms(2) by (auto simp: type_assert_def split: gotype.splits)
  then show ?thesis by (simp add: cmd_typed_def)
qed

text \<open>
  Registration and dispatch agree on the routing name: a command of a concrete type \<open>t\<close> whose
  \<^verbatim>\<open>CommandName\<close> does not depend on the value reaches the handler registered for \<open>t\<close> through the
  bus middlewares, whatever was registered before. Without middlewares the outcome is that of
  the handler itself.
\<close>

theorem cmd_register_dispatch:
  assumes "wf_gotypes ty" "stable_name ty t" "typeOf ty v = t"
  shows "cmd_Dispatch ty (cmd_Register ty t h b) ctx (Some v) w =
           cmd_Chain (cmd_middlewares b) (cmd_typed ty t h) ctx (Some v) w \<and>
         (cmd_middlewares b = [] \<longrightarrow>
            cmd_Dispatch ty (cmd_Register ty t h b) ctx (Some v) w =
              (let (r, err, w') = h ctx v w in (Some r, err, w')))"
  by (simp add: cmd_reaches_typed [OF assms] cmdc.chain_Nil cmd_typed_match [OF assms(1,3)])

text \<open>A program with two value types, one with a naming method, used in the witnesses.\<close>

definition demo_types :: "gotype gotypes" where
  "demo_types =
     \<lparr>typeOf = (\<lambda>v. case v of TInterface i \<Rightarrow> TUnnamed 0 | _ \<Rightarrow> v),
      nameMethod = (\<lambda>t. if t = TNamed ''PlaceOrder'' then Some (\<lambda>_. ''order.place'') else None),
      zeroOf = (\<lambda>t. t), newOf = (\<lambda>t. TPointer t), implements = (\<lambda>_ _. True)\<rparr>"

lemma wf_demo_types: "wf_gotypes demo_types"
  by (auto simp: wf_gotypes_def demo_types_def split: gotype.split)

lemma stable_demo_types: "stable_name demo_types t"
  by (auto simp: stable_name_def demo_types_def)

lemma demo_typeOf: "typeOf demo_types (TNamed n) = TNamed n"
  by (simp add: demo_types_def)

theorem cmd_register_dispatch_witness:
  "cmd_Dispatch demo_types
     (cmd_Register demo_types (TNamed ''PlaceOrder'') (\<lambda>ctx v w. (7 :: nat, None, Suc w)) (cmd_NewInMemoryBus []))
     () (Some (TNamed ''PlaceOrder'')) 0 = (Some 7, None, 1)"
  using cmd_register_dispatch [OF wf_demo_types stable_demo_types demo_typeOf [of "''PlaceOrder''"],
      of "\<lambda>ctx v w. (7 :: nat, None, Suc w)" "cmd_NewInMemoryBus []" "()" 0, THEN conjunct2]
  by (simp add: cmd_NewInMemoryBus_def)

text \<open>
  C26. The whole wiring of a command bus: after any list of registrations on a fresh bus, a
  command runs the dispatcher registered last under its name, wrapped by the bus
  middlewares with the first one outermost; with no registration under its name it gets
  \<^verbatim>\<open>ErrHandlerNotFound\<close> and no handler runs.
\<close>

theorem cmd_bus_routes:
  "cmd_Dispatch ty (fold (\<lambda>(n, f). cmd_RegisterHandler n f) rs (cmd_NewInMemoryBus mws)) ctx cmd w =
     (case map_of (rev rs) (cmd_NameOf ty cmd) of
        Some f \<Rightarrow> foldr (\<lambda>m g. m g) mws f ctx cmd w
      | None \<Rightarrow> (None, Some cmd_ErrHandlerNotFound, w))"
  by (subst cmdbus.dispatch_wiring)
    (simp add: cmd_Apply_def cmd_NewInMemoryBus_def cmdc.chain_foldr cmd_Dispatch_def split: option.split)

text \<open>
  C29. The buses are type safe: whatever is registered and dispatched, also when names collide, when
  middlewares replace the command, or when the command is nil, the handler registered for a type
  only ever sees values of that type. Replacing each handler by one that behaves in any other way
  on values outside its type changes no dispatch.
\<close>

theorem cmd_bus_type_safe:
  "cmd_Dispatch ty (fold (\<lambda>(t, h). cmd_Register ty t (on_type ty t h (bad t))) regs (cmd_NewInMemoryBus mws)) ctx cmd w =
   cmd_Dispatch ty (fold (\<lambda>(t, h). cmd_Register ty t h) regs (cmd_NewInMemoryBus mws)) ctx cmd w"
proof -
  have "(\<lambda>(t, h). cmd_Register ty t (on_type ty t h (bad t))) = (\<lambda>(t, h). cmd_Register ty t h)"
    by (simp add: fun_eq_iff cmd_Register_def cmd_typed_on_type)
  then show ?thesis by simp
qed

text \<open>
  A value and a pointer to it share the routing name unless one of them declares its own:
  dispatching a pointer to a type registered by value is reported as \<^verbatim>\<open>ErrCommandMismatch\<close>, not
  as a missing handler, and the handler does not run.
\<close>

lemma cmd_pointer_mismatch:
  assumes "wf_gotypes ty" "typeOf ty v = TPointer (TNamed n)"
    and "nameMethod ty (TNamed n) = None" "nameMethod ty (TPointer (TNamed n)) = None"
    and "cmd_middlewares b = []"
  shows "cmd_Dispatch ty (cmd_Register ty (TNamed n) h b) ctx (Some v) w = (None, Some ErrCommandMismatch, w)"
proof -
  have "cmd_NameOf ty (Some v) = cmd_nameOfType ty (TNamed n)"
    using assms(1-4) by (simp add: cmd_NameOf_def cmd_nameOfType_def cmd_probe_def wf_gotypes_def)
  moreover have "type_assert ty (TNamed n) (Some v) = None"
    using assms(2) by (simp add: type_assert_def)
  ultimately show ?thesis
    using assms(5) by (simp add: cmd_Register_def cmdbus.dispatch_hit cmd_Apply_def cmdc.chain_Nil cmd_typed_def)
qed

end
