(* ===== verification/Query_Bus.thy ===== *)
theory Query_Bus
  imports Middleware
begin

text \<open>
  \<^verbatim>\<open>application/query\<close>: the read side bus, which mirrors the command bus. A dispatcher receives the
  context, the query (\<^term>\<open>None\<close> is a nil interface) and the state of the world its handler
  works on; it returns the result (\<^term>\<open>None\<close> is nil), the error and the new world.
  \<^verbatim>\<open>InMemoryBus\<close> guards its map with a lock, so each operation is one atomic step.
\<close>

section \<open>errors.go\<close>

definition qry_ErrHandlerNotFound :: goerr where
  "qry_ErrHandlerNotFound = Sentinel ''query: handler not found''"
definition ErrQueryMismatch :: goerr where
  "ErrQueryMismatch = Sentinel ''query: query type mismatch''"

section \<open>query.go\<close>

type_synonym ('c, 'v, 'w, 'r) qry_handler = "'c \<Rightarrow> 'v \<Rightarrow> 'w \<Rightarrow> 'r \<times> goerr option \<times> 'w"
type_synonym ('c, 'v, 'w, 'r) qry_dispatcher = "'c \<Rightarrow> 'v option \<Rightarrow> 'w \<Rightarrow> 'r option \<times> goerr option \<times> 'w"

text \<open>\<^verbatim>\<open>QueryName()\<close> of the dynamic type when it is declared, otherwise the name of the type.\<close>

definition qry_NameOf :: "'v gotypes \<Rightarrow> 'v option \<Rightarrow> string" where
  "qry_NameOf ty q =
     (case q of
        None \<Rightarrow> []
      | Some v \<Rightarrow>
          (let s = (case nameMethod ty (typeOf ty v) of Some f \<Rightarrow> f v | None \<Rightarrow> [])
           in if s \<noteq> [] then s else type_Name (strip_pointers (typeOf ty v))))"

text \<open>The probe: a fresh pointer for pointer types, else the zero value (nil for an interface).\<close>

definition qry_probe :: "'v gotypes \<Rightarrow> gotype \<Rightarrow> 'v option" where
  "qry_probe ty t =
     (case t of
        TPointer t' \<Rightarrow> Some (newOf ty t')
      | TInterface _ \<Rightarrow> None
      | _ \<Rightarrow> Some (zeroOf ty t))"

definition qry_nameOfType :: "'v gotypes \<Rightarrow> gotype \<Rightarrow> string" where
  "qry_nameOfType ty t =
     (let s = (case qry_probe ty t of
                 None \<Rightarrow> []
               | Some v \<Rightarrow> (case nameMethod ty (typeOf ty v) of Some f \<Rightarrow> f v | None \<Rightarrow> []))
      in if s \<noteq> [] then s else type_Name (strip_pointers t))"

section \<open>middleware.go\<close>

definition qry_Chain :: "(('c, 'v, 'w, 'r) qry_dispatcher \<Rightarrow> ('c, 'v, 'w, 'r) qry_dispatcher) list
    \<Rightarrow> ('c, 'v, 'w, 'r) qry_dispatcher \<Rightarrow> ('c, 'v, 'w, 'r) qry_dispatcher" where
  "qry_Chain mws next' = for_down (length mws) (\<lambda>i next'. (mws ! i) next') next'"

definition qry_Apply :: "('c, 'v, 'w, 'r) qry_dispatcher
    \<Rightarrow> (('c, 'v, 'w, 'r) qry_dispatcher \<Rightarrow> ('c, 'v, 'w, 'r) qry_dispatcher) list \<Rightarrow> ('c, 'v, 'w, 'r) qry_dispatcher" where
  "qry_Apply fn mws = qry_Chain mws fn"

section \<open>inmem.go\<close>

record ('c, 'v, 'w, 'r) qry_InMemoryBus =
  qry_handlers :: "string \<Rightarrow> ('c, 'v, 'w, 'r) qry_dispatcher option"
  qry_middlewares :: "(('c, 'v, 'w, 'r) qry_dispatcher \<Rightarrow> ('c, 'v, 'w, 'r) qry_dispatcher) list"

definition qry_NewInMemoryBus :: "(('c, 'v, 'w, 'r) qry_dispatcher \<Rightarrow> ('c, 'v, 'w, 'r) qry_dispatcher) list
    \<Rightarrow> ('c, 'v, 'w, 'r) qry_InMemoryBus" where
  "qry_NewInMemoryBus mws = \<lparr>qry_handlers = Map.empty, qry_middlewares = mws\<rparr>"

definition qry_RegisterHandler :: "string \<Rightarrow> ('c, 'v, 'w, 'r) qry_dispatcher
    \<Rightarrow> ('c, 'v, 'w, 'r) qry_InMemoryBus \<Rightarrow> ('c, 'v, 'w, 'r) qry_InMemoryBus" where
  "qry_RegisterHandler name fn b =
     b\<lparr>qry_handlers := (qry_handlers b)(name \<mapsto> qry_Apply fn (qry_middlewares b))\<rparr>"

definition qry_Dispatch :: "'v gotypes \<Rightarrow> ('c, 'v, 'w, 'r) qry_InMemoryBus \<Rightarrow> ('c, 'v, 'w, 'r) qry_dispatcher" where
  "qry_Dispatch ty b ctx q w =
     (case qry_handlers b (qry_NameOf ty q) of
        None \<Rightarrow> (None, Some qry_ErrHandlerNotFound, w)
      | Some fn \<Rightarrow> fn ctx q w)"

text \<open>The dispatcher that \<^verbatim>\<open>Register\<close> builds around a typed handler, and \<^verbatim>\<open>Register\<close> itself.\<close>

definition qry_typed :: "'v gotypes \<Rightarrow> gotype \<Rightarrow> ('c, 'v, 'w, 'r) qry_handler \<Rightarrow> ('c, 'v, 'w, 'r) qry_dispatcher" where
  "qry_typed ty t h ctx q w =
     (case type_assert ty t q of
        None \<Rightarrow> (None, Some ErrQueryMismatch, w)
      | Some typed \<Rightarrow> (let (r, err, w') = h ctx typed w in (Some r, err, w')))"

definition qry_Register :: "'v gotypes \<Rightarrow> gotype \<Rightarrow> ('c, 'v, 'w, 'r) qry_handler
    \<Rightarrow> ('c, 'v, 'w, 'r) qry_InMemoryBus \<Rightarrow> ('c, 'v, 'w, 'r) qry_InMemoryBus" where
  "qry_Register ty t h b = qry_RegisterHandler (qry_nameOfType ty t) (qry_typed ty t h) b"

section \<open>The contracts hold\<close>

interpretation qryc: middleware_chain qry_Chain
  by unfold_locales (simp_all add: qry_Chain_def for_down_Cons del: for_down.simps(2))

interpretation qrybus: message_bus qry_RegisterHandler "qry_Dispatch ty" "qry_NameOf ty"
    "\<lambda>b f. qry_Apply f (qry_middlewares b)" for ty :: "'v gotypes"
  by unfold_locales (simp_all add: qry_RegisterHandler_def qry_Dispatch_def)

lemma qry_names_symmetric:
  assumes "wf_gotypes ty" "stable_name ty t" "typeOf ty v = t"
  shows "qry_NameOf ty (Some v) = qry_nameOfType ty t"
proof -
  have notI: "t \<noteq> TInterface i" for i
    using assms(1,3) by (auto simp: wf_gotypes_def)
  then obtain u where u: "qry_probe ty t = Some u" "typeOf ty u = t"
    using assms(1) by (cases t) (auto simp: qry_probe_def wf_gotypes_def)
  have "f v = f u" if "nameMethod ty t = Some f" for f
    using assms(2,3) u(2) that unfolding stable_name_def by blast
  then have "(case nameMethod ty t of Some f \<Rightarrow> f v | None \<Rightarrow> []) =
             (case nameMethod ty t of Some f \<Rightarrow> f u | None \<Rightarrow> [])"
    by (simp split: option.split)
  with u assms(3) show ?thesis by (simp add: qry_NameOf_def qry_nameOfType_def Let_def)
qed

text \<open>
  The query bus routes as the command bus does: after any wiring the last dispatcher
  registered under the name of the query runs, wrapped by the middlewares with the first
  one outermost, and an unregistered name yields \<^verbatim>\<open>ErrHandlerNotFound\<close>.
\<close>

theorem qry_bus_routes:
  "qry_Dispatch ty (fold (\<lambda>(n, f). qry_RegisterHandler n f) rs (qry_NewInMemoryBus mws)) ctx q w =
     (case map_of (rev rs) (qry_NameOf ty q) of
        Some f \<Rightarrow> foldr (\<lambda>m g. m g) mws f ctx q w
      | None \<Rightarrow> (None, Some qry_ErrHandlerNotFound, w))"
  by (subst qrybus.dispatch_wiring)
    (simp add: qry_Apply_def qry_NewInMemoryBus_def qryc.chain_foldr qry_Dispatch_def split: option.split)

lemma qry_register_dispatch:
  assumes "wf_gotypes ty" "stable_name ty t" "typeOf ty v = t" "qry_middlewares b = []"
  shows "qry_Dispatch ty (qry_Register ty t h b) ctx (Some v) w = (let (r, err, w') = h ctx v w in (Some r, err, w'))"
proof -
  have "t \<noteq> TInterface i" for i
    using assms(1,3) by (auto simp: wf_gotypes_def)
  then have "type_assert ty t (Some v) = Some v"
    using assms(3) by (auto simp: type_assert_def split: gotype.splits)
  moreover have "qry_NameOf ty (Some v) = qry_nameOfType ty t"
    using assms(1-3) by (rule qry_names_symmetric)
  ultimately show ?thesis
    using assms(4) by (simp add: qry_Register_def qrybus.dispatch_hit qry_Apply_def qryc.chain_Nil qry_typed_def)
qed

end
