(* ===== verification/Order_App.thy ===== *)
theory Order_App
  imports Order Command_Bus Query_Bus
begin

text \<open>
  The example service around the order aggregate: \<^verbatim>\<open>infra/memrepo\<close>, the two use cases of
  \<^verbatim>\<open>application/order\<close> and the routes of \<^verbatim>\<open>cmd/main.go\<close>, with both buses in between.

  Orders are shared by pointer: the repository maps an id to the address of an order, and the
  handler goes on mutating the object it saved. \<open>shop\<close> is the memory of the process: item
  slices, order objects, the store of the repository, the state of the id generator and of
  the broker behind the publisher, and the clock. The id generator and the publisher are
  interfaces that other packages implement, so they are parameters.

  The locale \<open>repository\<close> is the contract of \<^verbatim>\<open>domain.Repository\<close>.
\<close>

section \<open>domain.Repository and infra/memrepo\<close>

locale repository =
  fixes FindByID :: "'id \<Rightarrow> 'r \<Rightarrow> goerr + 'a"
    and Save :: "'a \<Rightarrow> 'r \<Rightarrow> goerr option \<times> 'r"
    and Delete :: "'id \<Rightarrow> 'r \<Rightarrow> goerr option \<times> 'r"
    and key :: "'a \<Rightarrow> 'id"
  assumes save_ok: "fst (Save a r) = None"
    and delete_ok: "fst (Delete i r) = None"
    and find_save: "FindByID i (snd (Save a r)) = (if i = key a then Inr a else FindByID i r)"
    and find_delete: "FindByID j (snd (Delete i r)) = (if j = i then Inl ErrNotFound else FindByID j r)"
begin

text \<open>Saving is idempotent for readers, and a saved aggregate is found until it is deleted.\<close>

lemma save_twice: "FindByID i (snd (Save a (snd (Save a r)))) = FindByID i (snd (Save a r))"
  by (simp add: find_save)

lemma save_then_delete: "FindByID i (snd (Delete (key a) (snd (Save a r)))) = FindByID i (snd (Delete (key a) r))"
  by (simp add: find_save find_delete)

end

record OrderRepository =
  or_store :: "string \<Rightarrow> nat option"

definition NewOrderRepository :: OrderRepository where
  "NewOrderRepository = \<lparr>or_store = Map.empty\<rparr>"

definition OrderRepository_FindByID :: "string \<Rightarrow> OrderRepository \<Rightarrow> goerr + nat" where
  "OrderRepository_FindByID i r = (case or_store r i of None \<Rightarrow> Inl ErrNotFound | Some p \<Rightarrow> Inr p)"

text \<open>\<open>orders\<close> gives the object behind a pointer; \<^verbatim>\<open>Save\<close> reads its id.\<close>

definition OrderRepository_Save :: "(nat \<Rightarrow> Order) \<Rightarrow> nat \<Rightarrow> OrderRepository \<Rightarrow> goerr option \<times> OrderRepository" where
  "OrderRepository_Save orders p r = (None, r\<lparr>or_store := (or_store r)(be_id (orders p) \<mapsto> p)\<rparr>)"

definition OrderRepository_Delete :: "string \<Rightarrow> OrderRepository \<Rightarrow> goerr option \<times> OrderRepository" where
  "OrderRepository_Delete i r = (None, r\<lparr>or_store := (or_store r)(i := None)\<rparr>)"

interpretation memrepo: repository OrderRepository_FindByID "OrderRepository_Save orders" OrderRepository_Delete
    "\<lambda>p. be_id (orders p)" for orders
  by unfold_locales
    (simp_all add: OrderRepository_FindByID_def OrderRepository_Save_def OrderRepository_Delete_def)

section \<open>The memory of the process\<close>

record ('g, 'p) shop =
  sh_slices :: slices
  sh_orders :: "nat \<Rightarrow> Order"
  sh_nextOrder :: nat
  sh_repo :: OrderRepository
  sh_gen :: 'g
  sh_broker :: 'p
  sh_now :: int

definition shop_wf :: "('g, 'p) shop \<Rightarrow> bool" where
  "shop_wf w \<longleftrightarrow> (\<forall>i p. or_store (sh_repo w) i = Some p \<longrightarrow> p < sh_nextOrder w \<and> be_id (sh_orders w p) = i)"

text \<open>What the repository holds, seen through its pointers.\<close>

definition stored :: "('g, 'p) shop \<Rightarrow> string \<Rightarrow> Order option" where
  "stored w i = map_option (sh_orders w) (or_store (sh_repo w) i)"

section \<open>application/order\<close>

record PlaceOrderCommand =
  po_OrderID :: string
  po_CustomerID :: string
  po_Items :: "nat option"

record PlaceOrderResult =
  pr_OrderID :: string
  pr_TotalCents :: i64

definition no_result :: PlaceOrderResult where
  "no_result = \<lparr>pr_OrderID = [], pr_TotalCents = 0\<rparr>"

record ('c, 'g, 'p) PlaceOrderHandler =
  ph_publisher :: "('c \<Rightarrow> string \<Rightarrow> OrderPlaced list \<Rightarrow> 'p \<Rightarrow> goerr option \<times> 'p) option"
  ph_topic :: string
  ph_ids :: "'g \<Rightarrow> string \<times> 'g"

definition NewPlaceOrderHandler :: "('c \<Rightarrow> string \<Rightarrow> OrderPlaced list \<Rightarrow> 'p \<Rightarrow> goerr option \<times> 'p) option
    \<Rightarrow> string \<Rightarrow> ('g \<Rightarrow> string \<times> 'g) \<Rightarrow> ('c, 'g, 'p) PlaceOrderHandler" where
  "NewPlaceOrderHandler publisher topic ids = \<lparr>ph_publisher = publisher, ph_topic = topic, ph_ids = ids\<rparr>"

definition PlaceOrder_Handle :: "('c, 'g, 'p) PlaceOrderHandler \<Rightarrow> 'c \<Rightarrow> PlaceOrderCommand \<Rightarrow> ('g, 'p) shop
    \<Rightarrow> PlaceOrderResult \<times> goerr option \<times> ('g, 'p) shop" where
  "PlaceOrder_Handle h ctx cmd w =
     (let p = sh_nextOrder w;
          w = w\<lparr>sh_orders := (sh_orders w)(p := Order_New (po_OrderID cmd) (po_CustomerID cmd)), sh_nextOrder := Suc p\<rparr>;
          (eid, g) = ph_ids h (sh_gen w);
          w = w\<lparr>sh_gen := g\<rparr>;
          (err, o1) = Place (sh_slices w) (sh_now w) (po_Items cmd) eid (sh_orders w p);
          w = w\<lparr>sh_orders := (sh_orders w)(p := o1)\<rparr>
      in case err of
           Some e \<Rightarrow> (no_result, Some e, w)
         | None \<Rightarrow>
             (let (err, r) = OrderRepository_Save (sh_orders w) p (sh_repo w);
                  w = w\<lparr>sh_repo := r\<rparr>
              in case err of
                   Some e \<Rightarrow> (no_result, Some e, w)
                 | None \<Rightarrow>
                     (let (err, w) =
                        (case ph_publisher h of
                           None \<Rightarrow> (None, w)
                         | Some pub \<Rightarrow>
                             (let (err, b) = pub ctx (ph_topic h) (DomainEvents (sh_orders w p)) (sh_broker w)
                              in (err, w\<lparr>sh_broker := b\<rparr>)))
                      in case err of
                           Some e \<Rightarrow> (no_result, Some e, w)
                         | None \<Rightarrow>
                             (let w = w\<lparr>sh_orders := (sh_orders w)(p := ClearEvents (sh_orders w p))\<rparr>
                              in (\<lparr>pr_OrderID = po_OrderID cmd, pr_TotalCents = od_totalCents (sh_orders w p)\<rparr>, None, w)))))"

record OrderView =
  ov_OrderID :: string
  ov_CustomerID :: string
  ov_Status :: string
  ov_TotalCents :: i64
  ov_Version :: i64

definition no_view :: OrderView where
  "no_view = \<lparr>ov_OrderID = [], ov_CustomerID = [], ov_Status = [], ov_TotalCents = 0, ov_Version = 0\<rparr>"

text \<open>The projection of an order into the read side DTO.\<close>

definition view_of :: "Order \<Rightarrow> OrderView" where
  "view_of o' = \<lparr>ov_OrderID = be_id o', ov_CustomerID = od_customerID o', ov_Status = od_status o',
     ov_TotalCents = od_totalCents o', ov_Version = ba_version o'\<rparr>"

definition GetOrder_Handle :: "'c \<Rightarrow> string \<Rightarrow> ('g, 'p) shop \<Rightarrow> OrderView \<times> goerr option \<times> ('g, 'p) shop" where
  "GetOrder_Handle ctx orderID w =
     (case OrderRepository_FindByID orderID (sh_repo w) of
        Inl e \<Rightarrow> (no_view, Some e, w)
      | Inr p \<Rightarrow> (view_of (sh_orders w p), None, w))"

section \<open>cmd/main.go: wiring\<close>

text \<open>The message values that go through the buses, and the reflection data of their types.\<close>

datatype msg = MPlaceOrder PlaceOrderCommand | MGetOrder string | MOther gotype

definition tPlaceOrder :: gotype where "tPlaceOrder = TNamed ''PlaceOrderCommand''"
definition tGetOrder :: gotype where "tGetOrder = TNamed ''GetOrderQuery''"

fun msg_type :: "msg \<Rightarrow> gotype" where
  "msg_type (MPlaceOrder _) = tPlaceOrder"
| "msg_type (MGetOrder _) = tGetOrder"
| "msg_type (MOther t) =
     (case t of TInterface _ \<Rightarrow> TUnnamed 0 | _ \<Rightarrow> if t = tPlaceOrder \<or> t = tGetOrder then TUnnamed 0 else t)"

definition main_types :: "msg gotypes" where
  "main_types =
     \<lparr>typeOf = msg_type,
      nameMethod = (\<lambda>t. if t = tPlaceOrder \<or> t = TPointer tPlaceOrder then Some (\<lambda>_. ''order.place'')
                        else if t = tGetOrder \<or> t = TPointer tGetOrder then Some (\<lambda>_. ''order.get'') else None),
      zeroOf = (\<lambda>t. if t = tPlaceOrder then MPlaceOrder \<lparr>po_OrderID = [], po_CustomerID = [], po_Items = None\<rparr>
                    else if t = tGetOrder then MGetOrder [] else MOther t),
      newOf = (\<lambda>t. MOther (TPointer t)),
      implements = (\<lambda>_ _. False)\<rparr>"

definition main_cmdBus :: "('c, 'g, 'p) PlaceOrderHandler
    \<Rightarrow> ('c, msg, ('g, 'p) shop, PlaceOrderResult) cmd_InMemoryBus" where
  "main_cmdBus h =
     cmd_Register main_types tPlaceOrder
       (\<lambda>ctx v w. case v of MPlaceOrder c \<Rightarrow> PlaceOrder_Handle h ctx c w | _ \<Rightarrow> (no_result, None, w))
       (cmd_NewInMemoryBus [])"

definition main_qryBus :: "('c, msg, ('g, 'p) shop, OrderView) qry_InMemoryBus" where
  "main_qryBus =
     qry_Register main_types tGetOrder
       (\<lambda>ctx v w. case v of MGetOrder i \<Rightarrow> GetOrder_Handle ctx i w | _ \<Rightarrow> (no_view, None, w))
       (qry_NewInMemoryBus [])"

section \<open>cmd/main.go: routes\<close>

datatype payload = PNull | PText string | PResult PlaceOrderResult | PView OrderView

definition new_writer :: "payload ResponseWriter" where
  "new_writer = \<lparr>rw_header = Map.empty, rw_status = None, rw_body = []\<rparr>"

text \<open>\<^verbatim>\<open>http.Error\<close> of the standard library.\<close>

definition http_Error :: "payload ResponseWriter \<Rightarrow> string \<Rightarrow> int \<Rightarrow> payload ResponseWriter" where
  "http_Error rw m code =
     (let rw = rw\<lparr>rw_header := (rw_header rw)(''Content-Length'' := None,
                     ''Content-Type'' \<mapsto> ''text/plain; charset=utf-8'', ''X-Content-Type-Options'' \<mapsto> ''nosniff'')\<rparr>;
          rw = rw_WriteHeader code rw
      in rw\<lparr>rw_body := rw_body rw @ [PText m]\<rparr>)"

definition writeJSON :: "payload ResponseWriter \<Rightarrow> int \<Rightarrow> payload \<Rightarrow> payload ResponseWriter" where
  "writeJSON rw status body =
     (let rw = rw\<lparr>rw_header := (rw_header rw)(''Content-Type'' \<mapsto> ''application/json'')\<rparr>;
          rw = rw_WriteHeader status rw
      in rw\<lparr>rw_body := rw_body rw @ [body]\<rparr>)"

text \<open>
  The decoder of the request body yields the three fields or an error; a decoded item array
  is a fresh slice.
\<close>

definition decode_items :: "Item list option \<Rightarrow> ('g, 'p) shop \<Rightarrow> nat option \<times> ('g, 'p) shop" where
  "decode_items its w =
     (case its of None \<Rightarrow> (None, w)
      | Some xs \<Rightarrow> (let (a, sl) = sl_alloc xs (sh_slices w) in (Some a, w\<lparr>sh_slices := sl\<rparr>)))"

definition post_orders :: "('b \<Rightarrow> goerr + string \<times> string \<times> Item list option) \<Rightarrow> ('c, 'g, 'p) PlaceOrderHandler
    \<Rightarrow> 'c \<Rightarrow> 'b \<Rightarrow> payload ResponseWriter \<Rightarrow> ('g, 'p) shop \<Rightarrow> payload ResponseWriter \<times> ('g, 'p) shop" where
  "post_orders decode h ctx b rw w =
     (case decode b of
        Inl e \<Rightarrow> (http_Error rw (error_text e) 400, w)
      | Inr (oid, cid, its) \<Rightarrow>
          (let (s, w) = decode_items its w;
               (res, err, w) = cmd_Dispatch main_types (main_cmdBus h) ctx
                  (Some (MPlaceOrder \<lparr>po_OrderID = oid, po_CustomerID = cid, po_Items = s\<rparr>)) w
           in case err of
                Some e \<Rightarrow> (http_Error rw (error_text e) 400, w)
              | None \<Rightarrow> (writeJSON rw 201 (case res of None \<Rightarrow> PNull | Some r \<Rightarrow> PResult r), w)))"

definition get_order :: "'c \<Rightarrow> string \<Rightarrow> payload ResponseWriter \<Rightarrow> ('g, 'p) shop
    \<Rightarrow> payload ResponseWriter \<times> ('g, 'p) shop" where
  "get_order ctx pathid rw w =
     (let (res, err, w) = qry_Dispatch main_types main_qryBus ctx (Some (MGetOrder pathid)) w
      in case err of
           Some e \<Rightarrow> (http_Error rw (error_text e) 404, w)
         | None \<Rightarrow> (writeJSON rw 200 (case res of None \<Rightarrow> PNull | Some v \<Rightarrow> PView v), w))"

section \<open>Facts\<close>

lemma msg_type_not_interface: "msg_type v \<noteq> TInterface i"
  by (cases v) (auto simp: tPlaceOrder_def tGetOrder_def split: gotype.split)

lemma main_types_wf: "wf_gotypes main_types"
  by (simp add: wf_gotypes_def main_types_def msg_type_not_interface)
    (auto simp: tPlaceOrder_def tGetOrder_def split: gotype.split)

lemma main_types_stable: "stable_name main_types t"
  by (auto simp: stable_name_def main_types_def)

lemma main_typeOf [simp]:
  "typeOf main_types (MPlaceOrder c) = tPlaceOrder" "typeOf main_types (MGetOrder i) = tGetOrder"
  by (simp_all add: main_types_def)

lemma dispatch_PlaceOrder:
  "cmd_Dispatch main_types (main_cmdBus h) ctx (Some (MPlaceOrder c)) w =
     (let (r, err, w') = PlaceOrder_Handle h ctx c w in (Some r, err, w'))"
  unfolding main_cmdBus_def
  by (simp add: cmd_reaches_typed main_types_wf main_types_stable cmd_typed_match cmd_NewInMemoryBus_def cmdc.chain_Nil)

lemma dispatch_GetOrder:
  "qry_Dispatch main_types main_qryBus ctx (Some (MGetOrder i)) w =
     (let (r, err, w') = GetOrder_Handle ctx i w in (Some r, err, w'))"
  unfolding main_qryBus_def
  by (simp add: qry_register_dispatch main_types_wf main_types_stable qry_NewInMemoryBus_def)

lemma get_order_eq:
  "get_order ctx i rw w =
     (case stored w i of
        None \<Rightarrow> (http_Error rw (error_text ErrNotFound) 404, w)
      | Some o' \<Rightarrow> (writeJSON rw 200 (PView (view_of o')), w))"
  by (simp add: get_order_def dispatch_GetOrder GetOrder_Handle_def OrderRepository_FindByID_def stored_def
      split: option.split)

lemma get_order_response:
  "fst (get_order ctx i rw w) =
     (case stored w i of
        None \<Rightarrow> http_Error rw (error_text ErrNotFound) 404
      | Some o' \<Rightarrow> writeJSON rw 200 (PView (view_of o')))"
  by (simp add: get_order_eq split: option.split)

section \<open>The place order use case\<close>

definition publish_result :: "('c, 'g, 'p) PlaceOrderHandler \<Rightarrow> 'c \<Rightarrow> OrderPlaced list \<Rightarrow> ('g, 'p) shop
    \<Rightarrow> goerr option \<times> 'p" where
  "publish_result h ctx evs w =
     (case ph_publisher h of None \<Rightarrow> (None, sh_broker w) | Some pub \<Rightarrow> pub ctx (ph_topic h) evs (sh_broker w))"

definition drafted :: "PlaceOrderCommand \<Rightarrow> Order" where
  "drafted cmd = Order_New (po_OrderID cmd) (po_CustomerID cmd)"

definition orderable :: "('g, 'p) shop \<Rightarrow> PlaceOrderCommand \<Rightarrow> bool" where
  "orderable w cmd = placeable (sh_slices w) (po_Items cmd) (drafted cmd)"

lemma stored_fresh:
  assumes "shop_wf w" "sh_repo w' = sh_repo w" "sh_orders w' = (sh_orders w)(sh_nextOrder w := o')"
  shows "stored w' = stored w"
proof
  fix i
  show "stored w' i = stored w i"
    using assms by (cases "or_store (sh_repo w) i") (auto simp: stored_def shop_wf_def)
qed

lemma stored_saved:
  assumes "shop_wf w" "or_store (sh_repo w') = (or_store (sh_repo w))(i \<mapsto> sh_nextOrder w)"
    "sh_orders w' = (sh_orders w)(sh_nextOrder w := o')"
  shows "stored w' = (stored w)(i \<mapsto> o')"
proof
  fix j
  show "stored w' j = ((stored w)(i \<mapsto> o')) j"
    using assms by (cases "or_store (sh_repo w) j") (auto simp: stored_def shop_wf_def)
qed

text \<open>The handler as one equation per outcome.\<close>

lemma Handle_refused:
  assumes "\<not> orderable w cmd"
  shows "\<exists>e w'. PlaceOrder_Handle h ctx cmd w = (no_result, Some e, w') \<and> errors_Is (Some e) ErrRuleViolation \<and>
    sh_repo w' = sh_repo w \<and> sh_orders w' = (sh_orders w)(sh_nextOrder w := drafted cmd) \<and>
    sh_nextOrder w' = Suc (sh_nextOrder w) \<and> sh_broker w' = sh_broker w"
proof -
  obtain eid g where g: "ph_ids h (sh_gen w) = (eid, g)" by (cases "ph_ids h (sh_gen w)")
  obtain e where "Place (sh_slices w) (sh_now w) (po_Items cmd) eid (drafted cmd) = (Some e, drafted cmd)"
    "errors_Is (Some e) ErrRuleViolation"
    using Place_fails assms unfolding orderable_def by blast
  with g show ?thesis by (auto simp: PlaceOrder_Handle_def Let_def drafted_def)
qed

lemma Handle_placed:
  assumes "orderable w cmd"
  shows "\<exists>o1 w'. placed_by (drafted cmd) (word_of_int (order_sum (sl_read (sh_slices w) (po_Items cmd)))) (po_Items cmd) o1 \<and>
    or_store (sh_repo w') = (or_store (sh_repo w))(po_OrderID cmd \<mapsto> sh_nextOrder w) \<and>
    sh_nextOrder w' = Suc (sh_nextOrder w) \<and>
    (case publish_result h ctx (ba_events o1) w of
       (None, b) \<Rightarrow> PlaceOrder_Handle h ctx cmd w =
           (\<lparr>pr_OrderID = po_OrderID cmd, pr_TotalCents = od_totalCents o1\<rparr>, None, w') \<and>
         sh_orders w' = (sh_orders w)(sh_nextOrder w := ClearEvents o1) \<and> sh_broker w' = b
     | (Some e, b) \<Rightarrow> PlaceOrder_Handle h ctx cmd w = (no_result, Some e, w') \<and>
         sh_orders w' = (sh_orders w)(sh_nextOrder w := o1) \<and> sh_broker w' = b)"
proof -
  obtain eid g where g: "ph_ids h (sh_gen w) = (eid, g)" by (cases "ph_ids h (sh_gen w)")
  obtain o1 where o1: "Place (sh_slices w) (sh_now w) (po_Items cmd) eid (drafted cmd) = (None, o1)"
    "placed_by (drafted cmd) (word_of_int (order_sum (sl_read (sh_slices w) (po_Items cmd)))) (po_Items cmd) o1"
    using Place_ok assms unfolding orderable_def by blast
  then have "be_id o1 = po_OrderID cmd" by (simp add: placed_by_def drafted_def)
  with g o1 show ?thesis
    by (intro exI [of _ o1] exI [of _ "snd (snd (PlaceOrder_Handle h ctx cmd w))"])
      (auto simp: PlaceOrder_Handle_def Let_def drafted_def [symmetric] OrderRepository_Save_def
        publish_result_def DomainEvents_def split: prod.split option.split)
qed

lemma Handle_spec:
  assumes "shop_wf w" "PlaceOrder_Handle h ctx cmd w = (res, err, w')"
  shows "shop_wf w' \<and>
    (if orderable w cmd then
       \<exists>o1. placed_by (drafted cmd) (word_of_int (order_sum (sl_read (sh_slices w) (po_Items cmd)))) (po_Items cmd) o1 \<and>
         (case publish_result h ctx (ba_events o1) w of
            (None, b) \<Rightarrow> err = None \<and> res = \<lparr>pr_OrderID = po_OrderID cmd, pr_TotalCents = od_totalCents o1\<rparr> \<and>
              stored w' = (stored w)(po_OrderID cmd \<mapsto> ClearEvents o1) \<and> sh_broker w' = b
          | (Some e, b) \<Rightarrow> err = Some e \<and> stored w' = (stored w)(po_OrderID cmd \<mapsto> o1) \<and> sh_broker w' = b)
     else stored w' = stored w \<and> sh_broker w' = sh_broker w \<and> errors_Is err ErrRuleViolation)"
proof (cases "orderable w cmd")
  case True
  obtain o1 where o1: "placed_by (drafted cmd) (word_of_int (order_sum (sl_read (sh_slices w) (po_Items cmd)))) (po_Items cmd) o1"
    and w': "or_store (sh_repo w') = (or_store (sh_repo w))(po_OrderID cmd \<mapsto> sh_nextOrder w)"
      "sh_nextOrder w' = Suc (sh_nextOrder w)"
    and out: "case publish_result h ctx (ba_events o1) w of
       (None, b) \<Rightarrow> res = \<lparr>pr_OrderID = po_OrderID cmd, pr_TotalCents = od_totalCents o1\<rparr> \<and> err = None \<and>
         sh_orders w' = (sh_orders w)(sh_nextOrder w := ClearEvents o1) \<and> sh_broker w' = b
     | (Some e, b) \<Rightarrow> err = Some e \<and> sh_orders w' = (sh_orders w)(sh_nextOrder w := o1) \<and> sh_broker w' = b"
    using Handle_placed [OF True, of h ctx] assms(2) by (fastforce split: prod.splits option.splits)
  have i: "be_id o1 = po_OrderID cmd" using o1 by (simp add: placed_by_def drafted_def)
  obtain r b where rb: "publish_result h ctx (ba_events o1) w = (r, b)" by (cases "publish_result h ctx (ba_events o1) w")
  define o2 where "o2 = (if r = None then ClearEvents o1 else o1)"
  have o2: "sh_orders w' = (sh_orders w)(sh_nextOrder w := o2)" "be_id o2 = po_OrderID cmd"
    using out rb i by (auto simp: o2_def split: option.splits)
  have "shop_wf w'" using assms(1) w' o2 by (auto simp: shop_wf_def less_Suc_eq)
  moreover have "stored w' = (stored w)(po_OrderID cmd \<mapsto> o2)"
    by (rule stored_saved [OF assms(1) w'(1) o2(1)])
  ultimately show ?thesis using True o1 out rb by (auto simp: o2_def split: option.splits)
next
  case False
  with Handle_refused [OF False, of h ctx] assms(2) obtain e where
    e: "err = Some e" "errors_Is (Some e) ErrRuleViolation" and
    w': "sh_repo w' = sh_repo w" "sh_orders w' = (sh_orders w)(sh_nextOrder w := drafted cmd)"
      "sh_nextOrder w' = Suc (sh_nextOrder w)" "sh_broker w' = sh_broker w"
    by auto
  have "shop_wf w'" using assms(1) w' by (auto simp: shop_wf_def less_Suc_eq)
  with False e w' stored_fresh [OF assms(1) w'(1,2)] show ?thesis by simp
qed

text \<open>
  Save and publish are two separate writes: when the broker refuses the events, the caller
  gets that error, yet the order is stored as placed, with its \<^verbatim>\<open>OrderPlaced\<close> event still
  pending on the stored aggregate; no other order is touched.
\<close>

theorem place_order_publish_failure:
  assumes "shop_wf w" "orderable w cmd" "ph_publisher h = Some pub"
    and "\<And>evs. fst (pub ctx (ph_topic h) evs (sh_broker w)) = Some e"
    and "PlaceOrder_Handle h ctx cmd w = (res, err, w')"
  shows "err = Some e \<and>
    (\<exists>o1. stored w' = (stored w)(po_OrderID cmd \<mapsto> o1) \<and> od_status o1 = StatusPlaced \<and> ba_version o1 = 1 \<and>
       length (DomainEvents o1) = 1 \<and> map op_TotalCents (DomainEvents o1) = [od_totalCents o1])"
proof -
  obtain o1 where o1: "placed_by (drafted cmd) (word_of_int (order_sum (sl_read (sh_slices w) (po_Items cmd)))) (po_Items cmd) o1"
    and out: "case publish_result h ctx (ba_events o1) w of
            (None, b) \<Rightarrow> err = None \<and> res = \<lparr>pr_OrderID = po_OrderID cmd, pr_TotalCents = od_totalCents o1\<rparr> \<and>
              stored w' = (stored w)(po_OrderID cmd \<mapsto> ClearEvents o1) \<and> sh_broker w' = b
          | (Some e, b) \<Rightarrow> err = Some e \<and> stored w' = (stored w)(po_OrderID cmd \<mapsto> o1) \<and> sh_broker w' = b"
    using Handle_spec [OF assms(1,5)] assms(2) by auto
  have "fst (publish_result h ctx (ba_events o1) w) = Some e"
    using assms(3,4) by (simp add: publish_result_def)
  with out o1 show ?thesis
    by (auto simp: placed_by_def drafted_def DomainEvents_def split: prod.splits)
qed

definition demo_shop :: "(nat, unit) shop" where
  "demo_shop = \<lparr>sh_slices = \<lparr>sl_array = (\<lambda>_. [demo_item 5]), sl_next = 1\<rparr>, sh_orders = (\<lambda>_. Order_New [] []),
     sh_nextOrder = 0, sh_repo = NewOrderRepository, sh_gen = 0, sh_broker = (), sh_now = 0\<rparr>"

definition demo_cmd :: PlaceOrderCommand where
  "demo_cmd = \<lparr>po_OrderID = ''o1'', po_CustomerID = ''c1'', po_Items = Some 0\<rparr>"

definition demo_handler :: "(unit \<Rightarrow> string \<Rightarrow> OrderPlaced list \<Rightarrow> unit \<Rightarrow> goerr option \<times> unit) option
    \<Rightarrow> (unit, nat, unit) PlaceOrderHandler" where
  "demo_handler pub = NewPlaceOrderHandler pub ''order.events'' (\<lambda>n. (''ev'', Suc n))"

lemma demo_shop_ok: "shop_wf demo_shop" "orderable demo_shop demo_cmd"
  by (simp_all add: shop_wf_def demo_shop_def NewOrderRepository_def orderable_def placeable_def drafted_def
      demo_cmd_def sl_read_def demo_item_def)

theorem place_order_publish_failure_witness:
  "fst (snd (PlaceOrder_Handle (demo_handler (Some (\<lambda>_ _ _ _. (Some ErrConcurrencyConflict, ())))) () demo_cmd demo_shop)) =
     Some ErrConcurrencyConflict"
  using place_order_publish_failure [OF demo_shop_ok,
      of "demo_handler (Some (\<lambda>_ _ _ _. (Some ErrConcurrencyConflict, ())))" "\<lambda>_ _ _ _. (Some ErrConcurrencyConflict, ())"
        "()" ErrConcurrencyConflict]
  by (cases "PlaceOrder_Handle (demo_handler (Some (\<lambda>_ _ _ _. (Some ErrConcurrencyConflict, ())))) () demo_cmd demo_shop")
    (simp add: demo_handler_def NewPlaceOrderHandler_def)

text \<open>
  C39. Without a publisher, as in \<^verbatim>\<open>main\<close>, a successful \<^verbatim>\<open>PlaceOrder\<close> leaves no event anywhere: the
  stored aggregate has no pending event and the broker is untouched.
\<close>

theorem place_order_nil_publisher:
  assumes "shop_wf w" "ph_publisher h = None" "PlaceOrder_Handle h ctx cmd w = (res, None, w')"
  shows "\<exists>o1. stored w' (po_OrderID cmd) = Some o1 \<and> od_status o1 = StatusPlaced \<and> DomainEvents o1 = [] \<and>
    sh_broker w' = sh_broker w \<and> res = \<lparr>pr_OrderID = po_OrderID cmd, pr_TotalCents = od_totalCents o1\<rparr>"
proof -
  have "orderable w cmd"
    using Handle_spec [OF assms(1,3)] by (auto split: if_splits)
  with Handle_spec [OF assms(1,3)] assms(2) obtain o1 where
    "placed_by (drafted cmd) (word_of_int (order_sum (sl_read (sh_slices w) (po_Items cmd)))) (po_Items cmd) o1"
    "res = \<lparr>pr_OrderID = po_OrderID cmd, pr_TotalCents = od_totalCents o1\<rparr>"
    "stored w' = (stored w)(po_OrderID cmd \<mapsto> ClearEvents o1)" "sh_broker w' = sh_broker w"
    by (auto simp: publish_result_def)
  then show ?thesis by (simp add: placed_by_def DomainEvents_def)
qed

theorem place_order_nil_publisher_witness:
  "\<exists>o1. stored (snd (snd (PlaceOrder_Handle (demo_handler None) () demo_cmd demo_shop))) ''o1'' = Some o1 \<and> DomainEvents o1 = []"
proof -
  have "fst (snd (PlaceOrder_Handle (demo_handler None) () demo_cmd demo_shop)) = None"
    by (simp add: PlaceOrder_Handle_def demo_handler_def NewPlaceOrderHandler_def demo_cmd_def demo_shop_def
        demo_item_def Place_def sl_read_def word_sle_eq OrderRepository_Save_def Let_def)
  then obtain res w' where "PlaceOrder_Handle (demo_handler None) () demo_cmd demo_shop = (res, None, w')"
    by (cases "PlaceOrder_Handle (demo_handler None) () demo_cmd demo_shop") auto
  with place_order_nil_publisher [OF demo_shop_ok(1), of "demo_handler None" "()" demo_cmd res w'] show ?thesis
    by (auto simp: demo_handler_def NewPlaceOrderHandler_def demo_cmd_def)
qed

section \<open>Through the HTTP routes\<close>

lemma decode_items_wf:
  "decode_items its w = (s, w') \<Longrightarrow>
     (shop_wf w' \<longleftrightarrow> shop_wf w) \<and> stored w' = stored w \<and> sl_read (sh_slices w') s = (case its of None \<Rightarrow> [] | Some xs \<Rightarrow> xs)"
  by (auto simp: decode_items_def shop_wf_def stored_def [abs_def] sl_read_def sl_alloc_def split: option.splits)

lemma post_get_cycle:
  assumes "shop_wf w" "ph_publisher h = None" "decode b = Inr (oid, cid, its)"
    and "post_orders decode h ctx b new_writer w = (rw, w')"
  defines "xs \<equiv> case its of None \<Rightarrow> [] | Some xs \<Rightarrow> xs"
  shows "shop_wf w' \<and>
    (\<forall>j. j \<noteq> oid \<longrightarrow> fst (get_order ctx j new_writer w') = fst (get_order ctx j new_writer w)) \<and>
    (if xs \<noteq> [] \<and> (\<forall>it\<in>set xs. 0 < sint (it_Quantity it)) then
       rw_status rw = Some 201 \<and>
       rw_body rw = [PResult \<lparr>pr_OrderID = oid, pr_TotalCents = word_of_int (order_sum xs)\<rparr>] \<and>
       rw_status (fst (get_order ctx oid new_writer w')) = Some 200 \<and>
       rw_body (fst (get_order ctx oid new_writer w')) =
         [PView \<lparr>ov_OrderID = oid, ov_CustomerID = cid, ov_Status = ''placed'',
                 ov_TotalCents = word_of_int (order_sum xs), ov_Version = 1\<rparr>]
     else rw_status rw = Some 400 \<and> fst (get_order ctx oid new_writer w') = fst (get_order ctx oid new_writer w))"
proof -
  obtain s w1 where d: "decode_items its w = (s, w1)" by (cases "decode_items its w")
  define cmd where "cmd = \<lparr>po_OrderID = oid, po_CustomerID = cid, po_Items = s\<rparr>"
  obtain res err w2 where hd: "PlaceOrder_Handle h ctx cmd w1 = (res, err, w2)"
    by (cases "PlaceOrder_Handle h ctx cmd w1")
  have w1: "shop_wf w1" "stored w1 = stored w" "sl_read (sh_slices w1) s = xs"
    using decode_items_wf [OF d] assms(1) by (simp_all add: xs_def)
  have ok: "orderable w1 cmd \<longleftrightarrow> xs \<noteq> [] \<and> (\<forall>it\<in>set xs. 0 < sint (it_Quantity it))"
    by (simp add: orderable_def placeable_def drafted_def cmd_def w1(3))
  have w2: "w' = w2" and rw: "rw = (case err of Some e \<Rightarrow> http_Error new_writer (error_text e) 400
      | None \<Rightarrow> writeJSON new_writer 201 (PResult res))"
    using assms(3,4) d hd
    by (auto simp: post_orders_def dispatch_PlaceOrder cmd_def [symmetric] split: option.splits)
  show ?thesis
  proof (cases "orderable w1 cmd")
    case True
    then obtain o1 where o1: "placed_by (drafted cmd) (word_of_int (order_sum xs)) s o1"
      "err = None" "res = \<lparr>pr_OrderID = oid, pr_TotalCents = od_totalCents o1\<rparr>"
      "stored w2 = (stored w1)(oid \<mapsto> ClearEvents o1)" "shop_wf w2"
      using Handle_spec [OF w1(1) hd] assms(2) by (auto simp: publish_result_def cmd_def w1(3))
    with True ok rw w2 w1 show ?thesis
      by (simp add: get_order_response writeJSON_def new_writer_def rw_WriteHeader_def placed_by_def drafted_def
          cmd_def view_of_def StatusPlaced_def)
  next
    case False
    then have "stored w2 = stored w1" "errors_Is err ErrRuleViolation" "shop_wf w2"
      using Handle_spec [OF w1(1) hd] by auto
    moreover then obtain e where "err = Some e" by (cases err) auto
    ultimately show ?thesis
      using False ok rw w2 w1(2)
      by (auto simp: get_order_response http_Error_def new_writer_def rw_WriteHeader_def split: option.split)
  qed
qed

text \<open>
  C1. End to end: \<^verbatim>\<open>POST /orders\<close> with decodable fields answers 201 with the total exactly when
  there is at least one item and every quantity is positive, and a following
  \<^verbatim>\<open>GET /orders/{id}\<close> answers 200 with the placed order at version 1; otherwise \<^verbatim>\<open>POST\<close> answers
  400 and every \<^verbatim>\<open>GET\<close> answers as before. \<^verbatim>\<open>GET\<close> for other ids is not affected either way.
\<close>

theorem post_then_get:
  assumes "shop_wf w" "ph_publisher h = None" "decode b = Inr (oid, cid, its)"
    and "post_orders decode h ctx b new_writer w = (rw, w')"
  defines "xs \<equiv> case its of None \<Rightarrow> [] | Some xs \<Rightarrow> xs"
  shows "shop_wf w' \<and>
    (\<forall>j. j \<noteq> oid \<longrightarrow> fst (get_order ctx j new_writer w') = fst (get_order ctx j new_writer w)) \<and>
    (if xs \<noteq> [] \<and> (\<forall>it\<in>set xs. 0 < sint (it_Quantity it)) then
       rw_status rw = Some 201 \<and>
       rw_body rw = [PResult \<lparr>pr_OrderID = oid, pr_TotalCents = word_of_int (order_sum xs)\<rparr>] \<and>
       rw_status (fst (get_order ctx oid new_writer w')) = Some 200 \<and>
       rw_body (fst (get_order ctx oid new_writer w')) =
         [PView \<lparr>ov_OrderID = oid, ov_CustomerID = cid, ov_Status = ''placed'',
                 ov_TotalCents = word_of_int (order_sum xs), ov_Version = 1\<rparr>]
     else rw_status rw = Some 400 \<and> fst (get_order ctx oid new_writer w') = fst (get_order ctx oid new_writer w))"
  unfolding xs_def by (rule post_get_cycle [OF assms(1-4)])

theorem post_then_get_witness:
  "rw_status (fst (post_orders (\<lambda>_. Inr (''o1'', ''c1'', Some [demo_item 5])) (demo_handler None) () () new_writer demo_shop)) = Some 201"
  using post_then_get [OF demo_shop_ok(1), of "demo_handler None" "\<lambda>_. Inr (''o1'', ''c1'', Some [demo_item 5])" "()"
      "''o1''" "''c1''" "Some [demo_item 5]" "()"]
  by (cases "post_orders (\<lambda>_. Inr (''o1'', ''c1'', Some [demo_item 5])) (demo_handler None) () () new_writer demo_shop")
    (simp add: demo_handler_def NewPlaceOrderHandler_def demo_item_def)

end
