(* ===== verification/Account.thy ===== *)
theory Account
  imports Domain
begin

text \<open>
  The worked aggregate of \<^verbatim>\<open>examples/minimal/domain/account\<close>: status gated mutations, amounts in
  cents as \<^verbatim>\<open>int64\<close>, one recorded event per state change. Every method takes the clock value
  \<open>now\<close> that \<^verbatim>\<open>NewBaseEvent\<close> reads, and returns the optional error with the account it leaves.
  The events are one datatype with a constructor per event struct.

  Shown: the methods satisfy the contract \<open>recorder\<close>; the recorded events are a complete
  account of the state (replaying them rebuilds it); the balance is the sum of the accepted
  movements; closing is final; what wrap-around does to \<^verbatim>\<open>Withdraw\<close>.
\<close>

section \<open>events.go\<close>

datatype AccountEvent =
    AccountOpened (ae_base: BaseEvent) (OpeningDeposit: i64)
  | MoneyWithdrawn (ae_base: BaseEvent) (Amount: i64) (BalanceAfter: i64)
  | MoneyDeposited (ae_base: BaseEvent) (Amount: i64) (BalanceAfter: i64)
  | AccountFrozen (ae_base: BaseEvent) (Reason: string)
  | AccountClosed (ae_base: BaseEvent)
  | OverdraftLimitChanged (ae_base: BaseEvent) (Limit: i64)

definition NewAccountOpened :: "int \<Rightarrow> string \<Rightarrow> string \<Rightarrow> i64 \<Rightarrow> i64 \<Rightarrow> AccountEvent" where [op_defs]:
  "NewAccountOpened now eventID aggregateID version openingDeposit =
     AccountOpened (NewBaseEvent now eventID ''account.opened'' aggregateID ''Account'' version) openingDeposit"

definition NewMoneyWithdrawn :: "int \<Rightarrow> string \<Rightarrow> string \<Rightarrow> i64 \<Rightarrow> i64 \<Rightarrow> i64 \<Rightarrow> AccountEvent" where [op_defs]:
  "NewMoneyWithdrawn now eventID aggregateID version amount balanceAfter =
     MoneyWithdrawn (NewBaseEvent now eventID ''account.money_withdrawn'' aggregateID ''Account'' version)
       amount balanceAfter"

definition NewMoneyDeposited :: "int \<Rightarrow> string \<Rightarrow> string \<Rightarrow> i64 \<Rightarrow> i64 \<Rightarrow> i64 \<Rightarrow> AccountEvent" where [op_defs]:
  "NewMoneyDeposited now eventID aggregateID version amount balanceAfter =
     MoneyDeposited (NewBaseEvent now eventID ''account.money_deposited'' aggregateID ''Account'' version)
       amount balanceAfter"

definition NewAccountFrozen :: "int \<Rightarrow> string \<Rightarrow> string \<Rightarrow> i64 \<Rightarrow> string \<Rightarrow> AccountEvent" where [op_defs]:
  "NewAccountFrozen now eventID aggregateID version reason =
     AccountFrozen (NewBaseEvent now eventID ''account.frozen'' aggregateID ''Account'' version) reason"

definition NewAccountClosed :: "int \<Rightarrow> string \<Rightarrow> string \<Rightarrow> i64 \<Rightarrow> AccountEvent" where [op_defs]:
  "NewAccountClosed now eventID aggregateID version =
     AccountClosed (NewBaseEvent now eventID ''account.closed'' aggregateID ''Account'' version)"

definition NewOverdraftLimitChanged :: "int \<Rightarrow> string \<Rightarrow> string \<Rightarrow> i64 \<Rightarrow> i64 \<Rightarrow> AccountEvent" where [op_defs]:
  "NewOverdraftLimitChanged now eventID aggregateID version limit =
     OverdraftLimitChanged (NewBaseEvent now eventID ''account.overdraft_changed'' aggregateID ''Account'' version) limit"

section \<open>account.go\<close>

datatype AccountStatus = StatusOpen | StatusFrozen | StatusClosed

record Account = "(string, AccountEvent) BaseAggregate" +
  acc_status :: AccountStatus
  acc_balance :: i64
  acc_overdraft :: i64

text \<open>The last two lines of every method: the version is bumped, the event carries the new version.\<close>

definition bump_record :: "(i64 \<Rightarrow> AccountEvent) \<Rightarrow> Account \<Rightarrow> Account" where [op_defs]:
  "bump_record mk a = (let a1 = IncrementVersion a in Record (mk (ba_version a1)) a1)"

definition Account_New :: "int \<Rightarrow> string \<Rightarrow> i64 \<Rightarrow> string \<Rightarrow> goerr + Account" where [op_defs]:
  "Account_New now i openingDeposit eventID =
     (if openingDeposit <s 0 then
        Inl (NewRuleViolation ''OPENING_DEPOSIT_NEGATIVE'' ''opening deposit must be non-negative'')
      else
        let a = BaseAggregate.extend (NewBaseAggregate i) (Account.fields StatusOpen openingDeposit 0)
        in Inr (bump_record (\<lambda>v. NewAccountOpened now eventID i v openingDeposit) a))"

definition SetOverdraftLimit :: "int \<Rightarrow> i64 \<Rightarrow> string \<Rightarrow> Account \<Rightarrow> goerr option \<times> Account" where [op_defs]:
  "SetOverdraftLimit now limit eventID a =
     (if limit <s 0 then
        (Some (NewRuleViolation ''OVERDRAFT_NEGATIVE'' ''overdraft limit must be non-negative''), a)
      else
        (None, bump_record (\<lambda>v. NewOverdraftLimitChanged now eventID (be_id a) v limit)
           (a\<lparr>acc_overdraft := limit\<rparr>)))"

definition Withdraw :: "int \<Rightarrow> i64 \<Rightarrow> string \<Rightarrow> Account \<Rightarrow> goerr option \<times> Account" where [op_defs]:
  "Withdraw now amount eventID a =
     (case acc_status a of
        StatusFrozen \<Rightarrow>
          (Some (NewRuleViolation ''ACCOUNT_FROZEN'' ''withdrawals are blocked while the account is frozen''), a)
      | StatusClosed \<Rightarrow>
          (Some (NewRuleViolation ''ACCOUNT_CLOSED'' ''withdrawals are not allowed on closed accounts''), a)
      | StatusOpen \<Rightarrow>
          (if amount \<le>s 0 then
             (Some (NewRuleViolation ''AMOUNT_NOT_POSITIVE'' ''withdrawal amount must be positive''), a)
           else if acc_balance a - amount <s - acc_overdraft a then
             (Some (NewRuleViolation ''OVERDRAFT_EXCEEDED'' ''withdrawal would exceed allowed overdraft''), a)
           else
             let a1 = a\<lparr>acc_balance := acc_balance a - amount\<rparr>
             in (None, bump_record (\<lambda>v. NewMoneyWithdrawn now eventID (be_id a) v amount (acc_balance a1)) a1)))"

definition Deposit :: "int \<Rightarrow> i64 \<Rightarrow> string \<Rightarrow> Account \<Rightarrow> goerr option \<times> Account" where [op_defs]:
  "Deposit now amount eventID a =
     (if acc_status a = StatusClosed then
        (Some (NewRuleViolation ''ACCOUNT_CLOSED'' ''deposits are not allowed on closed accounts''), a)
      else if amount \<le>s 0 then
        (Some (NewRuleViolation ''AMOUNT_NOT_POSITIVE'' ''deposit amount must be positive''), a)
      else
        let a1 = a\<lparr>acc_balance := acc_balance a + amount\<rparr>
        in (None, bump_record (\<lambda>v. NewMoneyDeposited now eventID (be_id a) v amount (acc_balance a1)) a1))"

definition Freeze :: "int \<Rightarrow> string \<Rightarrow> string \<Rightarrow> Account \<Rightarrow> goerr option \<times> Account" where [op_defs]:
  "Freeze now reason eventID a =
     (if acc_status a \<noteq> StatusOpen then
        (Some (NewRuleViolation ''ONLY_OPEN_CAN_FREEZE'' ''only open accounts can be frozen''), a)
      else if reason = [] then
        (Some (NewRuleViolation ''FREEZE_REASON_REQUIRED'' ''freeze reason is mandatory''), a)
      else
        (None, bump_record (\<lambda>v. NewAccountFrozen now eventID (be_id a) v reason)
           (a\<lparr>acc_status := StatusFrozen\<rparr>)))"

definition Close :: "int \<Rightarrow> string \<Rightarrow> Account \<Rightarrow> goerr option \<times> Account" where [op_defs]:
  "Close now eventID a =
     (if acc_status a = StatusClosed then
        (Some (NewRuleViolation ''ALREADY_CLOSED'' ''account is already closed''), a)
      else
        (None, bump_record (\<lambda>v. NewAccountClosed now eventID (be_id a) v)
           (a\<lparr>acc_status := StatusClosed\<rparr>)))"

section \<open>Calls as data\<close>

datatype account_op =
    OpSetOverdraftLimit int i64 string
  | OpWithdraw int i64 string
  | OpDeposit int i64 string
  | OpFreeze int string string
  | OpClose int string

fun account_step :: "account_op \<Rightarrow> Account \<Rightarrow> goerr option \<times> Account" where
  "account_step (OpSetOverdraftLimit now l e) a = SetOverdraftLimit now l e a"
| "account_step (OpWithdraw now x e) a = Withdraw now x e a"
| "account_step (OpDeposit now x e) a = Deposit now x e a"
| "account_step (OpFreeze now r e) a = Freeze now r e a"
| "account_step (OpClose now e) a = Close now e a"

text \<open>What an event says about the state: the specification of a projection of the events.\<close>

type_synonym account_view = "AccountStatus \<times> i64 \<times> i64"

fun project_event :: "AccountEvent \<Rightarrow> account_view \<Rightarrow> account_view" where
  "project_event (AccountOpened b d) _ = (StatusOpen, d, 0)"
| "project_event (MoneyWithdrawn b x _) (s, bal, ov) = (s, bal - x, ov)"
| "project_event (MoneyDeposited b x _) (s, bal, ov) = (s, bal + x, ov)"
| "project_event (AccountFrozen b r) (s, bal, ov) = (StatusFrozen, bal, ov)"
| "project_event (AccountClosed b) (s, bal, ov) = (StatusClosed, bal, ov)"
| "project_event (OverdraftLimitChanged b l) (s, bal, ov) = (s, bal, l)"

definition account_view :: "Account \<Rightarrow> account_view" where
  "account_view a = (acc_status a, acc_balance a, acc_overdraft a)"

text \<open>Every balance that an event reports is the balance of the view at that point.\<close>

fun reported_balances_ok :: "AccountEvent list \<Rightarrow> account_view \<Rightarrow> bool" where
  "reported_balances_ok [] v = True"
| "reported_balances_ok (e # es) v =
     ((case e of MoneyWithdrawn _ _ after \<Rightarrow> fst (snd (project_event e v)) = after
       | MoneyDeposited _ _ after \<Rightarrow> fst (snd (project_event e v)) = after
       | _ \<Rightarrow> True) \<and> reported_balances_ok es (project_event e v))"

section \<open>Facts\<close>

lemma bump_record_sel [simp]:
  "ba_version (bump_record mk a) = ba_version a + 1"
  "ba_events (bump_record mk a) = ba_events a @ [mk (ba_version a + 1)]"
  "be_id (bump_record mk a) = be_id a"
  "acc_status (bump_record mk a) = acc_status a"
  "acc_balance (bump_record mk a) = acc_balance a"
  "acc_overdraft (bump_record mk a) = acc_overdraft a"
  by (simp_all add: bump_record_def Record_def IncrementVersion_def)

lemmas account_ops = SetOverdraftLimit_def Withdraw_def Deposit_def Freeze_def Close_def
lemmas account_events = NewAccountOpened_def NewMoneyWithdrawn_def NewMoneyDeposited_def
  NewAccountFrozen_def NewAccountClosed_def NewOverdraftLimitChanged_def

lemma account_step_fail: "account_step x a = (Some e, a') \<Longrightarrow> a' = a"
  by (cases x) (auto simp: account_ops Let_def split: if_splits AccountStatus.splits)

text \<open>A successful call records one event; the event accounts for the change of the state.\<close>

lemma account_step_ok:
  "account_step x a = (None, a') \<Longrightarrow>
     ba_version a' = ba_version a + 1 \<and>
     (\<exists>ev. ba_events a' = ba_events a @ [ev] \<and> ev_Ver (ae_base ev) = ba_version a' \<and>
        project_event ev (account_view a) = account_view a' \<and>
        reported_balances_ok [ev] (account_view a))"
  by (cases x)
    (auto simp: account_ops account_events account_view_def Let_def
      split: if_splits AccountStatus.splits)

interpretation acct: recorder account_step DomainEvents ba_version "\<lambda>ev. ev_Ver (ae_base ev)"
  by unfold_locales (auto simp: DomainEvents_def dest: account_step_fail account_step_ok)

lemma Account_New_ok:
  "Account_New now i d eid = Inr a \<Longrightarrow>
     ba_version a = 1 \<and> be_id a = i \<and> \<not> d <s 0 \<and> account_view a = (StatusOpen, d, 0) \<and>
     (\<exists>b. ba_events a = [AccountOpened b d] \<and> ev_Ver b = 1)"
  by (auto simp: Account_New_def Let_def account_events account_view_def NewBaseAggregate_def
      BaseAggregate.defs Account.defs split: if_splits)

text \<open>
  Numbering: the pending events of an account opened by \<^verbatim>\<open>New\<close> and driven by any sequence
  of calls, some of which may fail, carry the versions 1, 2, 3, ... without gaps, one for the
  opening and one per successful call, and the version of the account is the last of them.
\<close>

theorem account_event_numbering:
  assumes "Account_New now i d eid = Inr a0"
  shows "map (\<lambda>ev. ev_Ver (ae_base ev)) (DomainEvents (run_ops account_step ops a0)) =
           versions_after 0 (Suc (successes account_step ops a0)) \<and>
         ba_version (run_ops account_step ops a0) = of_nat (Suc (successes account_step ops a0))"
proof -
  obtain new where "DomainEvents (run_ops account_step ops a0) = DomainEvents a0 @ new"
    "length new = successes account_step ops a0"
    "map (\<lambda>ev. ev_Ver (ae_base ev)) new = versions_after (ba_version a0) (length new)"
    "ba_version (run_ops account_step ops a0) = ba_version a0 + of_nat (length new)"
    using acct.run_numbering by blast
  with Account_New_ok [OF assms] show ?thesis by (auto simp: DomainEvents_def)
qed

theorem account_event_numbering_witness:
  "\<exists>a0. Account_New 0 ''a'' 100 ''e0'' = Inr a0 \<and>
     map (\<lambda>ev. ev_Ver (ae_base ev))
       (DomainEvents (run_ops account_step [OpWithdraw 1 30 ''e1'', OpWithdraw 2 900 ''e2'', OpClose 3 ''e3''] a0))
     = [1, 2, 3]"
proof -
  define a0 where "a0 = projr (Account_New 0 ''a'' 100 ''e0'')"
  have a0: "Account_New 0 ''a'' 100 ''e0'' = Inr a0"
    by (simp add: a0_def Account_New_def word_sless_alt)
  moreover have "successes account_step [OpWithdraw 1 30 ''e1'', OpWithdraw 2 900 ''e2'', OpClose 3 ''e3''] a0 = 2"
    by (simp add: a0_def op_defs word_sless_alt word_sle_eq NewBaseAggregate_def BaseAggregate.defs Account.defs Record_def IncrementVersion_def)
  ultimately show ?thesis
    using account_event_numbering [OF a0, of "[OpWithdraw 1 30 ''e1'', OpWithdraw 2 900 ''e2'', OpClose 3 ''e3'']"]
    by (simp add: numeral_2_eq_2)
qed

lemma reported_balances_append:
  "reported_balances_ok (xs @ ys) v \<longleftrightarrow>
     reported_balances_ok xs v \<and> reported_balances_ok ys (fold project_event xs v)"
  by (induction xs arbitrary: v) auto

lemma account_run_projects:
  "\<exists>new. ba_events (run_ops account_step ops a) = ba_events a @ new \<and>
     fold project_event new (account_view a) = account_view (run_ops account_step ops a) \<and>
     reported_balances_ok new (account_view a)"
proof (induction ops arbitrary: a)
  case Nil
  then show ?case by simp
next
  case (Cons x ops)
  obtain r a1 where st: "account_step x a = (r, a1)" by (cases "account_step x a")
  obtain new where new: "ba_events (run_ops account_step ops a1) = ba_events a1 @ new"
    "fold project_event new (account_view a1) = account_view (run_ops account_step ops a1)"
    "reported_balances_ok new (account_view a1)"
    using Cons.IH by blast
  show ?case
  proof (cases r)
    case None
    then obtain ev where "ba_events a1 = ba_events a @ [ev]" "project_event ev (account_view a) = account_view a1"
      "reported_balances_ok [ev] (account_view a)"
      using account_step_ok st by blast
    with st new show ?thesis by (intro exI [of _ "ev # new"]) simp
  next
    case (Some e)
    with st account_step_fail have "a1 = a" by blast
    with st new show ?thesis by auto
  qed
qed

text \<open>
  C20. The recorded events are a complete account of the aggregate: projecting them, from the
  \<^verbatim>\<open>AccountOpened\<close> event on, rebuilds status, balance and overdraft limit after any sequence of
  calls, and every \<^verbatim>\<open>BalanceAfter\<close> an event reports is the projected balance at that point.
\<close>

theorem account_events_complete:
  assumes "Account_New now i d eid = Inr a0"
  shows "fold project_event (DomainEvents (run_ops account_step ops a0)) v =
           account_view (run_ops account_step ops a0) \<and>
         reported_balances_ok (DomainEvents (run_ops account_step ops a0)) v"
proof -
  obtain new where new: "ba_events (run_ops account_step ops a0) = ba_events a0 @ new"
    "fold project_event new (account_view a0) = account_view (run_ops account_step ops a0)"
    "reported_balances_ok new (account_view a0)"
    using account_run_projects by blast
  with Account_New_ok [OF assms] show ?thesis
    by (auto simp: DomainEvents_def reported_balances_append)
qed

theorem account_events_complete_witness:
  "\<exists>a0. Account_New 0 ''a'' 100 ''e0'' = Inr a0 \<and>
     fold project_event (DomainEvents (run_ops account_step [OpWithdraw 1 30 ''e1'', OpClose 3 ''e3''] a0))
       (StatusOpen, 0, 0) = (StatusClosed, 70, 0)"
proof -
  define a0 where "a0 = projr (Account_New 0 ''a'' 100 ''e0'')"
  have a0: "Account_New 0 ''a'' 100 ''e0'' = Inr a0"
    by (simp add: a0_def Account_New_def word_sless_alt)
  moreover have "account_view (run_ops account_step [OpWithdraw 1 30 ''e1'', OpClose 3 ''e3''] a0) = (StatusClosed, 70, 0)"
    by (simp add: a0_def op_defs word_sless_alt word_sle_eq account_view_def NewBaseAggregate_def
        BaseAggregate.defs Account.defs Record_def IncrementVersion_def)
  ultimately show ?thesis
    using account_events_complete [OF a0, of "[OpWithdraw 1 30 ''e1'', OpClose 3 ''e3'']" "(StatusOpen, 0, 0)"]
    by simp
qed

lemma closed_step:
  "acc_status a = StatusClosed \<Longrightarrow>
     acc_status (snd (account_step x a)) = StatusClosed \<and> acc_balance (snd (account_step x a)) = acc_balance a"
  by (cases x) (auto simp: account_ops)

text \<open>
  C33. Closing is final: no sequence of calls reopens a closed account or moves its balance, and
  every \<^verbatim>\<open>Withdraw\<close>, \<^verbatim>\<open>Deposit\<close>, \<^verbatim>\<open>Freeze\<close> and \<^verbatim>\<open>Close\<close> is refused with a rule violation. The overdraft
  limit of a closed account can still be changed.
\<close>

theorem account_closed_is_final:
  assumes "acc_status a = StatusClosed"
  shows "acc_status (run_ops account_step ops a) = StatusClosed \<and>
         acc_balance (run_ops account_step ops a) = acc_balance a \<and>
         (\<forall>x. fst (account_step x a) = None \<longrightarrow> (\<exists>now l e. x = OpSetOverdraftLimit now l e)) \<and>
         (\<forall>x e. fst (account_step x a) = Some e \<longrightarrow> errors_Is (Some e) ErrRuleViolation)"
proof -
  have run: "acc_status (run_ops account_step ops b) = StatusClosed \<and> acc_balance (run_ops account_step ops b) = acc_balance b"
    if "acc_status b = StatusClosed" for b
    using that by (induction ops arbitrary: b) (auto simp: closed_step)
  have only: "\<exists>now l e. x = OpSetOverdraftLimit now l e" if "fst (account_step x a) = None" for x
    using that assms by (cases x) (auto simp: account_ops)
  have "errors_Is (Some e) ErrRuleViolation" if "fst (account_step x a) = Some e" for x e
    using that assms
    by (cases x) (auto simp: account_ops NewRuleViolation_def errors_Is_def split: if_splits)
  with run [OF assms] only show ?thesis by simp
qed

theorem account_closed_is_final_witness:
  "acc_balance (run_ops account_step [OpDeposit 5 10 ''e'', OpSetOverdraftLimit 6 3 ''f'']
     \<lparr>be_id = ''a'', ba_events = [], ba_version = 2, acc_status = StatusClosed, acc_balance = 70, acc_overdraft = 0\<rparr>) = 70"
  using account_closed_is_final
    [of "\<lparr>be_id = ''a'', ba_events = [], ba_version = 2, acc_status = StatusClosed, acc_balance = 70, acc_overdraft = 0\<rparr>"
      "[OpDeposit 5 10 ''e'', OpSetOverdraftLimit 6 3 ''f'']"]
  by simp

text \<open>
  C34. \<^verbatim>\<open>Withdraw\<close> is exact while the difference is representable: on an open account with a
  non-negative limit it succeeds exactly when the amount is positive and the mathematical
  balance stays at or above the limit, it then lowers the balance by the amount, and otherwise
  it reports a rule violation and changes nothing.
\<close>

theorem Withdraw_exact:
  assumes "acc_status a = StatusOpen" "0 \<le> sint (acc_overdraft a)"
    and "minInt64 \<le> sint (acc_balance a) - sint amount"
  shows "case Withdraw now amount eid a of
           (None, a') \<Rightarrow> 0 < sint amount \<and> - sint (acc_overdraft a) \<le> sint (acc_balance a) - sint amount \<and>
             sint (acc_balance a') = sint (acc_balance a) - sint amount \<and> acc_overdraft a' = acc_overdraft a
         | (Some e, a') \<Rightarrow> (sint amount \<le> 0 \<or> sint (acc_balance a) - sint amount < - sint (acc_overdraft a)) \<and>
             a' = a \<and> errors_Is (Some e) ErrRuleViolation"
proof (cases "0 < sint amount")
  case True
  then have "sint (acc_balance a - amount) = sint (acc_balance a) - sint amount"
    using assms(3) sint_i64_bounds(2) [of "acc_balance a"] by (intro sint_i64_sub) linarith+
  with True assms show ?thesis
    by (simp add: Withdraw_def word_sless_alt word_sle_eq sint_i64_neg NewRuleViolation_def errors_Is_def)
next
  case False
  with assms show ?thesis
    by (simp add: Withdraw_def word_sle_eq NewRuleViolation_def errors_Is_def)
qed

theorem Withdraw_exact_witness:
  "fst (Withdraw 0 40 ''e''
     \<lparr>be_id = ''a'', ba_events = [], ba_version = 1, acc_status = StatusOpen, acc_balance = 30, acc_overdraft = 5\<rparr>)
   \<noteq> None"
  using Withdraw_exact
    [of "\<lparr>be_id = ''a'', ba_events = [], ba_version = 1, acc_status = StatusOpen, acc_balance = 30, acc_overdraft = 5\<rparr>"
      40 0 "''e''"]
  by (auto split: prod.splits option.splits)


end
