(* ===== verification/Event_Sourcing.thy ===== *)
theory Event_Sourcing
  imports Domain "HOL-Library.Signed_Division"
begin

text \<open>
  \<^verbatim>\<open>eventsourcing/\<close>: \<^verbatim>\<open>BaseESAggregate\<close> with \<^verbatim>\<open>Raise\<close> and \<^verbatim>\<open>LoadHistory\<close>, the snapshot policy
  \<^verbatim>\<open>EveryN\<close> and the concurrency sentinel. The injected \<^verbatim>\<open>apply\<close> function mutates the fields of
  the concrete aggregate, here the record field \<open>es_state\<close>; it may fail after it changed
  them, so it returns an optional error together with the state it leaves.
\<close>

section \<open>aggregate.go\<close>

record ('id, 'ev, 's) BaseESAggregate = "('id, 'ev) BaseAggregate" +
  es_state :: 's

type_synonym ('ev, 's) applier = "'ev \<Rightarrow> 's \<Rightarrow> goerr option \<times> 's"

definition NewBaseESAggregate :: "'id \<Rightarrow> 's \<Rightarrow> ('id, 'ev, 's) BaseESAggregate" where
  "NewBaseESAggregate i s =
     BaseAggregate.extend (NewBaseAggregate i) (BaseESAggregate.fields s)"

definition Apply :: "('ev, 's) applier \<Rightarrow> 'ev \<Rightarrow> ('id, 'ev, 's) BaseESAggregate
    \<Rightarrow> goerr option \<times> ('id, 'ev, 's) BaseESAggregate" where
  "Apply app event a = (let (err, s) = app event (es_state a) in (err, a\<lparr>es_state := s\<rparr>))"

definition Raise :: "('ev, 's) applier \<Rightarrow> 'ev \<Rightarrow> ('id, 'ev, 's) BaseESAggregate
    \<Rightarrow> goerr option \<times> ('id, 'ev, 's) BaseESAggregate" where
  "Raise app event a =
     (let (err, a1) = Apply app event a
      in case err of
           Some e \<Rightarrow> (Some e, a1)
         | None \<Rightarrow> (None, IncrementVersion (Record event a1)))"

text \<open>The loop of \<^verbatim>\<open>LoadHistory\<close> and the method itself.\<close>

fun load_loop :: "('ev, 's) applier \<Rightarrow> 'ev list \<Rightarrow> ('id, 'ev, 's) BaseESAggregate
    \<Rightarrow> goerr option \<times> ('id, 'ev, 's) BaseESAggregate" where
  "load_loop app [] a = (None, a)"
| "load_loop app (e # es) a =
     (let (err, a1) = Apply app e a
      in case err of
           Some x \<Rightarrow> (Some x, a1)
         | None \<Rightarrow> load_loop app es (IncrementVersion a1))"

definition LoadHistory :: "('ev, 's) applier \<Rightarrow> 'ev list \<Rightarrow> ('id, 'ev, 's) BaseESAggregate
    \<Rightarrow> goerr option \<times> ('id, 'ev, 's) BaseESAggregate" where
  "LoadHistory app events a =
     (let (err, a1) = load_loop app events a
      in case err of Some e \<Rightarrow> (Some e, a1) | None \<Rightarrow> (None, ClearEvents a1))"

section \<open>eventstore.go\<close>

definition ExpectedVersionAny :: i64 where "ExpectedVersionAny = -1"
definition ExpectedVersionNew :: i64 where "ExpectedVersionNew = 0"

definition ErrConcurrency :: goerr where
  "ErrConcurrency = WrapErr ''eventsourcing: domain: concurrency conflict'' ErrConcurrencyConflict"

section \<open>snapshot.go\<close>

record everyN =
  en_n :: i64

definition EveryN :: "i64 \<Rightarrow> everyN" where
  "EveryN n = \<lparr>en_n = n\<rparr>"

text \<open>Go's \<^verbatim>\<open>%\<close> truncates towards zero.\<close>

definition ShouldSnapshot :: "everyN \<Rightarrow> i64 \<Rightarrow> bool" where
  "ShouldSnapshot p version =
     (if sint (en_n p) \<le> 0 then False else sint version smod sint (en_n p) = 0)"

section \<open>Facts\<close>

text \<open>Raising a list of events in order, as a command handler does; stops at the first error.\<close>

fun raise_all :: "('ev, 's) applier \<Rightarrow> 'ev list \<Rightarrow> ('id, 'ev, 's) BaseESAggregate
    \<Rightarrow> goerr option \<times> ('id, 'ev, 's) BaseESAggregate" where
  "raise_all app [] a = (None, a)"
| "raise_all app (e # es) a =
     (case Raise app e a of (Some x, a1) \<Rightarrow> (Some x, a1) | (None, a1) \<Rightarrow> raise_all app es a1)"

lemma Raise_eq:
  "Raise app e a =
     (case app e (es_state a) of
        (Some x, s) \<Rightarrow> (Some x, a\<lparr>es_state := s\<rparr>)
      | (None, s) \<Rightarrow> (None, IncrementVersion (Record e (a\<lparr>es_state := s\<rparr>))))"
  by (simp add: Raise_def Apply_def split: prod.split option.split)

lemma load_loop_Cons:
  "load_loop app (e # es) a =
     (case app e (es_state a) of
        (Some x, s) \<Rightarrow> (Some x, a\<lparr>es_state := s\<rparr>)
      | (None, s) \<Rightarrow> load_loop app es (IncrementVersion (a\<lparr>es_state := s\<rparr>)))"
  by (simp add: Apply_def split: prod.split option.split)

lemma ES_sel [simp]:
  "es_state (Record e a) = es_state a" "es_state (IncrementVersion a) = es_state a"
  "es_state (ClearEvents a) = es_state a"
  by (simp_all add: Record_def IncrementVersion_def ClearEvents_def)

lemma New_ES_sel [simp]:
  "be_id (NewBaseESAggregate i s) = i" "ba_events (NewBaseESAggregate i s) = []"
  "ba_version (NewBaseESAggregate i s) = 0" "es_state (NewBaseESAggregate i s) = s"
  by (simp_all add: NewBaseESAggregate_def NewBaseAggregate_def BaseAggregate.defs BaseESAggregate.defs)

text \<open>
  Raising and loading apply the same function to the same states: two aggregates that agree
  on identity, version and state stay in step.
\<close>

lemma raise_load_sync:
  assumes "raise_all app es a = (None, a')" "be_id b = be_id a" "ba_version b = ba_version a"
    "es_state b = es_state a"
  shows "\<exists>b'. load_loop app es b = (None, b') \<and> be_id b' = be_id a' \<and>
     ba_version b' = ba_version a' \<and> es_state b' = es_state a' \<and> ba_events a' = ba_events a @ es"
  using assms
proof (induction es arbitrary: a b)
  case Nil
  then show ?case by simp
next
  case (Cons e es)
  obtain s where s: "app e (es_state a) = (None, s)"
    using Cons.prems(1) by (auto simp: Raise_eq split: prod.splits option.splits)
  define a1 where "a1 = IncrementVersion (Record e (a\<lparr>es_state := s\<rparr>))"
  define b1 where "b1 = IncrementVersion (b\<lparr>es_state := s\<rparr>)"
  have "raise_all app es a1 = (None, a')"
    using Cons.prems(1) s by (simp add: Raise_eq a1_def)
  moreover have "load_loop app (e # es) b = load_loop app es b1"
    using s Cons.prems(4) by (simp only: load_loop_Cons) (simp add: b1_def)
  moreover have "be_id b1 = be_id a1" "ba_version b1 = ba_version a1" "es_state b1 = es_state a1"
    using Cons.prems by (simp_all add: a1_def b1_def)
  moreover have "ba_events a1 = ba_events a @ [e]" by (simp add: a1_def)
  ultimately show ?case using Cons.IH [of a1 b1] by auto
qed

text \<open>
  C17. Event sourcing round trip: replaying on a fresh aggregate the events that a sequence of
  successful \<^verbatim>\<open>Raise\<close> calls recorded rebuilds exactly the same state and version, with no
  event left to publish.
\<close>

theorem raise_then_load:
  assumes "raise_all app es (NewBaseESAggregate i s0) = (None, a)"
  shows "DomainEvents a = es \<and> LoadHistory app (DomainEvents a) (NewBaseESAggregate i s0) = (None, ClearEvents a)"
proof -
  obtain b where b: "load_loop app es (NewBaseESAggregate i s0) = (None, b)" "be_id b = be_id a"
    "ba_version b = ba_version a" "es_state b = es_state a" and ev: "ba_events a = es"
    using raise_load_sync [OF assms refl refl refl] by auto
  then have "ClearEvents b = ClearEvents a"
    by (intro BaseESAggregate.equality) simp_all
  with b ev show ?thesis by (simp add: LoadHistory_def DomainEvents_def)
qed

theorem raise_then_load_witness:
  "LoadHistory (\<lambda>e s. (if e = 0 then Some (Sentinel ''zero'') else None, s + e)) [3, 4 :: int]
     (NewBaseESAggregate ''c'' (0 :: int)) =
   (None, \<lparr>be_id = ''c'', ba_events = [], ba_version = 2, es_state = 7\<rparr>)"
  using raise_then_load [of "\<lambda>e s. (if e = 0 then Some (Sentinel ''zero'') else None, s + e)"
      "[3, 4 :: int]" "''c''" 0
      "\<lparr>be_id = ''c'', ba_events = [3, 4], ba_version = 2, es_state = 7\<rparr>"]
  by (simp add: Raise_def Apply_def NewBaseESAggregate_def NewBaseAggregate_def Record_def
      IncrementVersion_def ClearEvents_def DomainEvents_def BaseAggregate.defs BaseESAggregate.defs)

lemma load_loop_append:
  "load_loop app (xs @ ys) a =
     (case load_loop app xs a of (Some e, a1) \<Rightarrow> (Some e, a1) | (None, a1) \<Rightarrow> load_loop app ys a1)"
  by (induction xs arbitrary: a)
    (simp_all add: load_loop_Cons del: load_loop.simps(2) split: prod.split option.split)

lemma load_loop_pending: "load_loop app es a = (err, a') \<Longrightarrow> ba_events a' = ba_events a"
  by (induction es arbitrary: a)
    (auto simp: load_loop_Cons simp del: load_loop.simps(2) split: prod.splits option.splits)

text \<open>Pending events do not influence a replay.\<close>

lemma ClearEvents_set_state: "(ClearEvents a)\<lparr>es_state := s\<rparr> = ClearEvents (a\<lparr>es_state := s\<rparr>)"
  by (simp add: ClearEvents_def)

lemma load_loop_ClearEvents:
  "load_loop app es (ClearEvents a) = apsnd ClearEvents (load_loop app es a)"
  by (induction es arbitrary: a)
    (simp_all add: load_loop_Cons ClearEvents_set_state IncrementVersion_ClearEvents
      del: load_loop.simps(2) split: prod.split option.split)

text \<open>
  Replay from a snapshot: loading a prefix of the history and then the rest is loading the
  whole history, so an aggregate restored at version \<open>n\<close> and fed the events after \<open>n\<close> is
  the aggregate that replays everything.
\<close>

theorem LoadHistory_split:
  assumes "LoadHistory app xs a = (None, snap)"
  shows "LoadHistory app (xs @ ys) a = (None, b) \<longleftrightarrow> LoadHistory app ys snap = (None, b)"
proof -
  obtain a1 where a1: "load_loop app xs a = (None, a1)" "snap = ClearEvents a1"
    using assms by (auto simp: LoadHistory_def Let_def split: prod.splits option.splits)
  then show ?thesis
    by (cases "load_loop app ys a1")
      (auto simp: LoadHistory_def load_loop_append load_loop_ClearEvents split: option.splits)
qed

theorem LoadHistory_split_witness:
  "LoadHistory (\<lambda>e s. (None, s + e)) ([3] @ [4 :: int]) (NewBaseESAggregate ''c'' (0 :: int)) =
   (None, \<lparr>be_id = ''c'', ba_events = [], ba_version = 2, es_state = 7\<rparr>)"
  using LoadHistory_split [of "\<lambda>e s. (None, s + e)" "[3]" "NewBaseESAggregate ''c'' (0 :: int)"
      "\<lparr>be_id = ''c'', ba_events = [], ba_version = 1, es_state = 3\<rparr>" "[4]"
      "\<lparr>be_id = ''c'', ba_events = [], ba_version = 2, es_state = 7\<rparr>"]
  by (simp add: LoadHistory_def Apply_def NewBaseESAggregate_def NewBaseAggregate_def
      IncrementVersion_def ClearEvents_def BaseAggregate.defs BaseESAggregate.defs)

text \<open>
  A failing event stops a replay at that event: the error is returned, the version counts
  exactly the events before it and the pending events are untouched.
\<close>

theorem LoadHistory_stops_at_failure:
  assumes "load_loop app xs a = (None, a1)" "fst (app e (es_state a1)) = Some err"
  shows "\<exists>a'. LoadHistory app (xs @ e # ys) a = (Some err, a') \<and>
           ba_version a' = ba_version a + of_nat (length xs) \<and> DomainEvents a' = DomainEvents a"
proof -
  have ver: "load_loop app es b = (None, b1) \<Longrightarrow> ba_version b1 = ba_version b + of_nat (length es)" for es b b1
    by (induction es arbitrary: b)
      (auto simp: load_loop_Cons simp del: load_loop.simps(2) split: prod.splits option.splits)
  obtain s where s: "app e (es_state a1) = (Some err, s)" using assms(2) by (cases "app e (es_state a1)") simp
  have "LoadHistory app (xs @ e # ys) a = (Some err, a1\<lparr>es_state := s\<rparr>)"
    using assms(1) s
    by (simp add: LoadHistory_def load_loop_append load_loop_Cons del: load_loop.simps(2))
  with ver [OF assms(1)] load_loop_pending [OF assms(1)] show ?thesis
    by (simp add: DomainEvents_def)
qed

theorem LoadHistory_stops_at_failure_witness:
  "\<exists>a'. LoadHistory (\<lambda>e s. (if e = 0 then Some (Sentinel ''zero'') else None, s + e)) ([3] @ 0 # [4 :: int])
      (NewBaseESAggregate ''c'' (0 :: int)) = (Some (Sentinel ''zero''), a') \<and> ba_version a' = 1"
  using LoadHistory_stops_at_failure
    [of "\<lambda>e s. (if e = 0 then Some (Sentinel ''zero'') else None, s + e)" "[3 :: int]"
      "NewBaseESAggregate ''c'' (0 :: int)"
      "\<lparr>be_id = ''c'', ba_events = [], ba_version = 1, es_state = 3\<rparr>" 0 "Sentinel ''zero''" "[4]"]
  by (auto simp: Apply_def NewBaseESAggregate_def NewBaseAggregate_def
      IncrementVersion_def BaseAggregate.defs BaseESAggregate.defs)

lemma smod_zero_iff: "(k :: int) smod n = 0 \<longleftrightarrow> n dvd k"
  by (auto simp: smod_int_alt_def sgn_if mod_eq_0_iff_dvd)

lemma one_multiple_in_window:
  assumes "0 < (n :: int)"
  shows "\<exists>!m. k \<le> m \<and> m < k + n \<and> n dvd m"
proof (rule ex1I [of _ "k + (- k) mod n"])
  have "(k + (- k) mod n) mod n = (k + - k) mod n" by (rule mod_add_right_eq)
  then show "k \<le> k + (- k) mod n \<and> k + (- k) mod n < k + n \<and> n dvd k + (- k) mod n"
    using assms by (simp add: mod_eq_0_iff_dvd [symmetric])
next
  fix m assume m: "k \<le> m \<and> m < k + n \<and> n dvd m"
  then have "(m - k) mod n = m - k" by (simp add: mod_pos_pos_trivial)
  moreover have "(m - k) mod n = (- k) mod n"
    using m by (metis diff_0 dvd_imp_mod_0 mod_diff_left_eq)
  ultimately show "m = k + (- k) mod n" by simp
qed

text \<open>
  \<^verbatim>\<open>EveryN(n)\<close> takes exactly one snapshot in every window of \<open>n\<close> consecutive versions (also
  negative ones, where Go's remainder truncates), and none when \<open>n\<close> is not positive.
\<close>

theorem EveryN_once_per_window:
  assumes "0 < sint n" "minInt64 \<le> k" "k + sint n \<le> maxInt64"
  shows "\<exists>!v. k \<le> sint v \<and> sint v < k + sint n \<and> ShouldSnapshot (EveryN n) v"
proof -
  have dvd: "ShouldSnapshot (EveryN n) v \<longleftrightarrow> sint n dvd sint v" for v
    using assms(1) by (simp add: ShouldSnapshot_def EveryN_def smod_zero_iff)
  obtain m where m: "k \<le> m" "m < k + sint n" "sint n dvd m"
    and uniq: "\<And>y. k \<le> y \<and> y < k + sint n \<and> sint n dvd y \<Longrightarrow> y = m"
    using one_multiple_in_window [OF assms(1), of k] by blast
  have "sint (word_of_int m :: i64) = m"
    using m assms by (intro sint_i64_of_int) linarith+
  with m uniq show ?thesis
    unfolding dvd by (metis signed_word_eqI)
qed

theorem EveryN_once_per_window_witness:
  "\<exists>!v. 1 \<le> sint v \<and> sint v < 1 + sint (3 :: i64) \<and> ShouldSnapshot (EveryN 3) v"
  using EveryN_once_per_window [of 3 1] by simp

lemma multiple_on_line:
  fixes n b v :: int
  assumes "0 < n"
  shows "(\<exists>k. 0 \<le> k \<and> k < n \<and> n dvd v + b * k) \<longleftrightarrow> gcd b n dvd v"
proof
  assume "\<exists>k. 0 \<le> k \<and> k < n \<and> n dvd v + b * k"
  then obtain k where "n dvd v + b * k" by blast
  then have "gcd b n dvd v + b * k" by (meson dvd_trans gcd_dvd2)
  moreover have "gcd b n dvd b * k" by (simp add: dvd_mult2)
  ultimately show "gcd b n dvd v" by (simp add: dvd_add_left_iff)
next
  assume "gcd b n dvd v"
  then obtain c where v: "v = gcd b n * c" by (elim dvdE)
  obtain x y where xy: "x * b + y * n = gcd b n" using bezout_int by blast
  define a where "a = - x * c"
  define q where "q = a div n"
  have "v + b * (a - n * q) = n * (y * c - b * q)" unfolding v a_def xy [symmetric] by (simp add: algebra_simps)
  then have "v + b * (a mod n) = n * (y * c - b * q)" by (simp add: q_def minus_mult_div_eq_mod)
  moreover have "0 \<le> a mod n" "a mod n < n" using assms by simp_all
  ultimately show "\<exists>k. 0 \<le> k \<and> k < n \<and> n dvd v + b * k" by auto
qed

text \<open>
  C36. The policy is asked after an append, and an append may hold several events, whose number it
  ignores. A stream at version \<open>v\<close> that grows by \<open>b\<close> events per append gets a snapshot within its next
  \<open>n\<close> appends if the greatest common divisor of \<open>b\<close> and \<open>n\<close> divides \<open>v\<close>; otherwise it never gets one.
\<close>

theorem EveryN_appends:
  assumes "0 < sint n" "0 \<le> v" "1 \<le> b" "v + b * sint n \<le> maxInt64"
  shows "if gcd b (sint n) dvd v
    then \<exists>k. 0 \<le> k \<and> k < sint n \<and> ShouldSnapshot (EveryN n) (word_of_int (v + b * k))
    else \<forall>k. 0 \<le> k \<and> v + b * k \<le> maxInt64 \<longrightarrow> \<not> ShouldSnapshot (EveryN n) (word_of_int (v + b * k))"
proof -
  have snap: "ShouldSnapshot (EveryN n) (word_of_int (v + b * k)) \<longleftrightarrow> sint n dvd v + b * k" if "0 \<le> k" "v + b * k \<le> maxInt64" for k
  proof -
    have "sint (word_of_int (v + b * k) :: i64) = v + b * k"
      using assms that by (intro sint_i64_of_int) (auto simp: intro: order_trans [of _ 0])
    then show ?thesis using assms(1) by (simp add: ShouldSnapshot_def EveryN_def smod_zero_iff)
  qed
  have range: "v + b * k \<le> maxInt64" if "k < sint n" for k
    using mult_left_mono [of k "sint n" b] that assms(3,4) by linarith
  show ?thesis
  proof (cases "gcd b (sint n) dvd v")
    case True
    then obtain k where "0 \<le> k" "k < sint n" "sint n dvd v + b * k" using multiple_on_line [OF assms(1), of v b] by blast
    with snap range True show ?thesis by auto
  next
    case False
    have "\<not> sint n dvd v + b * k" for k
    proof
      assume "sint n dvd v + b * k"
      then have "gcd b (sint n) dvd v + b * k" by (meson dvd_trans gcd_dvd2)
      then have "gcd b (sint n) dvd v" by (simp add: dvd_add_left_iff dvd_mult2)
      with False show False ..
    qed
    with snap False show ?thesis by simp
  qed
qed

theorem EveryN_appends_witness:
  "\<not> ShouldSnapshot (EveryN 2) (word_of_int 1) \<and> \<not> ShouldSnapshot (EveryN 2) (word_of_int 2001) \<and>
   (\<exists>k. 0 \<le> k \<and> k < 3 \<and> ShouldSnapshot (EveryN 3) (word_of_int (1 + 2 * k)))"
proof -
  have never: "\<forall>k. 0 \<le> k \<and> 1 + 2 * k \<le> maxInt64 \<longrightarrow> \<not> ShouldSnapshot (EveryN 2) (word_of_int (1 + 2 * k))"
    using EveryN_appends [of 2 1 2] by simp
  show ?thesis using never [rule_format, of 0] never [rule_format, of 1000] EveryN_appends [of 3 1 2] by simp
qed

end
