(* ===== verification/Bootstrap.thy ===== *)
theory Bootstrap
  imports Errorsx
begin

text \<open>
  \<^verbatim>\<open>bootstrap/\<close>: the adapter registry, the lifecycle, modules and the application container.

  Callbacks (module start and stop functions, hooks) are code of the service that uses the
  framework, so a callback is an identifier of type \<open>'k\<close> and an environment says what it does:
  given a context, the application and the outer world \<open>'w\<close> it yields an optional error, the
  new world, and the calls it made on the application. The application has no other mutable
  surface than the methods listed in \<open>app_call\<close>, so this loses nothing. Adapter factories
  are identifiers of type \<open>'f\<close> in the same way. The ghost field \<open>bs_trace\<close> logs the callbacks
  that ran with their results; no definition reads it.

  \<^verbatim>\<open>App.mu\<close> makes each method atomic; \<^verbatim>\<open>Start\<close>, \<^verbatim>\<open>Stop\<close> and \<^verbatim>\<open>Run\<close> are called from one goroutine, as
  their comments ask.
\<close>

section \<open>registry.go\<close>

definition ErrAdapterNotFound :: goerr where [sentinel_defs]:
  "ErrAdapterNotFound = Sentinel ''bootstrap: adapter not found''"

record 'f AdapterRegistry =
  ar_factories :: "string \<Rightarrow> (string \<Rightarrow> 'f option) option"

definition NewAdapterRegistry :: "'f AdapterRegistry" where
  "NewAdapterRegistry = \<lparr>ar_factories = Map.empty\<rparr>"

definition Registry_Register :: "string \<Rightarrow> string \<Rightarrow> 'f \<Rightarrow> 'f AdapterRegistry \<Rightarrow> 'f AdapterRegistry" where
  "Registry_Register kind driver f r =
     (let fs = ar_factories r;
          fs = (if fs kind = None then fs(kind \<mapsto> Map.empty) else fs)
      in r\<lparr>ar_factories := fs(kind \<mapsto> (the (fs kind))(driver \<mapsto> f))\<rparr>)"

text \<open>\<open>quote\<close> is the \<^verbatim>\<open>%q\<close> verb of \<^verbatim>\<open>fmt\<close>; it only shapes the text of the error.\<close>

definition Registry_Resolve :: "(string \<Rightarrow> string) \<Rightarrow> string \<Rightarrow> string \<Rightarrow> 'f AdapterRegistry \<Rightarrow> goerr + 'f" where
  "Registry_Resolve quote kind driver r =
     (case ar_factories r kind of
        None \<Rightarrow> Inl (WrapErr (''bootstrap: adapter not found: kind='' @ quote kind) ErrAdapterNotFound)
      | Some drivers \<Rightarrow>
          (case drivers driver of
             None \<Rightarrow> Inl (WrapErr (''bootstrap: adapter not found: kind='' @ quote kind @ '' driver='' @ quote driver)
                             ErrAdapterNotFound)
           | Some f \<Rightarrow> Inr f))"

definition Registry_Build :: "(string \<Rightarrow> string) \<Rightarrow> ('f \<Rightarrow> 'c \<Rightarrow> any \<Rightarrow> 'w \<Rightarrow> any \<times> goerr option \<times> 'w) \<Rightarrow> 'c
    \<Rightarrow> string \<Rightarrow> string \<Rightarrow> any \<Rightarrow> 'f AdapterRegistry \<Rightarrow> 'w \<Rightarrow> any \<times> goerr option \<times> 'w" where
  "Registry_Build quote run ctx kind driver cfg r w =
     (case Registry_Resolve quote kind driver r of
        Inl e \<Rightarrow> (ANil, Some e, w)
      | Inr f \<Rightarrow> run f ctx cfg w)"

section \<open>module.go\<close>

text \<open>A \<^verbatim>\<open>ModuleFunc\<close>; another implementation of \<^verbatim>\<open>Module\<close> is its two methods as callbacks.\<close>

record 'k Module =
  md_ModuleName :: string
  md_StartFn :: "'k option"
  md_StopFn :: "'k option"

section \<open>lifecycle.go: hooks\<close>

text \<open>A hook function is the closure that \<^verbatim>\<open>App.Start\<close> builds around a module, or a callback.\<close>

datatype 'k hook_fn = StopOf "'k Module" | HookFn 'k

text \<open>Hooks that are stored in a \<^verbatim>\<open>Lifecycle\<close>: the append functions drop a nil \<^verbatim>\<open>Run\<close>.\<close>

record 'k Hook =
  hk_Name :: string
  hk_Run :: "'k hook_fn"

record 'k Lifecycle =
  lc_starts :: "'k Hook list"
  lc_stops :: "'k Hook list"

definition AppendStart :: "string \<Rightarrow> 'k hook_fn option \<Rightarrow> 'k Lifecycle \<Rightarrow> 'k Lifecycle" where
  "AppendStart name run l =
     (case run of None \<Rightarrow> l | Some f \<Rightarrow> l\<lparr>lc_starts := lc_starts l @ [\<lparr>hk_Name = name, hk_Run = f\<rparr>]\<rparr>)"

definition AppendStop :: "string \<Rightarrow> 'k hook_fn option \<Rightarrow> 'k Lifecycle \<Rightarrow> 'k Lifecycle" where
  "AppendStop name run l =
     (case run of None \<Rightarrow> l | Some f \<Rightarrow> l\<lparr>lc_stops := lc_stops l @ [\<lparr>hk_Name = name, hk_Run = f\<rparr>]\<rparr>)"

definition Lifecycle_Append :: "string \<Rightarrow> 'k hook_fn option \<Rightarrow> string \<Rightarrow> 'k hook_fn option \<Rightarrow> 'k Lifecycle \<Rightarrow> 'k Lifecycle" where
  "Lifecycle_Append sname start tname stop l =
     (let l = (case start of None \<Rightarrow> l | Some f \<Rightarrow> l\<lparr>lc_starts := lc_starts l @ [\<lparr>hk_Name = sname, hk_Run = f\<rparr>]\<rparr>)
      in case stop of None \<Rightarrow> l | Some f \<Rightarrow> l\<lparr>lc_stops := lc_stops l @ [\<lparr>hk_Name = tname, hk_Run = f\<rparr>]\<rparr>)"

section \<open>app.go: the container\<close>

record ('k, 'f) App =
  app_cfg :: any
  app_log :: any
  app_registry :: "'f AdapterRegistry"
  app_lifecycle :: "'k Lifecycle"
  app_shutdownTimeout :: i64
  app_modules :: "'k Module list"
  app_values :: "string \<Rightarrow> any option"

record 'f Options =
  op_Config :: any
  op_Logger :: any
  op_Registry :: "'f AdapterRegistry option"
  op_ShutdownTimeout :: i64

definition App_New :: "'f Options \<Rightarrow> ('k, 'f) App" where
  "App_New opts =
     (let reg = (case op_Registry opts of None \<Rightarrow> NewAdapterRegistry | Some r \<Rightarrow> r);
          timeout = (if op_ShutdownTimeout opts \<le>s 0 then 15 * 1000000000 else op_ShutdownTimeout opts)
      in \<lparr>app_cfg = op_Config opts, app_log = op_Logger opts, app_registry = reg,
          app_lifecycle = \<lparr>lc_starts = [], lc_stops = []\<rparr>, app_shutdownTimeout = timeout,
          app_modules = [], app_values = Map.empty\<rparr>)"

definition App_Set :: "string \<Rightarrow> any \<Rightarrow> ('k, 'f) App \<Rightarrow> ('k, 'f) App" where
  "App_Set key val a = a\<lparr>app_values := (app_values a)(key \<mapsto> val)\<rparr>"

definition App_Get :: "string \<Rightarrow> ('k, 'f) App \<Rightarrow> any \<times> bool" where
  "App_Get key a = (case app_values a key of None \<Rightarrow> (ANil, False) | Some v \<Rightarrow> (v, True))"

definition App_Use :: "'k Module list \<Rightarrow> ('k, 'f) App \<Rightarrow> ('k, 'f) App" where
  "App_Use ms a = a\<lparr>app_modules := app_modules a @ ms\<rparr>"

text \<open>The calls a callback can make on the application it is given.\<close>

datatype ('k, 'f) app_call =
    CallSet string any
  | CallUse "'k Module list"
  | CallAppend string "'k option" string "'k option"
  | CallAppendStart string "'k option"
  | CallAppendStop string "'k option"
  | CallRegister string string 'f

fun do_call :: "('k, 'f) app_call \<Rightarrow> ('k, 'f) App \<Rightarrow> ('k, 'f) App" where
  "do_call (CallSet key val) a = App_Set key val a"
| "do_call (CallUse ms) a = App_Use ms a"
| "do_call (CallAppend n1 f1 n2 f2) a =
     a\<lparr>app_lifecycle := Lifecycle_Append n1 (map_option HookFn f1) n2 (map_option HookFn f2) (app_lifecycle a)\<rparr>"
| "do_call (CallAppendStart n f) a = a\<lparr>app_lifecycle := AppendStart n (map_option HookFn f) (app_lifecycle a)\<rparr>"
| "do_call (CallAppendStop n f) a = a\<lparr>app_lifecycle := AppendStop n (map_option HookFn f) (app_lifecycle a)\<rparr>"
| "do_call (CallRegister kind driver f) a = a\<lparr>app_registry := Registry_Register kind driver f (app_registry a)\<rparr>"

section \<open>Running callbacks\<close>

datatype 'c goctx = BaseCtx 'c | TimeoutCtx "'c goctx" i64

record ('k, 'f, 'c, 'w) benv =
  be_callback :: "'k \<Rightarrow> 'c goctx \<Rightarrow> ('k, 'f) App \<Rightarrow> 'w \<Rightarrow> goerr option \<times> ('k, 'f) app_call list \<times> 'w"
  be_quote :: "string \<Rightarrow> string"

datatype 'k ran = Started "'k Module" "goerr option" | HookRan "'k hook_fn" "goerr option"

record ('k, 'f, 'w) boot =
  bs_app :: "('k, 'f) App"
  bs_world :: 'w
  bs_trace :: "'k ran list"

definition invoke :: "('k, 'f, 'c, 'w) benv \<Rightarrow> 'k option \<Rightarrow> 'c goctx \<Rightarrow> ('k, 'f, 'w) boot
    \<Rightarrow> goerr option \<times> ('k, 'f, 'w) boot" where
  "invoke env k ctx s =
     (case k of
        None \<Rightarrow> (None, s)
      | Some k \<Rightarrow>
          (let (err, calls, w) = be_callback env k ctx (bs_app s) (bs_world s)
           in (err, s\<lparr>bs_app := fold do_call calls (bs_app s), bs_world := w\<rparr>)))"

definition log_ran :: "'k ran \<Rightarrow> ('k, 'f, 'w) boot \<Rightarrow> ('k, 'f, 'w) boot" where
  "log_ran r s = s\<lparr>bs_trace := bs_trace s @ [r]\<rparr>"

definition Module_Start :: "('k, 'f, 'c, 'w) benv \<Rightarrow> 'c goctx \<Rightarrow> 'k Module \<Rightarrow> ('k, 'f, 'w) boot
    \<Rightarrow> goerr option \<times> ('k, 'f, 'w) boot" where
  "Module_Start env ctx m s = (let (err, s) = invoke env (md_StartFn m) ctx s in (err, log_ran (Started m err) s))"

definition Hook_Run :: "('k, 'f, 'c, 'w) benv \<Rightarrow> 'c goctx \<Rightarrow> 'k hook_fn \<Rightarrow> ('k, 'f, 'w) boot
    \<Rightarrow> goerr option \<times> ('k, 'f, 'w) boot" where
  "Hook_Run env ctx f s =
     (let (err, s) = invoke env (case f of StopOf m \<Rightarrow> md_StopFn m | HookFn k \<Rightarrow> Some k) ctx s
      in (err, log_ran (HookRan f err) s))"

section \<open>lifecycle.go: Start and Stop\<close>

text \<open>The \<^verbatim>\<open>range\<close> loop iterates over the slice it read at its start.\<close>

fun run_starts :: "('k, 'f, 'c, 'w) benv \<Rightarrow> 'c goctx \<Rightarrow> 'k Hook list \<Rightarrow> ('k, 'f, 'w) boot
    \<Rightarrow> goerr option \<times> ('k, 'f, 'w) boot" where
  "run_starts env ctx [] s = (None, s)"
| "run_starts env ctx (h # hs) s =
     (case Hook_Run env ctx (hk_Run h) s of
        (Some e, s) \<Rightarrow> (Some e, s)
      | (None, s) \<Rightarrow> run_starts env ctx hs s)"

definition Lifecycle_Start :: "('k, 'f, 'c, 'w) benv \<Rightarrow> 'c goctx \<Rightarrow> ('k, 'f, 'w) boot
    \<Rightarrow> goerr option \<times> ('k, 'f, 'w) boot" where
  "Lifecycle_Start env ctx s = run_starts env ctx (lc_starts (app_lifecycle (bs_app s))) s"

text \<open>The counting loop reads \<^verbatim>\<open>l.stops[i]\<close> anew in every iteration.\<close>

fun stop_loop :: "('k, 'f, 'c, 'w) benv \<Rightarrow> 'c goctx \<Rightarrow> nat \<Rightarrow> goerr option list \<Rightarrow> ('k, 'f, 'w) boot
    \<Rightarrow> goerr option list \<times> ('k, 'f, 'w) boot" where
  "stop_loop env ctx 0 errs s = (errs, s)"
| "stop_loop env ctx (Suc i) errs s =
     (case Hook_Run env ctx (hk_Run (lc_stops (app_lifecycle (bs_app s)) ! i)) s of
        (Some e, s) \<Rightarrow> stop_loop env ctx i (errs @ [Some e]) s
      | (None, s) \<Rightarrow> stop_loop env ctx i errs s)"

definition Lifecycle_Stop :: "('k, 'f, 'c, 'w) benv \<Rightarrow> 'c goctx \<Rightarrow> ('k, 'f, 'w) boot
    \<Rightarrow> goerr option \<times> ('k, 'f, 'w) boot" where
  "Lifecycle_Stop env ctx s =
     (let (errs, s) = stop_loop env ctx (length (lc_stops (app_lifecycle (bs_app s)))) [] s
      in (errors_Join errs, s))"

definition ShutdownContext :: "'c goctx \<Rightarrow> i64 \<Rightarrow> 'c goctx" where
  "ShutdownContext parent timeout = (if timeout \<le>s 0 then parent else TimeoutCtx parent timeout)"

section \<open>app.go: Start, Stop, Run\<close>

fun start_modules :: "('k, 'f, 'c, 'w) benv \<Rightarrow> 'c goctx \<Rightarrow> 'k Module list \<Rightarrow> ('k, 'f, 'w) boot
    \<Rightarrow> goerr option \<times> ('k, 'f, 'w) boot" where
  "start_modules env ctx [] s = (None, s)"
| "start_modules env ctx (m # ms) s =
     (case Module_Start env ctx m s of
        (Some e, s) \<Rightarrow>
          (Some (WrapErr (''bootstrap: start module '' @ be_quote env (md_ModuleName m) @ '': '' @ error_text e) e), s)
      | (None, s) \<Rightarrow>
          start_modules env ctx ms
            (s\<lparr>bs_app := (bs_app s)\<lparr>app_lifecycle :=
                 AppendStop (md_ModuleName m) (Some (StopOf m)) (app_lifecycle (bs_app s))\<rparr>\<rparr>))"

definition App_Start :: "('k, 'f, 'c, 'w) benv \<Rightarrow> 'c goctx \<Rightarrow> ('k, 'f, 'w) boot \<Rightarrow> goerr option \<times> ('k, 'f, 'w) boot" where
  "App_Start env ctx s =
     (case start_modules env ctx (app_modules (bs_app s)) s of
        (Some e, s) \<Rightarrow> (Some e, s)
      | (None, s) \<Rightarrow> Lifecycle_Start env ctx s)"

definition App_Stop :: "('k, 'f, 'c, 'w) benv \<Rightarrow> 'c goctx \<Rightarrow> ('k, 'f, 'w) boot \<Rightarrow> goerr option \<times> ('k, 'f, 'w) boot" where
  "App_Stop env parent s = Lifecycle_Stop env (ShutdownContext parent (app_shutdownTimeout (bs_app s))) s"

text \<open>
  \<^verbatim>\<open>WaitForSignal\<close> blocks until a signal or a cancellation: \<open>wait\<close> is \<^term>\<open>None\<close> when neither
  ever comes, and otherwise what other goroutines did to the application and the world
  meanwhile. \<^verbatim>\<open>Run\<close> ignores which signal it was.
\<close>

type_synonym ('k, 'f, 'c, 'w) waiter =
  "'c goctx \<Rightarrow> ('k, 'f) App \<Rightarrow> 'w \<Rightarrow> (('k, 'f) app_call list \<times> 'w) option"

definition WaitForSignal :: "('k, 'f, 'c, 'w) waiter \<Rightarrow> 'c goctx \<Rightarrow> ('k, 'f, 'w) boot \<Rightarrow> ('k, 'f, 'w) boot option" where
  "WaitForSignal wait ctx s =
     (case wait ctx (bs_app s) (bs_world s) of
        None \<Rightarrow> None
      | Some (calls, w) \<Rightarrow> Some (s\<lparr>bs_app := fold do_call calls (bs_app s), bs_world := w\<rparr>))"

definition App_Run :: "('k, 'f, 'c, 'w) benv \<Rightarrow> ('k, 'f, 'c, 'w) waiter \<Rightarrow> 'c goctx \<Rightarrow> ('k, 'f, 'w) boot
    \<Rightarrow> (goerr option \<times> ('k, 'f, 'w) boot) option" where
  "App_Run env wait ctx s =
     (case App_Start env ctx s of
        (Some e, s) \<Rightarrow> (let (_, s) = App_Stop env ctx s in Some (Some e, s))
      | (None, s) \<Rightarrow>
          (case WaitForSignal wait ctx s of
             None \<Rightarrow> None
           | Some s \<Rightarrow> Some (App_Stop env ctx s)))"

section \<open>Facts\<close>

text \<open>The hooks of a state, and the modules among a list of hooks or of executed callbacks.\<close>

definition stops :: "('k, 'f, 'w) boot \<Rightarrow> 'k Hook list" where
  "stops s = lc_stops (app_lifecycle (bs_app s))"

definition starts :: "('k, 'f, 'w) boot \<Rightarrow> 'k Hook list" where
  "starts s = lc_starts (app_lifecycle (bs_app s))"

definition hook_modules :: "'k hook_fn list \<Rightarrow> 'k Module list" where
  "hook_modules fs = List.map_filter (\<lambda>f. case f of StopOf m \<Rightarrow> Some m | HookFn _ \<Rightarrow> None) fs"

definition start_log :: "'k ran list \<Rightarrow> ('k Module \<times> goerr option) list" where
  "start_log t = List.map_filter (\<lambda>r. case r of Started m e \<Rightarrow> Some (m, e) | HookRan _ _ \<Rightarrow> None) t"

definition hook_log :: "'k ran list \<Rightarrow> ('k hook_fn \<times> goerr option) list" where
  "hook_log t = List.map_filter (\<lambda>r. case r of Started _ _ \<Rightarrow> None | HookRan f e \<Rightarrow> Some (f, e)) t"

lemma log_append [simp]:
  "start_log (a @ b) = start_log a @ start_log b" "hook_log (a @ b) = hook_log a @ hook_log b"
  "hook_modules (xs @ ys) = hook_modules xs @ hook_modules ys"
  by (simp_all add: start_log_def hook_log_def hook_modules_def)

lemma log_simps [simp]:
  "start_log [] = []" "hook_log [] = []" "hook_modules [] = []"
  "start_log (Started m e # t) = (m, e) # start_log t" "start_log (HookRan f e # t) = start_log t"
  "hook_log (Started m e # t) = hook_log t" "hook_log (HookRan f e # t) = (f, e) # hook_log t"
  "hook_modules (StopOf m # fs) = m # hook_modules fs" "hook_modules (HookFn k # fs) = hook_modules fs"
  by (simp_all add: start_log_def hook_log_def hook_modules_def)

text \<open>
  Code that only uses the public methods appends hooks to both lists, and none of them is the
  stop hook of a module.
\<close>

definition extends :: "('k, 'f) App \<Rightarrow> ('k, 'f) App \<Rightarrow> bool" where
  "extends a b \<longleftrightarrow>
     (\<exists>hs. lc_stops (app_lifecycle b) = lc_stops (app_lifecycle a) @ hs \<and> hook_modules (map hk_Run hs) = []) \<and>
     (\<exists>hs. lc_starts (app_lifecycle b) = lc_starts (app_lifecycle a) @ hs \<and> hook_modules (map hk_Run hs) = [])"

lemma extends_refl [simp]: "extends a a"
  by (simp add: extends_def)

lemma extends_trans: "extends a b \<Longrightarrow> extends b c \<Longrightarrow> extends a c"
  by (force simp: extends_def)

lemma do_call_extends: "extends a (do_call c a)"
  by (cases c)
    (auto simp: extends_def App_Set_def App_Use_def Lifecycle_Append_def AppendStart_def AppendStop_def Let_def
      split: option.split)

lemma do_calls_extend: "extends a (fold do_call cs a)"
  by (induction cs arbitrary: a) (auto intro: extends_trans do_call_extends)

lemma invoke_extends: "invoke env k ctx s = (err, s') \<Longrightarrow> extends (bs_app s) (bs_app s') \<and> bs_trace s' = bs_trace s"
  by (auto simp: invoke_def do_calls_extend split: option.splits prod.splits)

lemma Hook_Run_extends:
  "Hook_Run env ctx f s = (err, s') \<Longrightarrow> extends (bs_app s) (bs_app s') \<and> bs_trace s' = bs_trace s @ [HookRan f err]"
  by (auto simp: Hook_Run_def log_ran_def dest!: invoke_extends split: prod.splits)

lemma Module_Start_extends:
  "Module_Start env ctx m s = (err, s') \<Longrightarrow> extends (bs_app s) (bs_app s') \<and> bs_trace s' = bs_trace s @ [Started m err]"
  by (auto simp: Module_Start_def log_ran_def dest!: invoke_extends split: prod.splits)

text \<open>Modules start in order; exactly those that succeeded get a stop hook, in the same order.\<close>

lemma start_modules_spec:
  assumes "start_modules env ctx ms s = (err, s')"
  shows "\<exists>n hs new. stops s' = stops s @ hs \<and> hook_modules (map hk_Run hs) = take n ms \<and>
    hook_modules (map hk_Run (starts s')) = hook_modules (map hk_Run (starts s)) \<and>
    bs_trace s' = bs_trace s @ new \<and> hook_log new = [] \<and> n \<le> length ms \<and>
    (if err = None then n = length ms \<and> start_log new = map (\<lambda>m. (m, None)) ms
     else n < length ms \<and> (\<exists>e. start_log new = map (\<lambda>m. (m, None)) (take n ms) @ [(ms ! n, Some e)] \<and>
       (\<forall>t. errors_Is err t \<longleftrightarrow> errors_Is (Some e) t)))"
  using assms
proof (induction ms arbitrary: s)
  case Nil
  then show ?case by (auto intro!: exI [of _ "[]"])
next
  case (Cons m ms)
  obtain r s1 where st: "Module_Start env ctx m s = (r, s1)" by (cases "Module_Start env ctx m s")
  obtain hs1 where s1: "stops s1 = stops s @ hs1" "hook_modules (map hk_Run hs1) = []"
    "hook_modules (map hk_Run (starts s1)) = hook_modules (map hk_Run (starts s))" "bs_trace s1 = bs_trace s @ [Started m r]"
    using Module_Start_extends [OF st] by (auto simp: extends_def stops_def starts_def)
  show ?case
  proof (cases r)
    case None
    define s2 where "s2 = s1\<lparr>bs_app := (bs_app s1)\<lparr>app_lifecycle :=
                 AppendStop (md_ModuleName m) (Some (StopOf m)) (app_lifecycle (bs_app s1))\<rparr>\<rparr>"
    have "start_modules env ctx ms s2 = (err, s')" using Cons.prems st None by (simp add: s2_def)
    then obtain n hs new where IH: "stops s' = stops s2 @ hs" "hook_modules (map hk_Run hs) = take n ms"
      "hook_modules (map hk_Run (starts s')) = hook_modules (map hk_Run (starts s2))"
      "bs_trace s' = bs_trace s2 @ new" "hook_log new = []" "n \<le> length ms"
      "if err = None then n = length ms \<and> start_log new = map (\<lambda>m. (m, None)) ms
     else n < length ms \<and> (\<exists>e. start_log new = map (\<lambda>m. (m, None)) (take n ms) @ [(ms ! n, Some e)] \<and>
       (\<forall>t. errors_Is err t \<longleftrightarrow> errors_Is (Some e) t))"
      using Cons.IH by blast
    have "stops s2 = stops s1 @ [\<lparr>hk_Name = md_ModuleName m, hk_Run = StopOf m\<rparr>]" "bs_trace s2 = bs_trace s1"
      "starts s2 = starts s1"
      by (simp_all add: s2_def stops_def starts_def AppendStop_def)
    with s1 IH None show ?thesis
      by (intro exI [of _ "Suc n"] exI [of _ "hs1 @ [\<lparr>hk_Name = md_ModuleName m, hk_Run = StopOf m\<rparr>] @ hs"]
          exI [of _ "Started m None # new"]) (auto split: if_splits)
  next
    case (Some e)
    with Cons.prems st s1 show ?thesis
      by (intro exI [of _ 0] exI [of _ hs1] exI [of _ "[Started m (Some e)]"]) auto
  qed
qed

lemma run_starts_spec:
  "run_starts env ctx hs s = (err, s') \<Longrightarrow>
     extends (bs_app s) (bs_app s') \<and> (\<exists>new. bs_trace s' = bs_trace s @ new \<and> start_log new = [] \<and>
       (hook_modules (map hk_Run hs) = [] \<longrightarrow> hook_modules (map fst (hook_log new)) = []))"
proof (induction hs arbitrary: s)
  case Nil
  then show ?case by simp
next
  case (Cons h hs)
  obtain r s1 where r: "Hook_Run env ctx (hk_Run h) s = (r, s1)" by (cases "Hook_Run env ctx (hk_Run h) s")
  note s1 = Hook_Run_extends [OF r]
  show ?case
  proof (cases r)
    case None
    with Cons.prems r have "run_starts env ctx hs s1 = (err, s')" by simp
    with Cons.IH obtain new where "extends (bs_app s1) (bs_app s')" "bs_trace s' = bs_trace s1 @ new" "start_log new = []"
      "hook_modules (map hk_Run hs) = [] \<longrightarrow> hook_modules (map fst (hook_log new)) = []"
      by blast
    with s1 show ?thesis
      by (cases "hk_Run h") (auto intro: extends_trans intro!: exI [of _ "HookRan (hk_Run h) r # new"])
  next
    case (Some e)
    with Cons.prems r s1 show ?thesis by (cases "hk_Run h") auto
  qed
qed

text \<open>The stop loop runs the hooks below its index in reverse and collects their errors.\<close>

lemma stop_loop_spec:
  "stop_loop env ctx n errs s = (errs', s') \<Longrightarrow> n \<le> length (stops s) \<Longrightarrow>
     \<exists>res. length res = n \<and> errs' = errs @ filter (\<lambda>e. e \<noteq> None) res \<and>
       bs_trace s' = bs_trace s @ map (\<lambda>(h, r). HookRan (hk_Run h) r) (zip (rev (take n (stops s))) res)"
proof (induction n arbitrary: errs s)
  case 0
  then show ?case by simp
next
  case (Suc i)
  let ?h = "stops s ! i"
  obtain r s1 where r: "Hook_Run env ctx (hk_Run ?h) s = (r, s1)" by (cases "Hook_Run env ctx (hk_Run ?h) s")
  from Hook_Run_extends [OF r] Suc.prems(2) have s1: "take i (stops s1) = take i (stops s)" "i \<le> length (stops s1)"
    "bs_trace s1 = bs_trace s @ [HookRan (hk_Run ?h) r]"
    by (auto simp: extends_def stops_def)
  have "stop_loop env ctx i (errs @ (if r = None then [] else [r])) s1 = (errs', s')"
    using Suc.prems(1) r by (cases r) (simp_all add: stops_def)
  from Suc.IH [OF this s1(2)] obtain res where "length res = i"
    "errs' = (errs @ (if r = None then [] else [r])) @ filter (\<lambda>e. e \<noteq> None) res"
    "bs_trace s' = bs_trace s1 @ map (\<lambda>(h, r). HookRan (hk_Run h) r) (zip (rev (take i (stops s1))) res)"
    by blast
  with s1 Suc.prems(2) show ?case
    by (intro exI [of _ "r # res"]) (simp add: take_Suc_conv_app_nth)
qed

lemma hook_log_ran: "hook_log (map (\<lambda>(h, r). HookRan (hk_Run h) r) xs) = map (\<lambda>(h, r). (hk_Run h, r)) xs"
  "start_log (map (\<lambda>(h, r). HookRan (hk_Run h) r) xs) = []"
  by (induction xs) auto

lemma hook_modules_rev: "hook_modules (rev fs) = rev (hook_modules fs)"
proof (induction fs)
  case (Cons f fs)
  then show ?case by (cases f) simp_all
qed simp

lemma Lifecycle_Stop_spec:
  assumes "Lifecycle_Stop env ctx s = (err, s')"
  shows "\<exists>res. length res = length (stops s) \<and> err = errors_Join res \<and>
    bs_trace s' = bs_trace s @ map (\<lambda>(h, r). HookRan (hk_Run h) r) (zip (rev (stops s)) res)"
proof -
  obtain errs where l: "stop_loop env ctx (length (stops s)) [] s = (errs, s')" "err = errors_Join errs"
    using assms by (auto simp: Lifecycle_Stop_def stops_def split: prod.splits)
  from stop_loop_spec [OF l(1)] obtain res where "length res = length (stops s)" "errs = filter (\<lambda>e. e \<noteq> None) res"
    "bs_trace s' = bs_trace s @ map (\<lambda>(h, r). HookRan (hk_Run h) r) (zip (rev (stops s)) res)"
    by auto
  with l(2) show ?thesis by (metis errors_Join_drop_nil)
qed

text \<open>
  Shutdown is complete: \<^verbatim>\<open>Lifecycle.Stop\<close> runs every stop hook registered when it begins, once,
  in reverse order of registration, whatever the earlier ones return; its result joins their
  errors in that order, so it is nil exactly when all of them succeeded.
\<close>

theorem Lifecycle_Stop_runs_all:
  "\<exists>res s'. Lifecycle_Stop env ctx s = (errors_Join res, s') \<and> length res = length (lc_stops (app_lifecycle (bs_app s))) \<and>
     bs_trace s' = bs_trace s @ map (\<lambda>(h, r). HookRan (hk_Run h) r) (zip (rev (lc_stops (app_lifecycle (bs_app s)))) res) \<and>
     (errors_Join res = None \<longleftrightarrow> filter (\<lambda>r. r \<noteq> None) res = [])"
proof -
  obtain err s' where "Lifecycle_Stop env ctx s = (err, s')" by (cases "Lifecycle_Stop env ctx s")
  with Lifecycle_Stop_spec [OF this] obtain res where "Lifecycle_Stop env ctx s = (errors_Join res, s')"
    "length res = length (stops s)"
    "bs_trace s' = bs_trace s @ map (\<lambda>(h, r). HookRan (hk_Run h) r) (zip (rev (stops s)) res)"
    by blast
  moreover have "errors_Join res = None \<longleftrightarrow> filter (\<lambda>r. r \<noteq> None) res = []"
    by (simp add: errors_Join_def Let_def map_filter_Nil_iff filter_empty_conv)
  ultimately show ?thesis by (auto simp: stops_def)
qed

section \<open>The whole run of an application\<close>

text \<open>An application as a service builds it: \<^verbatim>\<open>New\<close>, then \<^verbatim>\<open>Use\<close>.\<close>

definition fresh_app :: "'f Options \<Rightarrow> 'k Module list \<Rightarrow> 'w \<Rightarrow> ('k, 'f, 'w) boot" where
  "fresh_app opts ms w = \<lparr>bs_app = App_Use ms (App_New opts), bs_world = w, bs_trace = []\<rparr>"

text \<open>
  What the log says about the start of the modules \<open>ms\<close>: the first \<open>n\<close> succeeded, and if \<open>n\<close> is
  not all of them the next one failed with an error that \<open>err\<close> wraps.
\<close>

definition startup :: "'k Module list \<Rightarrow> nat \<Rightarrow> goerr option \<Rightarrow> ('k Module \<times> goerr option) list \<Rightarrow> bool" where
  "startup ms n err l \<longleftrightarrow>
     n \<le> length ms \<and>
     (if n = length ms then l = map (\<lambda>m. (m, None)) ms
      else (\<exists>e. l = map (\<lambda>m. (m, None)) (take n ms) @ [(ms ! n, Some e)] \<and>
                (\<forall>t. errors_Is err t \<longleftrightarrow> errors_Is (Some e) t)))"

lemma App_Start_spec:
  assumes "App_Start env ctx (fresh_app opts ms w) = (err, s')"
  shows "\<exists>n. startup ms n err (start_log (bs_trace s')) \<and> (n < length ms \<longrightarrow> err \<noteq> None) \<and>
    hook_modules (map hk_Run (stops s')) = take n ms \<and> hook_modules (map fst (hook_log (bs_trace s'))) = []"
proof -
  have fresh: "stops (fresh_app opts ms w) = []" "starts (fresh_app opts ms w) = []"
    "bs_trace (fresh_app opts ms w) = []" "app_modules (bs_app (fresh_app opts ms w)) = ms"
    by (simp_all add: fresh_app_def stops_def starts_def App_Use_def App_New_def Let_def)
  obtain r s1 where st: "start_modules env ctx ms (fresh_app opts ms w) = (r, s1)"
    by (cases "start_modules env ctx ms (fresh_app opts ms w)")
  obtain n where n: "hook_modules (map hk_Run (stops s1)) = take n ms" "hook_modules (map hk_Run (starts s1)) = []"
    "hook_log (bs_trace s1) = []" "n \<le> length ms"
    and log: "if r = None then n = length ms \<and> start_log (bs_trace s1) = map (\<lambda>m. (m, None)) ms
     else n < length ms \<and> (\<exists>e. start_log (bs_trace s1) = map (\<lambda>m. (m, None)) (take n ms) @ [(ms ! n, Some e)] \<and>
       (\<forall>t. errors_Is r t \<longleftrightarrow> errors_Is (Some e) t))"
    using start_modules_spec [OF st] by (auto simp: fresh)
  show ?thesis
  proof (cases r)
    case (Some e)
    with assms st have "s' = s1" "err = r" by (simp_all add: App_Start_def fresh)
    with n log Some show ?thesis by (intro exI [of _ n]) (auto simp: startup_def)
  next
    case None
    with assms st have "run_starts env ctx (starts s1) s1 = (err, s')"
      by (simp add: App_Start_def fresh Lifecycle_Start_def starts_def)
    from run_starts_spec [OF this] n(2) obtain new where "extends (bs_app s1) (bs_app s')"
      "bs_trace s' = bs_trace s1 @ new" "start_log new = []" "hook_modules (map fst (hook_log new)) = []"
      by blast
    with n log None show ?thesis
      by (intro exI [of _ n]) (auto simp: startup_def extends_def stops_def)
  qed
qed

lemma App_Stop_spec:
  assumes "App_Stop env ctx s = (err, s')"
  shows "start_log (bs_trace s') = start_log (bs_trace s) \<and>
    hook_modules (map fst (hook_log (bs_trace s'))) =
      hook_modules (map fst (hook_log (bs_trace s))) @ rev (hook_modules (map hk_Run (stops s)))"
proof -
  obtain res where res: "length res = length (stops s)"
    "bs_trace s' = bs_trace s @ map (\<lambda>(h, r). HookRan (hk_Run h) r) (zip (rev (stops s)) res)"
    using Lifecycle_Stop_spec assms unfolding App_Stop_def by blast
  have "map fst (map (\<lambda>(h, r). (hk_Run h, r)) (zip (rev (stops s)) res)) = map hk_Run (map fst (zip (rev (stops s)) res))"
    by (induction "zip (rev (stops s)) res") auto
  with res show ?thesis
    by (simp add: hook_log_ran flip: hook_modules_rev rev_map)
qed

text \<open>
  C3. Graceful shutdown: whenever \<^verbatim>\<open>Run\<close> returns, it has started the modules in the order of
  \<^verbatim>\<open>Use\<close> up to the first failure, and stopped exactly those that started successfully, once
  each, in reverse order; a module whose start failed is not stopped, and if one failed the
  error of \<^verbatim>\<open>Run\<close> wraps its error. It holds whatever hooks, values, adapters or modules the
  callbacks and other goroutines add on the way.
\<close>

theorem App_Run_unwinds:
  assumes "App_Run env wait ctx (fresh_app opts ms w) = Some (err, s')"
  shows "\<exists>n. startup ms n err (start_log (bs_trace s')) \<and> (n < length ms \<longrightarrow> err \<noteq> None) \<and>
    hook_modules (map fst (hook_log (bs_trace s'))) = rev (take n ms)"
proof -
  obtain r s1 where st: "App_Start env ctx (fresh_app opts ms w) = (r, s1)"
    by (cases "App_Start env ctx (fresh_app opts ms w)")
  obtain n where n: "startup ms n r (start_log (bs_trace s1))" "n < length ms \<longrightarrow> r \<noteq> None"
    "hook_modules (map hk_Run (stops s1)) = take n ms" "hook_modules (map fst (hook_log (bs_trace s1))) = []"
    using App_Start_spec [OF st] by blast
  show ?thesis
  proof (cases r)
    case (Some e)
    obtain r2 s2 where sp: "App_Stop env ctx s1 = (r2, s2)" by (cases "App_Stop env ctx s1")
    with assms st Some have "s' = s2" "err = r" by (simp_all add: App_Run_def)
    with n App_Stop_spec [OF sp] show ?thesis by auto
  next
    case None
    with assms st obtain calls v where wt: "wait ctx (bs_app s1) (bs_world s1) = Some (calls, v)"
      and sp: "App_Stop env ctx (s1\<lparr>bs_app := fold do_call calls (bs_app s1), bs_world := v\<rparr>) = (err, s')"
      by (auto simp: App_Run_def WaitForSignal_def split: option.splits)
    have "hook_modules (map hk_Run (lc_stops (app_lifecycle (fold do_call calls (bs_app s1))))) = take n ms"
      using n(3) do_calls_extend [of "bs_app s1" calls] by (auto simp: extends_def stops_def)
    moreover have "n = length ms" using n(1,2) None by (auto simp: startup_def)
    ultimately show ?thesis using n App_Stop_spec [OF sp] by (auto simp: startup_def stops_def)
  qed
qed

definition demo_module :: "nat \<Rightarrow> nat Module" where
  "demo_module k = \<lparr>md_ModuleName = ''m'', md_StartFn = Some k, md_StopFn = Some (k + 100)\<rparr>"

text \<open>Callback 2 fails; callback 1 appends a stop hook of its own.\<close>

definition demo_env :: "(nat, unit, unit, unit) benv" where
  "demo_env = \<lparr>be_callback = (\<lambda>k _ _ _. (if k = 2 then Some ErrAdapterNotFound else None,
                               if k = 1 then [CallAppendStop ''x'' (Some 50)] else [], ())),
               be_quote = id\<rparr>"

theorem App_Run_unwinds_witness:
  "\<exists>s'. App_Run demo_env (\<lambda>_ _ _. None) (BaseCtx ())
     (fresh_app \<lparr>op_Config = ANil, op_Logger = ANil, op_Registry = None, op_ShutdownTimeout = 5\<rparr>
        [demo_module 1, demo_module 2, demo_module 3] ()) =
     Some (Some (WrapErr ''bootstrap: start module m: bootstrap: adapter not found'' ErrAdapterNotFound), s') \<and>
     hook_modules (map fst (hook_log (bs_trace s'))) = [demo_module 1]"
proof -
  let ?s = "fresh_app \<lparr>op_Config = ANil, op_Logger = ANil, op_Registry = None, op_ShutdownTimeout = 5\<rparr>
        [demo_module 1, demo_module 2, demo_module 3] ()"
  let ?e = "Some (WrapErr ''bootstrap: start module m: bootstrap: adapter not found'' ErrAdapterNotFound)"
  obtain s' where s': "App_Run demo_env (\<lambda>_ _ _. None) (BaseCtx ()) ?s = Some (?e, s')"
    "start_log (bs_trace s') = [(demo_module 1, None), (demo_module 2, Some ErrAdapterNotFound)]"
    by (simp add: App_Run_def App_Start_def fresh_app_def App_Use_def App_New_def Module_Start_def invoke_def
        demo_env_def demo_module_def AppendStop_def log_ran_def App_Stop_def Lifecycle_Stop_def Hook_Run_def
        ErrAdapterNotFound_def)
  obtain n where "startup [demo_module 1, demo_module 2, demo_module 3] n ?e (start_log (bs_trace s'))"
    "hook_modules (map fst (hook_log (bs_trace s'))) = rev (take n [demo_module 1, demo_module 2, demo_module 3])"
    using App_Run_unwinds [OF s'(1)] by blast
  moreover from this(1) s'(2) have "n = 1"
    by (auto simp: startup_def le_Suc_eq split: if_splits)
  ultimately show ?thesis using s'(1) by simp
qed

section \<open>The registry\<close>

lemma Registry_after_Register:
  "ar_factories (Registry_Register kind driver f r) k =
     (if k = kind then Some ((case ar_factories r kind of None \<Rightarrow> Map.empty | Some ds \<Rightarrow> ds)(driver \<mapsto> f))
      else ar_factories r k)"
  by (auto simp: Registry_Register_def Let_def split: option.split)

definition lookup_factory :: "'f AdapterRegistry \<Rightarrow> string \<Rightarrow> string \<Rightarrow> 'f option" where
  "lookup_factory r kind driver = (case ar_factories r kind of None \<Rightarrow> None | Some ds \<Rightarrow> ds driver)"

lemma lookup_registered:
  "lookup_factory (fold (\<lambda>(k, d, f). Registry_Register k d f) rs r) kind driver =
     (case map_of (rev (map (\<lambda>(k, d, f). ((k, d), f)) rs)) (kind, driver) of
        Some f \<Rightarrow> Some f | None \<Rightarrow> lookup_factory r kind driver)"
proof (induction rs arbitrary: r rule: rev_induct)
  case Nil
  then show ?case by simp
next
  case (snoc x rs)
  obtain k d f where x: "x = (k, d, f)" by (cases x)
  have "lookup_factory (Registry_Register k d f r') kind driver =
      (if (k, d) = (kind, driver) then Some f else lookup_factory r' kind driver)" for r'
    by (auto simp: lookup_factory_def Registry_after_Register split: option.split)
  with snoc.IH x show ?case by auto
qed

text \<open>
  The registry is a map on (kind, driver) pairs: after any registrations, \<^verbatim>\<open>Build\<close> runs the
  factory registered last for the pair; for any other pair it returns an error that is
  \<^verbatim>\<open>ErrAdapterNotFound\<close> and runs nothing. Registering one driver never hides another of the
  same kind.
\<close>

theorem Registry_Build_last:
  "let r = fold (\<lambda>(k, d, f). Registry_Register k d f) rs NewAdapterRegistry
   in case map_of (rev (map (\<lambda>(k, d, f). ((k, d), f)) rs)) (kind, driver) of
        Some f \<Rightarrow> Registry_Build quote run ctx kind driver cfg r w = run f ctx cfg w
      | None \<Rightarrow> (\<exists>e. Registry_Build quote run ctx kind driver cfg r w = (ANil, Some e, w) \<and>
                   errors_Is (Some e) ErrAdapterNotFound)"
proof -
  let ?r = "fold (\<lambda>(k, d, f). Registry_Register k d f) rs NewAdapterRegistry"
  have "lookup_factory ?r kind driver = map_of (rev (map (\<lambda>(k, d, f). ((k, d), f)) rs)) (kind, driver)"
    using lookup_registered [of rs NewAdapterRegistry kind driver]
    by (simp add: lookup_factory_def NewAdapterRegistry_def split: option.splits)
  then show ?thesis
    by (auto simp: Let_def Registry_Build_def Registry_Resolve_def lookup_factory_def ErrAdapterNotFound_def
        split: option.splits)
qed

end
