(* ===== verification/Event_Router.thy ===== *)
theory Event_Router
  imports Middleware Errorsx
begin

text \<open>
  \<^verbatim>\<open>eventbus/\<close>: the envelope, the middleware chain and the router. A dispatcher gets the
  context, the event and the world its handler works on. Handlers are registered before \<^verbatim>\<open>Run\<close>;
  the subscription channel is given as the sequence of outcomes of \<^verbatim>\<open>select\<close>. The calls of
  \<^verbatim>\<open>Ack\<close> and \<^verbatim>\<open>Nack\<close> on transport messages are logged in the order they are made; what the broker
  does with them is not part of the program.

  Shown: which handlers a delivered event runs, and that every delivered message is settled
  exactly once, in order, with \<^verbatim>\<open>Nack\<close> exactly when a handler failed.
\<close>

section \<open>handler.go\<close>

type_synonym ('c, 'e, 'w) ev_dispatcher = "'c \<Rightarrow> 'e \<Rightarrow> 'w \<Rightarrow> goerr option \<times> 'w"

definition ev_Chain :: "(('c, 'e, 'w) ev_dispatcher \<Rightarrow> ('c, 'e, 'w) ev_dispatcher) list
    \<Rightarrow> ('c, 'e, 'w) ev_dispatcher \<Rightarrow> ('c, 'e, 'w) ev_dispatcher" where
  "ev_Chain mws next' = for_down (length mws) (\<lambda>i next'. (mws ! i) next') next'"

section \<open>bus.go\<close>

record ('e, 'm) Envelope =
  env_Event :: 'e
  env_Name :: string
  env_Raw :: "'m option"

datatype settlement = Acked | Nacked

type_synonym 'm settle_log = "('m \<times> settlement) list"

definition Envelope_Ack :: "('e, 'm) Envelope \<Rightarrow> 'm settle_log \<Rightarrow> 'm settle_log" where
  "Envelope_Ack env l = (case env_Raw env of None \<Rightarrow> l | Some m \<Rightarrow> l @ [(m, Acked)])"

definition Envelope_Nack :: "('e, 'm) Envelope \<Rightarrow> 'm settle_log \<Rightarrow> 'm settle_log" where
  "Envelope_Nack env l = (case env_Raw env of None \<Rightarrow> l | Some m \<Rightarrow> l @ [(m, Nacked)])"

section \<open>router.go\<close>

definition ErrEventMismatch :: goerr where [sentinel_defs]:
  "ErrEventMismatch = Sentinel ''eventbus: event type mismatch''"

record ('c, 'e, 'm, 'w) Router =
  rt_middlewares :: "(('c, 'e, 'w) ev_dispatcher \<Rightarrow> ('c, 'e, 'w) ev_dispatcher) list"
  rt_handlers :: "string \<Rightarrow> ('c, 'e, 'w) ev_dispatcher list"
  rt_onUnknown :: "('c \<Rightarrow> ('e, 'm) Envelope \<Rightarrow> 'w \<Rightarrow> 'w) option"

definition NewRouter :: "(('c, 'e, 'w) ev_dispatcher \<Rightarrow> ('c, 'e, 'w) ev_dispatcher) list \<Rightarrow> ('c, 'e, 'm, 'w) Router" where
  "NewRouter mws = \<lparr>rt_middlewares = mws, rt_handlers = (\<lambda>_. []), rt_onUnknown = None\<rparr>"

definition OnUnknown :: "('c \<Rightarrow> ('e, 'm) Envelope \<Rightarrow> 'w \<Rightarrow> 'w) option \<Rightarrow> ('c, 'e, 'm, 'w) Router \<Rightarrow> ('c, 'e, 'm, 'w) Router" where
  "OnUnknown fn r = r\<lparr>rt_onUnknown := fn\<rparr>"

definition Router_RegisterHandler :: "string \<Rightarrow> ('c, 'e, 'w) ev_dispatcher \<Rightarrow> ('c, 'e, 'm, 'w) Router \<Rightarrow> ('c, 'e, 'm, 'w) Router" where
  "Router_RegisterHandler name fn r =
     (let wrapped = ev_Chain (rt_middlewares r) fn
      in r\<lparr>rt_handlers := (rt_handlers r)(name := rt_handlers r name @ [wrapped])\<rparr>)"

text \<open>The dispatcher that \<^verbatim>\<open>Register\<close> builds; \<open>as_E\<close> is the type assertion to the handler's event type.\<close>

definition Router_Register :: "('e \<Rightarrow> 't option) \<Rightarrow> string \<Rightarrow> ('c \<Rightarrow> 't \<Rightarrow> 'w \<Rightarrow> goerr option \<times> 'w)
    \<Rightarrow> ('c, 'e, 'm, 'w) Router \<Rightarrow> ('c, 'e, 'm, 'w) Router" where
  "Router_Register as_E name h r =
     Router_RegisterHandler name
       (\<lambda>ctx e w. case as_E e of None \<Rightarrow> (Some ErrEventMismatch, w) | Some typed \<Rightarrow> h ctx typed w) r"

fun dispatch_loop :: "'c \<Rightarrow> 'e \<Rightarrow> ('c, 'e, 'w) ev_dispatcher list \<Rightarrow> 'w \<Rightarrow> goerr option \<times> 'w" where
  "dispatch_loop ctx e [] w = (None, w)"
| "dispatch_loop ctx e (fn # fns) w =
     (case fn ctx e w of
        (Some err, w) \<Rightarrow> (Some err, w)
      | (None, w) \<Rightarrow> dispatch_loop ctx e fns w)"

definition Router_dispatch :: "('c, 'e, 'm, 'w) Router \<Rightarrow> 'c \<Rightarrow> ('e, 'm) Envelope \<Rightarrow> 'w \<Rightarrow> goerr option \<times> 'w" where
  "Router_dispatch r ctx env w =
     (let fns = rt_handlers r (env_Name env)
      in if length fns = 0 then
           (case rt_onUnknown r of None \<Rightarrow> (None, w) | Some f \<Rightarrow> (None, f ctx env w))
         else dispatch_loop ctx (env_Event env) fns w)"

text \<open>
  One outcome of \<^verbatim>\<open>select\<close>: the context is done, an envelope was received, or the channel is
  closed. A list of outcomes is what happens until the observation ends; a run that has not
  returned by then has the result \<^term>\<open>None\<close>. A failed subscription returns at once.
\<close>

datatype ('e, 'm) selected = CtxDone | Received "('e, 'm) Envelope" | ChanClosed

fun run_loop :: "('c, 'e, 'm, 'w) Router \<Rightarrow> 'c \<Rightarrow> goerr \<Rightarrow> ('e, 'm) selected list \<Rightarrow> 'w \<Rightarrow> 'm settle_log
    \<Rightarrow> goerr option option \<times> 'w \<times> 'm settle_log" where
  "run_loop r ctx ctxErr [] w l = (None, w, l)"
| "run_loop r ctx ctxErr (CtxDone # xs) w l = (Some (Some ctxErr), w, l)"
| "run_loop r ctx ctxErr (ChanClosed # xs) w l = (Some None, w, l)"
| "run_loop r ctx ctxErr (Received env # xs) w l =
     (case Router_dispatch r ctx env w of
        (Some err, w) \<Rightarrow> run_loop r ctx ctxErr xs w (Envelope_Nack env l)
      | (None, w) \<Rightarrow> run_loop r ctx ctxErr xs w (Envelope_Ack env l))"

definition Router_Run :: "('c \<Rightarrow> string \<Rightarrow> goerr + ('e, 'm) selected list) \<Rightarrow> ('c, 'e, 'm, 'w) Router \<Rightarrow> 'c \<Rightarrow> goerr
    \<Rightarrow> string \<Rightarrow> 'w \<Rightarrow> 'm settle_log \<Rightarrow> goerr option option \<times> 'w \<times> 'm settle_log" where
  "Router_Run Subscribe r ctx ctxErr topic w l =
     (case Subscribe ctx topic of
        Inl e \<Rightarrow> (Some (Some e), w, l)
      | Inr ch \<Rightarrow> run_loop r ctx ctxErr ch w l)"

section \<open>The contracts hold\<close>

interpretation evc: middleware_chain ev_Chain
  by unfold_locales (simp_all add: ev_Chain_def for_down_Cons del: for_down.simps(2))

section \<open>Facts\<close>

lemma router_wiring:
  "rt_handlers (fold (\<lambda>(n, f). Router_RegisterHandler n f) rs r) name =
     rt_handlers r name @ map (ev_Chain (rt_middlewares r)) (map snd (filter (\<lambda>(n, f). n = name) rs)) \<and>
   rt_middlewares (fold (\<lambda>(n, f). Router_RegisterHandler n f) rs r) = rt_middlewares r \<and>
   rt_onUnknown (fold (\<lambda>(n, f). Router_RegisterHandler n f) rs r) = rt_onUnknown r"
  by (induction rs arbitrary: r) (auto simp: Router_RegisterHandler_def)

text \<open>
  Fan-out: on a router wired with any list of registrations, an event runs the handlers
  registered under its name, all of them, in order of registration, each wrapped by the
  middlewares with the first outermost, until one fails; an event with no handler only runs
  the unknown-event callback and counts as handled.
\<close>

theorem router_dispatch_fanout:
  "Router_dispatch (fold (\<lambda>(n, f). Router_RegisterHandler n f) rs (OnUnknown u (NewRouter mws))) ctx env w =
     (let fs = map snd (filter (\<lambda>(n, f). n = env_Name env) rs)
      in if fs = [] then (None, (case u of None \<Rightarrow> w | Some f \<Rightarrow> f ctx env w))
         else dispatch_loop ctx (env_Event env) (map (foldr (\<lambda>m g. m g) mws) fs) w)"
proof -
  have "ev_Chain mws = foldr (\<lambda>m g. m g) mws" by (simp add: evc.chain_foldr fun_eq_iff)
  then show ?thesis
    by (simp add: Router_dispatch_def router_wiring OnUnknown_def NewRouter_def Let_def split: option.split)
qed

lemma dispatch_loop_split:
  "dispatch_loop ctx e (fs @ gs) w =
     (case dispatch_loop ctx e fs w of (Some err, w') \<Rightarrow> (Some err, w') | (None, w') \<Rightarrow> dispatch_loop ctx e gs w')"
  by (induction fs arbitrary: w) (auto split: prod.split option.split)

text \<open>The envelopes that a run receives, and the world in which each of them is dispatched.\<close>

fun deliveries :: "('c, 'e, 'm, 'w) Router \<Rightarrow> 'c \<Rightarrow> ('e, 'm) selected list \<Rightarrow> 'w \<Rightarrow> (('e, 'm) Envelope \<times> 'w) list" where
  "deliveries r ctx (Received env # xs) w = (env, w) # deliveries r ctx xs (snd (Router_dispatch r ctx env w))"
| "deliveries r ctx _ w = []"

text \<open>How each delivery has to be settled.\<close>

definition verdict :: "('c, 'e, 'm, 'w) Router \<Rightarrow> 'c \<Rightarrow> ('e, 'm) Envelope \<times> 'w \<Rightarrow> ('m \<times> settlement) option" where
  "verdict r ctx d = (case d of (env, w) \<Rightarrow>
     map_option (\<lambda>m. (m, if fst (Router_dispatch r ctx env w) = None then Acked else Nacked)) (env_Raw env))"

lemma verdict_pair:
  "verdict r ctx (env, w) =
     map_option (\<lambda>m. (m, if fst (Router_dispatch r ctx env w) = None then Acked else Nacked)) (env_Raw env)"
  by (simp add: verdict_def)

text \<open>The envelopes before the first outcome that ends the run.\<close>

fun received :: "('e, 'm) selected list \<Rightarrow> ('e, 'm) Envelope list" where
  "received (Received env # xs) = env # received xs"
| "received _ = []"

fun ending :: "goerr \<Rightarrow> ('e, 'm) selected list \<Rightarrow> goerr option option" where
  "ending ctxErr [] = None"
| "ending ctxErr (Received _ # xs) = ending ctxErr xs"
| "ending ctxErr (CtxDone # _) = Some (Some ctxErr)"
| "ending ctxErr (ChanClosed # _) = Some None"

lemma run_loop_log:
  "run_loop r ctx ctxErr xs w l = (res, w', l') \<Longrightarrow>
     l' = l @ List.map_filter (verdict r ctx) (deliveries r ctx xs w)"
proof (induction xs arbitrary: w l)
  case (Cons x xs)
  show ?case
  proof (cases x)
    case (Received env)
    obtain e w1 where d: "Router_dispatch r ctx env w = (e, w1)" by (cases "Router_dispatch r ctx env w")
    define l1 where "l1 = (if e = None then Envelope_Ack env l else Envelope_Nack env l)"
    have "run_loop r ctx ctxErr xs w1 l1 = (res, w', l')"
      using Cons.prems Received d by (cases e) (simp_all add: l1_def)
    then have "l' = l1 @ List.map_filter (verdict r ctx) (deliveries r ctx xs w1)" by (rule Cons.IH)
    with Received d show ?thesis
      by (auto simp: l1_def Envelope_Ack_def Envelope_Nack_def verdict_pair split: option.splits)
  qed (use Cons.prems in simp_all)
qed simp

lemma run_loop_result: "fst (run_loop r ctx ctxErr xs w l) = ending ctxErr xs"
proof (induction xs arbitrary: w l)
  case (Cons x xs)
  then show ?case by (cases x) (auto split: prod.split option.split)
qed simp

lemma deliveries_received: "map fst (deliveries r ctx xs w) = received xs"
  by (induction r ctx xs w rule: deliveries.induct) auto

text \<open>
  C18. Settlement: every envelope received before the run ends is settled exactly once, in the
  order of delivery, with \<^verbatim>\<open>Ack\<close> when its dispatch returned nil and \<^verbatim>\<open>Nack\<close> otherwise (an envelope
  without a transport message is not settled). A failing handler does not end the run: it ends
  exactly at the first cancellation (with the context's error) or close of the channel (nil).
\<close>

theorem router_settles_each_delivery:
  "\<exists>w'. run_loop r ctx ctxErr xs w l =
      (ending ctxErr xs, w', l @ List.map_filter (verdict r ctx) (deliveries r ctx xs w)) \<and>
    map fst (deliveries r ctx xs w) = received xs"
proof -
  obtain res w' l' where rl: "run_loop r ctx ctxErr xs w l = (res, w', l')" by (cases "run_loop r ctx ctxErr xs w l")
  then have "res = ending ctxErr xs" using run_loop_result [of r ctx ctxErr xs w l] by simp
  with rl run_loop_log [OF rl] show ?thesis by (simp add: deliveries_received)
qed

end
