(* ===== verification/Inbox.thy ===== *)
theory Inbox
  imports Errorsx
begin

text \<open>
  \<^verbatim>\<open>eventbus/inbox.go\<close> and its conformance suite \<^verbatim>\<open>eventbus/inboxtest\<close>. The locale \<open>inbox\<close> is the
  documented contract of \<^verbatim>\<open>Inbox\<close>: the client lemma is that at-least-once delivery becomes
  effectively-once, and that an implementation that keeps the contract passes the suite. The
  suite is an executable function of the implementation under test. The in-memory reference
  inbox of the suite's own test instantiates the contract.
\<close>

section \<open>inbox.go\<close>

record InboxKey =
  ik_Consumer :: string
  ik_EventID :: string

definition ErrAlreadyRecorded :: goerr where [sentinel_defs]:
  "ErrAlreadyRecorded = Sentinel ''eventbus: inbox key already recorded''"

text \<open>The methods of an \<^verbatim>\<open>Inbox\<close> with state \<open>'s\<close>.\<close>

type_synonym 's inbox_seen = "gocontext \<Rightarrow> InboxKey \<Rightarrow> 's \<Rightarrow> bool \<times> goerr option \<times> 's"
type_synonym 's inbox_record = "gocontext \<Rightarrow> InboxKey \<Rightarrow> 's \<Rightarrow> goerr option \<times> 's"

definition ik_valid :: "InboxKey \<Rightarrow> bool" where
  "ik_valid key \<longleftrightarrow> ik_Consumer key \<noteq> [] \<and> ik_EventID key \<noteq> []"

section \<open>inboxtest.go\<close>

definition inbox_key :: "string \<Rightarrow> string \<Rightarrow> InboxKey" where
  "inbox_key c e = \<lparr>ik_Consumer = c, ik_EventID = e\<rparr>"

text \<open>The subtests of \<^verbatim>\<open>RunContract\<close>, in order, each on a fresh inbox \<open>s0\<close>; \<^term>\<open>True\<close> is a pass.\<close>

definition inbox_RunContract :: "'s inbox_seen \<Rightarrow> 's inbox_record \<Rightarrow> 's \<Rightarrow> (string \<times> bool) list" where
  "inbox_RunContract Seen Record s0 =
     (let ctx = context_Background; key = inbox_key ''consumer-a'' ''evt-1''
      in [(''SeenUnrecordedReturnsFalse'',
            let (seen, err, s) = Seen ctx key s0 in err = None \<and> \<not> seen),
          (''RecordThenSeenReturnsTrue'',
            let (err, s) = Record ctx key s0 in err = None \<and>
              (let (seen, err, s) = Seen ctx key s in err = None \<and> seen)),
          (''DuplicateRecordReturnsErrAlreadyRecorded'',
            let (err, s) = Record ctx key s0 in err = None \<and>
              (let (err, s) = Record ctx key s in errors_Is err ErrAlreadyRecorded)),
          (''PerConsumerIsolation'',
            let a = inbox_key ''consumer-a'' ''evt-shared''; b = inbox_key ''consumer-b'' ''evt-shared'';
                (err, s) = Record ctx a s0
            in err = None \<and>
              (let (err, s) = Record ctx b s in err = None \<and>
                (let (seenB, err, s) = Seen ctx b s in err = None \<and> seenB))),
          (''PerEventIsolation'',
            let e1 = inbox_key ''consumer-a'' ''evt-1''; e2 = inbox_key ''consumer-a'' ''evt-2'';
                (err, s) = Record ctx e1 s0
            in err = None \<and> (let (err, s) = Record ctx e2 s in err = None)),
          (''EmptyConsumerInvalidArgument'',
            let bad = inbox_key '''' ''evt-1''; (seen, err, s) = Seen ctx bad s0
            in CodeOf err = CodeInvalidArgument \<and>
              (let (err, s) = Record ctx bad s in CodeOf err = CodeInvalidArgument)),
          (''EmptyEventIDInvalidArgument'',
            let bad = inbox_key ''consumer-a'' ''''; (seen, err, s) = Seen ctx bad s0
            in CodeOf err = CodeInvalidArgument \<and>
              (let (err, s) = Record ctx bad s in CodeOf err = CodeInvalidArgument)),
          (''EmptyKeyPrecedesCancelledCtx'',
            let bad = inbox_key '''' ''evt-1''; (err, s) = Record cancelled_Background bad s0
            in CodeOf err = CodeInvalidArgument),
          (''ValidKeyCancelledCtxReturnsCtxError'',
            let (seen, err, s) = Seen cancelled_Background key s0
            in errors_Is err context_Canceled \<and>
              (let (err, s) = Record cancelled_Background key s in errors_Is err context_Canceled))])"

section \<open>inboxtest: the reference inbox\<close>

record referenceInbox =
  ri_seen :: "InboxKey set"

definition newReference :: referenceInbox where
  "newReference = \<lparr>ri_seen = {}\<rparr>"

definition inbox_validate :: "InboxKey \<Rightarrow> goerr option" where
  "inbox_validate key =
     (if ik_Consumer key = [] \<or> ik_EventID key = []
      then Some (err_of (New CodeInvalidArgument ''inboxtest: empty consumer or event id'')) else None)"

definition referenceInbox_Seen :: "referenceInbox inbox_seen" where
  "referenceInbox_Seen ctx key r =
     (case inbox_validate key of
        Some e \<Rightarrow> (False, Some e, r)
      | None \<Rightarrow> (case ctx_Err ctx of Some e \<Rightarrow> (False, Some e, r) | None \<Rightarrow> (key \<in> ri_seen r, None, r)))"

definition referenceInbox_Record :: "referenceInbox inbox_record" where
  "referenceInbox_Record ctx key r =
     (case inbox_validate key of
        Some e \<Rightarrow> (Some e, r)
      | None \<Rightarrow>
          (case ctx_Err ctx of
             Some e \<Rightarrow> (Some e, r)
           | None \<Rightarrow>
               if key \<in> ri_seen r then (Some ErrAlreadyRecorded, r)
               else (None, r\<lparr>ri_seen := insert key (ri_seen r)\<rparr>)))"

section \<open>The contract\<close>

text \<open>The consumers of a topic: each delivery tries to record its key.\<close>

fun record_all :: "'s inbox_record \<Rightarrow> (gocontext \<times> InboxKey) list \<Rightarrow> 's \<Rightarrow> (InboxKey \<times> goerr option) list \<times> 's" where
  "record_all Record [] s = ([], s)"
| "record_all Record ((ctx, key) # xs) s =
     (let (err, s1) = Record ctx key s; (res, s2) = record_all Record xs s1 in ((key, err) # res, s2))"

locale inbox =
  fixes Seen :: "'s inbox_seen"
    and Record :: "'s inbox_record"
    and empty_inbox :: 's
    and recorded :: "'s \<Rightarrow> InboxKey set"
  assumes recorded_empty: "recorded empty_inbox = {}"
    and seen_state: "recorded (snd (snd (Seen ctx key s))) = recorded s"
    and seen_invalid: "\<not> ik_valid key \<Longrightarrow> CodeOf (fst (snd (Seen ctx key s))) = CodeInvalidArgument"
    and seen_cancelled: "ik_valid key \<Longrightarrow> ctx_Err ctx = Some e \<Longrightarrow> fst (snd (Seen ctx key s)) = Some e"
    and seen_live: "ik_valid key \<Longrightarrow> ctx_Err ctx = None \<Longrightarrow>
          fst (snd (Seen ctx key s)) = None \<and> fst (Seen ctx key s) = (key \<in> recorded s)"
    and record_state: "recorded (snd (Record ctx key s)) =
          (if ik_valid key \<and> ctx_Err ctx = None then insert key (recorded s) else recorded s)"
    and record_invalid: "\<not> ik_valid key \<Longrightarrow> CodeOf (fst (Record ctx key s)) = CodeInvalidArgument"
    and record_cancelled: "ik_valid key \<Longrightarrow> ctx_Err ctx = Some e \<Longrightarrow> fst (Record ctx key s) = Some e"
    and record_duplicate: "ik_valid key \<Longrightarrow> ctx_Err ctx = None \<Longrightarrow> key \<in> recorded s \<Longrightarrow>
          errors_Is (fst (Record ctx key s)) ErrAlreadyRecorded"
    and record_new: "ik_valid key \<Longrightarrow> ctx_Err ctx = None \<Longrightarrow> key \<notin> recorded s \<Longrightarrow> fst (Record ctx key s) = None"
begin

lemmas laws = recorded_empty seen_state seen_invalid seen_cancelled seen_live
  record_state record_invalid record_cancelled record_duplicate record_new

lemma record_ok_iff:
  "fst (Record ctx key s) = None \<longleftrightarrow> ik_valid key \<and> ctx_Err ctx = None \<and> key \<notin> recorded s"
proof (cases "ik_valid key")
  case False
  then have "CodeOf (fst (Record ctx key s)) = CodeInvalidArgument" by (rule record_invalid)
  then have "fst (Record ctx key s) \<noteq> None" by (cases "fst (Record ctx key s)") (auto simp: code_defs)
  with False show ?thesis by simp
next
  case True
  then show ?thesis
    using record_cancelled [OF True] record_duplicate [OF True, of ctx s] record_new [OF True, of ctx s]
    by (cases "ctx_Err ctx"; cases "key \<in> recorded s"; cases "fst (Record ctx key s)") auto
qed

lemma record_all_once:
  "record_all Record xs s = (res, s') \<Longrightarrow>
     length (filter (\<lambda>r. r = (key, None)) res) =
       (if key \<notin> recorded s \<and> key \<in> recorded s' then 1 else 0) \<and>
     recorded s' = recorded s \<union> {k. \<exists>ctx. (ctx, k) \<in> set xs \<and> ik_valid k \<and> ctx_Err ctx = None}"
proof (induction xs arbitrary: s res)
  case Nil
  then show ?case by simp
next
  case (Cons x xs)
  obtain ctx k where x: "x = (ctx, k)" by (cases x)
  define s1 where "s1 = snd (Record ctx k s)"
  obtain res1 where ra: "record_all Record xs s1 = (res1, s')" and res: "res = (k, fst (Record ctx k s)) # res1"
    using Cons.prems by (auto simp: x s1_def split: prod.splits)
  have "recorded s1 = (if ik_valid k \<and> ctx_Err ctx = None then insert k (recorded s) else recorded s)"
    unfolding s1_def by (rule record_state)
  with Cons.IH [OF ra] record_ok_iff [of ctx k s] show ?case
    by (auto simp: x res split: if_splits)
qed

lemma suite_passes: "list_all snd (inbox_RunContract Seen Record empty_inbox)"
proof -
  have v: "ik_valid (inbox_key ''consumer-a'' ''evt-1'')" "ik_valid (inbox_key ''consumer-a'' ''evt-shared'')"
    "ik_valid (inbox_key ''consumer-b'' ''evt-shared'')" "ik_valid (inbox_key ''consumer-a'' ''evt-2'')"
    "\<not> ik_valid (inbox_key '''' ''evt-1'')" "\<not> ik_valid (inbox_key ''consumer-a'' '''')"
    by (simp_all add: ik_valid_def inbox_key_def)
  have d: "inbox_key ''consumer-b'' ''evt-shared'' \<noteq> inbox_key ''consumer-a'' ''evt-shared''"
    "inbox_key ''consumer-a'' ''evt-2'' \<noteq> inbox_key ''consumer-a'' ''evt-1''"
    by (simp_all add: inbox_key_def)
  show ?thesis
    by (simp add: inbox_RunContract_def Let_def split_beta laws v d context_Canceled_def)
qed

end

section \<open>The reference inbox keeps the contract\<close>

interpretation refinbox: inbox referenceInbox_Seen referenceInbox_Record newReference ri_seen
  by unfold_locales
    (auto simp: referenceInbox_Seen_def referenceInbox_Record_def inbox_validate_def ik_valid_def
      newReference_def ErrAlreadyRecorded_def split: option.splits)

text \<open>
  Effectively once: whatever sequence of deliveries with valid, invalid, live or cancelled
  contexts reaches the reference inbox, each key is recorded successfully at most once in
  total, exactly once if some delivery was valid with a live context, and the keys that
  \<^verbatim>\<open>Seen\<close> then reports are exactly those.
\<close>

theorem inbox_effectively_once:
  fixes xs :: "(gocontext \<times> InboxKey) list"
  shows "let (res, s) = record_all referenceInbox_Record xs newReference
   in length (filter (\<lambda>r. r = (key, None)) res) = (if key \<in> ri_seen s then 1 else 0) \<and>
      ri_seen s = {k. \<exists>ctx. (ctx, k) \<in> set xs \<and> ik_valid k \<and> ctx_Err ctx = None} \<and>
      (fst (referenceInbox_Seen context_Background key s) \<longleftrightarrow> key \<in> ri_seen s)"
proof -
  obtain res s where r: "record_all referenceInbox_Record xs newReference = (res, s)"
    by (cases "record_all referenceInbox_Record xs newReference")
  from refinbox.record_all_once [OF r, of key] have e: "ri_seen s = {k. \<exists>ctx. (ctx, k) \<in> set xs \<and> ik_valid k \<and> ctx_Err ctx = None}"
    "length (filter (\<lambda>r. r = (key, None)) res) = (if key \<in> ri_seen s then 1 else 0)"
    by (simp_all add: newReference_def)
  then have "fst (referenceInbox_Seen context_Background key s) \<longleftrightarrow> key \<in> ri_seen s"
    by (auto simp: referenceInbox_Seen_def inbox_validate_def ik_valid_def)
  with e r show ?thesis by simp
qed

text \<open>The reference inbox passes every subtest of the conformance suite.\<close>

theorem inbox_suite_passes:
  "list_all snd (inbox_RunContract referenceInbox_Seen referenceInbox_Record newReference) \<and>
   length (inbox_RunContract referenceInbox_Seen referenceInbox_Record newReference) = 9"
  using refinbox.suite_passes by (simp add: inbox_RunContract_def Let_def)

end
