(* ===== verification/Spec_Filter.thy ===== *)
theory Spec_Filter
  imports Go_Prelude
begin

text \<open>
  \<^verbatim>\<open>application/query/spec/spec.go\<close> (the specification pattern) and
  \<^verbatim>\<open>transport/graphql/spec_filter.go\<close>, which translates a filter tree from the wire into a
  specification. A leaf of the wire format has the type \<open>'l\<close>; the adapter's \<^verbatim>\<open>LeafBuilder\<close> is a
  parameter that returns an error, no specification (nil) or a specification. Leaf
  specifications that an adapter declares appear as \<open>predicateSpec\<close>.

  Shown: what a translated tree means, against a denotation of filter trees, with the first
  failing leaf as the error; double negation; what a node with several fields set means.
\<close>

section \<open>spec.go\<close>

datatype 't Specification =
    predicateSpec "'t \<Rightarrow> bool"
  | andSpec "'t Specification" "'t Specification"
  | orSpec "'t Specification" "'t Specification"
  | notSpec "'t Specification"

fun IsSatisfiedBy :: "'t Specification \<Rightarrow> 't \<Rightarrow> bool" where
  "IsSatisfiedBy (predicateSpec p) t = p t"
| "IsSatisfiedBy (andSpec l r) t = (IsSatisfiedBy l t \<and> IsSatisfiedBy r t)"
| "IsSatisfiedBy (orSpec l r) t = (IsSatisfiedBy l t \<or> IsSatisfiedBy r t)"
| "IsSatisfiedBy (notSpec s) t = (\<not> IsSatisfiedBy s t)"

definition spec_Predicate :: "('t \<Rightarrow> bool) \<Rightarrow> 't Specification" where
  "spec_Predicate p = predicateSpec p"
definition spec_And :: "'t Specification \<Rightarrow> 't Specification \<Rightarrow> 't Specification" where
  "spec_And l r = andSpec l r"
definition spec_Or :: "'t Specification \<Rightarrow> 't Specification \<Rightarrow> 't Specification" where
  "spec_Or l r = orSpec l r"
definition spec_Not :: "'t Specification \<Rightarrow> 't Specification" where
  "spec_Not s = notSpec s"

text \<open>The methods \<^verbatim>\<open>And\<close>, \<^verbatim>\<open>Or\<close>, \<^verbatim>\<open>Not\<close>: \<^verbatim>\<open>notSpec.Not\<close> unwraps instead of wrapping again.\<close>

definition method_And :: "'t Specification \<Rightarrow> 't Specification \<Rightarrow> 't Specification" where
  "method_And s o' = spec_And s o'"
definition method_Or :: "'t Specification \<Rightarrow> 't Specification \<Rightarrow> 't Specification" where
  "method_Or s o' = spec_Or s o'"

fun method_Not :: "'t Specification \<Rightarrow> 't Specification" where
  "method_Not (notSpec s) = s"
| "method_Not s = spec_Not s"

section \<open>spec_filter.go\<close>

datatype 'l FilterInput =
  FilterInput (fi_And: "'l FilterInput list") (fi_Or: "'l FilterInput list")
    (fi_Not: "'l FilterInput option") (fi_Leaf: "'l option")

text \<open>
  \<open>and_loop\<close> and \<open>or_loop\<close> are the two loops over the children; \<open>combined\<close> is the variable they
  accumulate in.
\<close>

fun BuildSpecification :: "('l \<Rightarrow> goerr + 't Specification option) \<Rightarrow> 'l FilterInput \<Rightarrow> goerr + 't Specification option"
  and and_loop :: "('l \<Rightarrow> goerr + 't Specification option) \<Rightarrow> 'l FilterInput list \<Rightarrow> 't Specification option
    \<Rightarrow> goerr + 't Specification option"
  and or_loop :: "('l \<Rightarrow> goerr + 't Specification option) \<Rightarrow> 'l FilterInput list \<Rightarrow> 't Specification option
    \<Rightarrow> goerr + 't Specification option" where
  "BuildSpecification leaf (FilterInput ands ors neg lf) =
     (case lf of
        Some l \<Rightarrow> leaf l
      | None \<Rightarrow>
          if ands \<noteq> [] then and_loop leaf ands None
          else if ors \<noteq> [] then or_loop leaf ors None
          else (case neg of
                  Some sub \<Rightarrow>
                    (case BuildSpecification leaf sub of
                       Inl e \<Rightarrow> Inl e
                     | Inr None \<Rightarrow> Inr None
                     | Inr (Some s) \<Rightarrow> Inr (Some (spec_Not s)))
                | None \<Rightarrow> Inr None))"
| "and_loop leaf [] combined = Inr combined"
| "and_loop leaf (sub # subs) combined =
     (case BuildSpecification leaf sub of
        Inl e \<Rightarrow> Inl e
      | Inr None \<Rightarrow> and_loop leaf subs combined
      | Inr (Some s) \<Rightarrow>
          and_loop leaf subs (Some (case combined of None \<Rightarrow> s | Some c \<Rightarrow> spec_And c s)))"
| "or_loop leaf [] combined = Inr combined"
| "or_loop leaf (sub # subs) combined =
     (case BuildSpecification leaf sub of
        Inl e \<Rightarrow> Inl e
      | Inr None \<Rightarrow> or_loop leaf subs combined
      | Inr (Some s) \<Rightarrow>
          or_loop leaf subs (Some (case combined of None \<Rightarrow> s | Some c \<Rightarrow> spec_Or c s)))"

section \<open>The meaning of a filter tree\<close>

text \<open>
  The denotation: a node without content means nothing (\<^term>\<open>None\<close>); a conjunction or
  disjunction ranges over the children that mean something.
\<close>

definition all_of :: "('t \<Rightarrow> bool) option list \<Rightarrow> ('t \<Rightarrow> bool) option" where
  "all_of ps = (case List.map_filter id ps of [] \<Rightarrow> None | qs \<Rightarrow> Some (\<lambda>t. list_all (\<lambda>q. q t) qs))"

definition any_of :: "('t \<Rightarrow> bool) option list \<Rightarrow> ('t \<Rightarrow> bool) option" where
  "any_of ps = (case List.map_filter id ps of [] \<Rightarrow> None | qs \<Rightarrow> Some (\<lambda>t. list_ex (\<lambda>q. q t) qs))"

fun denote :: "('l \<Rightarrow> ('t \<Rightarrow> bool) option) \<Rightarrow> 'l FilterInput \<Rightarrow> ('t \<Rightarrow> bool) option" where
  "denote m (FilterInput ands ors neg lf) =
     (case lf of
        Some l \<Rightarrow> m l
      | None \<Rightarrow>
          if ands \<noteq> [] then all_of (map (denote m) ands)
          else if ors \<noteq> [] then any_of (map (denote m) ors)
          else (case neg of Some sub \<Rightarrow> map_option (\<lambda>p t. \<not> p t) (denote m sub) | None \<Rightarrow> None))"

text \<open>The leaves that the translation visits, in its order.\<close>

fun active_leaves :: "'l FilterInput \<Rightarrow> 'l list" where
  "active_leaves (FilterInput ands ors neg lf) =
     (case lf of
        Some l \<Rightarrow> [l]
      | None \<Rightarrow>
          if ands \<noteq> [] then concat (map active_leaves ands)
          else if ors \<noteq> [] then concat (map active_leaves ors)
          else (case neg of Some sub \<Rightarrow> active_leaves sub | None \<Rightarrow> []))"

definition leaf_meaning :: "('l \<Rightarrow> goerr + 't Specification option) \<Rightarrow> 'l \<Rightarrow> ('t \<Rightarrow> bool) option" where
  "leaf_meaning leaf l = (case leaf l of Inl e \<Rightarrow> None | Inr s \<Rightarrow> map_option IsSatisfiedBy s)"

text \<open>The first error along a list of leaves.\<close>

fun first_error :: "('l \<Rightarrow> goerr + 'b) \<Rightarrow> 'l list \<Rightarrow> goerr option" where
  "first_error leaf [] = None"
| "first_error leaf (l # ls) = (case leaf l of Inl e \<Rightarrow> Some e | Inr _ \<Rightarrow> first_error leaf ls)"

section \<open>Facts\<close>

lemma first_error_append:
  "first_error leaf (xs @ ys) = (case first_error leaf xs of Some e \<Rightarrow> Some e | None \<Rightarrow> first_error leaf ys)"
  by (induction xs) (auto split: sum.split)

lemma IsSatisfiedBy_fun:
  "IsSatisfiedBy (andSpec l r) = (\<lambda>t. IsSatisfiedBy l t \<and> IsSatisfiedBy r t)"
  "IsSatisfiedBy (orSpec l r) = (\<lambda>t. IsSatisfiedBy l t \<or> IsSatisfiedBy r t)"
  "IsSatisfiedBy (notSpec s) = (\<lambda>t. \<not> IsSatisfiedBy s t)"
  by auto

lemma method_Not_sat [simp]: "IsSatisfiedBy (method_Not s) t = (\<not> IsSatisfiedBy s t)"
  by (cases s) (simp_all add: spec_Not_def)

lemmas spec_defs = spec_And_def spec_Or_def spec_Not_def spec_Predicate_def

text \<open>One statement per result of the three mutually recursive functions.\<close>

definition build_ok :: "('l \<Rightarrow> goerr + 't Specification option) \<Rightarrow> goerr + 't Specification option \<Rightarrow> 'l list
    \<Rightarrow> ('t \<Rightarrow> bool) option \<Rightarrow> bool" where
  "build_ok leaf r ls p \<longleftrightarrow>
     (case first_error leaf ls of
        Some e \<Rightarrow> r = Inl e
      | None \<Rightarrow> (\<exists>s. r = Inr s \<and> p = map_option IsSatisfiedBy s))"

lemma all_of_Cons:
  "all_of (None # ps) = all_of ps"
  "all_of (Some p # None # ps) = all_of (Some p # ps)"
  "all_of (Some p # Some q # ps) = all_of (Some (\<lambda>t. p t \<and> q t) # ps)"
  "all_of [] = None" "all_of [Some p] = Some p"
  by (auto simp: all_of_def split: list.split)

lemma any_of_Cons:
  "any_of (None # ps) = any_of ps"
  "any_of (Some p # None # ps) = any_of (Some p # ps)"
  "any_of (Some p # Some q # ps) = any_of (Some (\<lambda>t. p t \<or> q t) # ps)"
  "any_of [] = None" "any_of [Some p] = Some p"
  by (auto simp: any_of_def split: list.split)

lemma all_of_drop_None: "all_of (p # None # ps) = all_of (p # ps)"
  by (cases p) (simp_all add: all_of_Cons)

lemma any_of_drop_None: "any_of (p # None # ps) = any_of (p # ps)"
  by (cases p) (simp_all add: any_of_Cons)

lemma build_correct:
  "build_ok leaf (BuildSpecification leaf f) (active_leaves f) (denote (leaf_meaning leaf) f)"
  "build_ok leaf (and_loop leaf fs c) (concat (map active_leaves fs))
     (all_of (map_option IsSatisfiedBy c # map (denote (leaf_meaning leaf)) fs))"
  "build_ok leaf (or_loop leaf fs c) (concat (map active_leaves fs))
     (any_of (map_option IsSatisfiedBy c # map (denote (leaf_meaning leaf)) fs))"
proof (induction leaf f and leaf fs c and leaf fs c rule: BuildSpecification_and_loop_or_loop.induct)
  case (1 leaf ands ors neg lf)
  show ?case
  proof (cases lf)
    case (Some l)
    then show ?thesis by (auto simp: build_ok_def leaf_meaning_def split: sum.split option.split)
  next
    case None
    with 1 show ?thesis
      by (cases neg) (auto simp: build_ok_def all_of_Cons any_of_Cons spec_defs IsSatisfiedBy_fun
          split: option.splits sum.splits)
  qed
next
  case (2 leaf c)
  then show ?case by (cases c) (simp_all add: build_ok_def all_of_Cons)
next
  case (3 leaf sub subs c)
  show ?case
  proof (cases "BuildSpecification leaf sub")
    case (Inl e)
    with 3(1) show ?thesis by (auto simp: build_ok_def first_error_append split: option.splits)
  next
    case (Inr r)
    with 3(1) have r: "first_error leaf (active_leaves sub) = None" "denote (leaf_meaning leaf) sub = map_option IsSatisfiedBy r"
      by (auto simp: build_ok_def split: option.splits)
    show ?thesis
    proof (cases r)
      case None
      with Inr r 3(2) show ?thesis by (simp add: build_ok_def first_error_append all_of_drop_None)
    next
      case (Some s)
      with Inr r 3(3) [OF Inr Some] show ?thesis
        by (cases c) (simp_all add: build_ok_def first_error_append all_of_Cons spec_defs IsSatisfiedBy_fun)
    qed
  qed
next
  case (4 leaf c)
  then show ?case by (cases c) (simp_all add: build_ok_def any_of_Cons)
next
  case (5 leaf sub subs c)
  show ?case
  proof (cases "BuildSpecification leaf sub")
    case (Inl e)
    with 5(1) show ?thesis by (auto simp: build_ok_def first_error_append split: option.splits)
  next
    case (Inr r)
    with 5(1) have r: "first_error leaf (active_leaves sub) = None" "denote (leaf_meaning leaf) sub = map_option IsSatisfiedBy r"
      by (auto simp: build_ok_def split: option.splits)
    show ?thesis
    proof (cases r)
      case None
      with Inr r 5(2) show ?thesis by (simp add: build_ok_def first_error_append any_of_drop_None)
    next
      case (Some s)
      with Inr r 5(3) [OF Inr Some] show ?thesis
        by (cases c) (simp_all add: build_ok_def first_error_append any_of_Cons spec_defs IsSatisfiedBy_fun)
    qed
  qed
qed

text \<open>
  C21. A filter tree is translated to what it means: if a leaf on the path of the translation is
  refused by the adapter, the result is the error of the first such leaf; otherwise the
  result is nil for a tree without content, and else a specification that accepts exactly
  the values the tree denotes.
\<close>

theorem BuildSpecification_denotes:
  "case first_error leaf (active_leaves f) of
     Some e \<Rightarrow> BuildSpecification leaf f = Inl e
   | None \<Rightarrow> (\<exists>s. BuildSpecification leaf f = Inr s \<and>
                map_option IsSatisfiedBy s = denote (leaf_meaning leaf) f)"
  using build_correct(1) [of leaf f] by (auto simp: build_ok_def split: option.splits)


text \<open>
  The combinators are the boolean connectives on every value, and negating twice through the
  method gives back an equivalent specification; negating a negation gives the very same one.
\<close>

lemma spec_algebra:
  "IsSatisfiedBy (method_And s o') t = (IsSatisfiedBy s t \<and> IsSatisfiedBy o' t) \<and>
   IsSatisfiedBy (method_Or s o') t = (IsSatisfiedBy s t \<or> IsSatisfiedBy o' t) \<and>
   IsSatisfiedBy (method_Not s) t = (\<not> IsSatisfiedBy s t) \<and>
   method_Not (spec_Not s) = s \<and>
   IsSatisfiedBy (method_Not (method_Not s)) t = IsSatisfiedBy s t"
  by (simp add: method_And_def method_Or_def spec_defs)

end
