(* ===== verification/Cursor.thy ===== *)
theory Cursor
  imports Errorsx
begin

text \<open>
  \<^verbatim>\<open>transport/graphql/cursor.go\<close> and the part of \<^verbatim>\<open>pkg/pagination\<close> it uses. Cursors are encoded
  with \<^verbatim>\<open>base64.RawURLEncoding\<close> of the standard library, which is modelled as it behaves: groups
  of three bytes become four characters of the URL alphabet, no padding; the decoder skips
  carriage returns and line feeds, ignores unused trailing bits, and refuses every other
  character outside the alphabet and a single left over character.

  Shown: the round trip, the shape of encoded cursors, and that a client that follows the
  cursors of a connection asks for exactly the page that the server announced.
\<close>

section \<open>encoding/base64: RawURLEncoding\<close>

definition b64_alphabet :: string where
  "b64_alphabet = ''ABCDEFGHIJKLMNOPQRSTUVWXYZabcdefghijklmnopqrstuvwxyz0123456789-_''"

definition b64_char :: "nat \<Rightarrow> char" where
  "b64_char i = b64_alphabet ! i"

definition b64_value :: "char \<Rightarrow> nat option" where
  "b64_value c = map_of (zip b64_alphabet [0..<64]) c"

fun b64_encode_nums :: "nat list \<Rightarrow> nat list" where
  "b64_encode_nums (a # b # c # xs) =
     (let v = a * 65536 + b * 256 + c
      in v div 262144 # (v div 4096) mod 64 # (v div 64) mod 64 # v mod 64 # b64_encode_nums xs)"
| "b64_encode_nums [a, b] =
     (let v = a * 65536 + b * 256 in [v div 262144, (v div 4096) mod 64, (v div 64) mod 64])"
| "b64_encode_nums [a] = (let v = a * 65536 in [v div 262144, (v div 4096) mod 64])"
| "b64_encode_nums [] = []"

fun b64_decode_nums :: "nat list \<Rightarrow> nat list option" where
  "b64_decode_nums (a # b # c # d # xs) =
     (let v = a * 262144 + b * 4096 + c * 64 + d
      in map_option (\<lambda>ys. v div 65536 # (v div 256) mod 256 # v mod 256 # ys) (b64_decode_nums xs))"
| "b64_decode_nums [a, b, c] =
     (let v = a * 262144 + b * 4096 + c * 64 in Some [v div 65536, (v div 256) mod 256])"
| "b64_decode_nums [a, b] = (let v = a * 262144 + b * 4096 in Some [v div 65536])"
| "b64_decode_nums [a] = None"
| "b64_decode_nums [] = Some []"

definition b64_EncodeToString :: "string \<Rightarrow> string" where
  "b64_EncodeToString s = map b64_char (b64_encode_nums (map of_char s))"

definition b64_DecodeString :: "string \<Rightarrow> string option" where
  "b64_DecodeString s =
     (case those (map b64_value (filter (\<lambda>c. c \<noteq> CHR 0x0A \<and> c \<noteq> CHR 0x0D) s)) of
        None \<Rightarrow> None
      | Some ns \<Rightarrow> map_option (map char_of) (b64_decode_nums ns))"

section \<open>cursor.go: cursors\<close>

definition cursorPrefix :: string where "cursorPrefix = ''v1:''"

definition ErrInvalidCursor :: goerr where [sentinel_defs]:
  "ErrInvalidCursor = Sentinel ''graphql: invalid cursor''"
definition ErrUnsupportedDirection :: goerr where [sentinel_defs]:
  "ErrUnsupportedDirection = Sentinel ''graphql: backward pagination not supported''"

definition EncodeCursor :: "string \<Rightarrow> string" where
  "EncodeCursor payload = cursorPrefix @ b64_EncodeToString payload"

definition DecodeCursor :: "string \<Rightarrow> goerr + string" where
  "DecodeCursor cursor =
     (if take (length cursorPrefix) cursor \<noteq> cursorPrefix then Inl ErrInvalidCursor
      else (case b64_DecodeString (drop (length cursorPrefix) cursor) of
              None \<Rightarrow> Inl ErrInvalidCursor
            | Some raw \<Rightarrow> Inr raw))"

section \<open>pkg/pagination/page.go\<close>

record page_Cursor =
  pc_Token :: string
  pc_Size :: i64

record 't Page =
  pg_Items :: "'t list"
  pg_Total :: i64
  pg_NextCursor :: string

definition HasNext :: "'t Page \<Rightarrow> bool" where
  "HasNext p \<longleftrightarrow> pg_NextCursor p \<noteq> []"

section \<open>cursor.go: connections\<close>

record ConnectionArgs =
  ca_First :: "i64 option"
  ca_After :: "string option"
  ca_Last :: "i64 option"
  ca_Before :: "string option"

definition ToPageRequest :: "ConnectionArgs \<Rightarrow> goerr + page_Cursor" where
  "ToPageRequest args =
     (if ca_Last args \<noteq> None \<or> ca_Before args \<noteq> None then Inl ErrUnsupportedDirection
      else
        let c = \<lparr>pc_Token = [], pc_Size = 0\<rparr>;
            c = (case ca_First args of None \<Rightarrow> c | Some n \<Rightarrow> c\<lparr>pc_Size := n\<rparr>)
        in case ca_After args of
             None \<Rightarrow> Inr c
           | Some after \<Rightarrow>
               (case DecodeCursor after of
                  Inl e \<Rightarrow> Inl e
                | Inr payload \<Rightarrow> Inr (c\<lparr>pc_Token := payload\<rparr>)))"

record 't Edge =
  ed_Node :: 't
  ed_Cursor :: string

record PageInfo =
  pi_HasNextPage :: bool
  pi_HasPreviousPage :: bool
  pi_StartCursor :: string
  pi_EndCursor :: string

record 't Connection =
  cn_Edges :: "'t Edge list"
  cn_PageInfo :: PageInfo

definition BuildConnection :: "'t Page \<Rightarrow> ('t \<Rightarrow> string) \<Rightarrow> 't Connection" where
  "BuildConnection page cursorOf =
     (let edges = map (\<lambda>item. \<lparr>ed_Node = item, ed_Cursor = EncodeCursor (cursorOf item)\<rparr>) (pg_Items page);
          info = \<lparr>pi_HasNextPage = HasNext page, pi_HasPreviousPage = False, pi_StartCursor = [], pi_EndCursor = []\<rparr>;
          info = (if edges \<noteq> []
                  then info\<lparr>pi_StartCursor := ed_Cursor (edges ! 0), pi_EndCursor := ed_Cursor (edges ! (length edges - 1))\<rparr>
                  else info);
          info = (if pi_HasNextPage info \<and> pg_NextCursor page \<noteq> []
                  then info\<lparr>pi_EndCursor := EncodeCursor (pg_NextCursor page)\<rparr> else info)
      in \<lparr>cn_Edges = edges, cn_PageInfo = info\<rparr>)"

section \<open>Facts\<close>

lemma b64_value_char: "i < 64 \<Longrightarrow> b64_value (b64_char i) = Some i"
proof -
  have "\<forall>i\<in>set [0..<64]. b64_value (b64_char i) = Some i"
    by code_simp
  then show "i < 64 \<Longrightarrow> ?thesis" by auto
qed

lemma b64_char_plain: "i < 64 \<Longrightarrow> b64_char i \<noteq> CHR 0x0A \<and> b64_char i \<noteq> CHR 0x0D"
proof -
  have "\<forall>i\<in>set [0..<64]. b64_char i \<noteq> CHR 0x0A \<and> b64_char i \<noteq> CHR 0x0D"
    by code_simp
  then show "i < 64 \<Longrightarrow> ?thesis" by auto
qed

lemma triple_bounds:
  "a < 256 \<Longrightarrow> b < 256 \<Longrightarrow> c < 256 \<Longrightarrow> (a * 65536 + b * 256 + c) div 262144 < (64 :: nat)"
  by (simp add: div_less_iff_less_mult)

lemma b64_encode_range:
  "\<forall>x\<in>set xs. x < 256 \<Longrightarrow> \<forall>y\<in>set (b64_encode_nums xs). y < 64"
proof (induction xs rule: b64_encode_nums.induct)
  case (1 a b c xs)
  then show ?case using triple_bounds [of a b c] by (simp add: Let_def)
next
  case (2 a b)
  then show ?case using triple_bounds [of a b 0] by (simp add: Let_def)
next
  case (3 a)
  then show ?case using triple_bounds [of a 0 0] by (simp add: Let_def)
next
  case 4
  then show ?case by simp
qed

lemma sextets:
  "(v div 262144) * 262144 + (v div 4096 mod 64) * 4096 + (v div 64 mod 64) * 64 + v mod 64 = (v :: nat)"
proof -
  have "v div 64 div 64 = v div 4096" "v div 4096 div 64 = v div 262144"
    by (simp_all flip: div_mult2_eq)
  then have "v div 64 = v div 4096 * 64 + v div 64 mod 64" "v div 4096 = v div 262144 * 64 + v div 4096 mod 64"
    using div_mult_mod_eq [of "v div 64" 64] div_mult_mod_eq [of "v div 4096" 64] by simp_all
  moreover have "v = v div 64 * 64 + v mod 64" by simp
  ultimately show ?thesis by linarith
qed

lemma bytes:
  assumes "b < 256" "c < 256"
  shows "(a * 65536 + b * 256 + c) div 65536 = (a :: nat)" "(a * 65536 + b * 256 + c) div 256 mod 256 = b"
    "(a * 65536 + b * 256 + c) mod 256 = c"
proof -
  have *: "a * 65536 + b * 256 + c = (a * 256 + b) * 256 + c" by simp
  have 1: "(a * 65536 + b * 256 + c) div 256 = a * 256 + b"
    unfolding * using assms by (simp del: mult.commute)
  show "(a * 65536 + b * 256 + c) mod 256 = c" unfolding * using assms(2) by (metis mod_less mod_mult_self3)
  show "(a * 65536 + b * 256 + c) div 256 mod 256 = b" using 1 assms by simp
  have "(a * 65536 + b * 256 + c) div 65536 = (a * 65536 + b * 256 + c) div 256 div 256"
    by (simp flip: div_mult2_eq)
  then show "(a * 65536 + b * 256 + c) div 65536 = a" using 1 assms by simp
qed

lemma b64_decode_encode:
  "\<forall>x\<in>set xs. x < 256 \<Longrightarrow> b64_decode_nums (b64_encode_nums xs) = Some xs"
proof (induction xs rule: b64_encode_nums.induct)
  case (1 a b c xs)
  then show ?case by (simp add: Let_def sextets bytes)
next
  case (2 a b)
  have "a * 65536 + b * 256 = 64 * (a * 1024 + b * 4)" by simp
  then have "(a * 65536 + b * 256) mod 64 = 0" by (metis mod_mult_self1_is_0)
  with 2 sextets [of "a * 65536 + b * 256"] bytes [of b 0 a] show ?case by (simp add: Let_def)
next
  case (3 a)
  have "a * 65536 = 64 * (a * 1024)" by simp
  then have "a * 65536 mod 64 = 0" "a * 65536 div 64 = a * 1024"
    by (metis mod_mult_self1_is_0, simp)
  moreover have "a * 1024 = 64 * (a * 16)" by simp
  then have "a * 1024 mod 64 = 0" by (metis mod_mult_self1_is_0)
  ultimately show ?case using 3 sextets [of "a * 65536"] bytes [of 0 0 a] by (simp add: Let_def)
next
  case 4
  then show ?case by simp
qed

lemma those_map_Some: "(\<forall>x\<in>set xs. f x = Some (g x)) \<Longrightarrow> those (map f xs) = Some (map g xs)"
  by (induction xs) auto

lemma b64_round_trip: "b64_DecodeString (b64_EncodeToString s) = Some s"
proof -
  let ?ns = "b64_encode_nums (map of_char s)"
  have bytes: "\<forall>x\<in>set (map of_char s). x < (256 :: nat)" by auto
  note range = b64_encode_range [OF bytes]
  have "filter (\<lambda>c. c \<noteq> CHR 0x0A \<and> c \<noteq> CHR 0x0D) (map b64_char ?ns) = map b64_char ?ns"
    using range b64_char_plain by (auto simp: filter_id_conv)
  moreover have "those (map b64_value (map b64_char ?ns)) = Some ?ns"
    using range b64_value_char those_map_Some [of ?ns "\<lambda>n. b64_value (b64_char n)" id] by (simp add: comp_def)
  ultimately show ?thesis
    using b64_decode_encode [OF bytes] by (simp add: b64_DecodeString_def b64_EncodeToString_def comp_def)
qed

lemma decode_encode_cursor: "DecodeCursor (EncodeCursor p) = Inr p"
  by (simp add: DecodeCursor_def EncodeCursor_def b64_round_trip)

lemma DecodeCursor_error: "DecodeCursor c = Inl e \<Longrightarrow> e = ErrInvalidCursor"
  by (auto simp: DecodeCursor_def split: if_splits option.splits)

lemma DecodeCursor_Nil: "DecodeCursor [] = Inl ErrInvalidCursor"
  by (simp add: DecodeCursor_def cursorPrefix_def)

lemma set_b64: "set (b64_EncodeToString s) \<subseteq> set b64_alphabet"
proof -
  have "length b64_alphabet = 64" by code_simp
  moreover have "\<forall>y\<in>set (b64_encode_nums (map of_char s)). y < 64"
    by (rule b64_encode_range) auto
  ultimately show ?thesis
    by (auto simp: b64_EncodeToString_def b64_char_def intro!: nth_mem)
qed

text \<open>
  C22. Cursors round trip: decoding an encoded payload gives the payload, for every byte string;
  different payloads have different cursors; a cursor is the prefix followed by characters
  of the URL safe alphabet; every decoding error is \<^verbatim>\<open>ErrInvalidCursor\<close>.
\<close>

theorem cursor_round_trip:
  "DecodeCursor (EncodeCursor p) = Inr p \<and>
   (EncodeCursor p = EncodeCursor q \<longleftrightarrow> p = q) \<and>
   (\<exists>body. EncodeCursor p = ''v1:'' @ body \<and> set body \<subseteq> set b64_alphabet) \<and>
   (\<forall>c. DecodeCursor c \<in> {Inl ErrInvalidCursor} \<union> range Inr)"
proof -
  have "EncodeCursor p = EncodeCursor q \<longleftrightarrow> p = q"
    using decode_encode_cursor [of p] decode_encode_cursor [of q] by (metis sum.inject(2))
  moreover have "DecodeCursor c \<in> {Inl ErrInvalidCursor} \<union> range Inr" for c
    using DecodeCursor_error by (cases "DecodeCursor c") auto
  moreover have "EncodeCursor p = ''v1:'' @ b64_EncodeToString p"
    by (simp add: EncodeCursor_def cursorPrefix_def)
  ultimately show ?thesis
    using decode_encode_cursor [of p] set_b64 [of p] by blast
qed

text \<open>
  Following a connection: a client that repeats its request with the \<^verbatim>\<open>EndCursor\<close> of a
  connection as \<^verbatim>\<open>After\<close> asks for the page the server announced (\<^verbatim>\<open>NextCursor\<close>), and on the last
  page, if it has items, for what follows its last item; the page size is the \<^verbatim>\<open>First\<close> of the
  request. \<^verbatim>\<open>HasNextPage\<close> tells the two cases apart.
\<close>

theorem follow_connection:
  "let info = cn_PageInfo (BuildConnection page cursorOf);
       req = ToPageRequest \<lparr>ca_First = Some n, ca_After = Some (pi_EndCursor info), ca_Last = None, ca_Before = None\<rparr>
   in (if pg_NextCursor page \<noteq> [] then pi_HasNextPage info \<and> req = Inr \<lparr>pc_Token = pg_NextCursor page, pc_Size = n\<rparr>
       else \<not> pi_HasNextPage info \<and>
         (if pg_Items page \<noteq> [] then req = Inr \<lparr>pc_Token = cursorOf (last (pg_Items page)), pc_Size = n\<rparr>
          else pi_EndCursor info = [] \<and> req = Inl ErrInvalidCursor))"
  by (auto simp: BuildConnection_def ToPageRequest_def HasNext_def decode_encode_cursor Let_def last_conv_nth DecodeCursor_Nil)

end
