(* ===== verification/Storage.thy ===== *)
theory Storage
  imports Errorsx "HOL-Library.AList" "HOL-Library.List_Lexorder" "HOL-Library.Char_ord" "HOL-Library.Sublist"
begin

text \<open>
  \<^verbatim>\<open>ports/storage\<close>: the object storage contract, its conformance suite and the in-memory reference
  implementation of \<^verbatim>\<open>storagetest\<close>.

  The object map is an association list with distinct keys; \<^verbatim>\<open>List\<close> sorts the keys it ranges over,
  so the order of the list does not matter. The order on strings is the lexical order of bytes.
  A body reader is the result of reading it to the end: the bytes or an error. The clock is
  the argument \<open>now\<close>. \<open>quote\<close> is the verb \<^verbatim>\<open>%q\<close> of \<^verbatim>\<open>fmt\<close>, which only shapes an error text. \<^verbatim>\<open>Put\<close> and
  \<^verbatim>\<open>Stat\<close> clone the metadata map and \<^verbatim>\<open>Get\<close> clones the bytes, so stored values are values.

  The locale \<open>last_write_wins\<close> is the contract of a keyed store.
\<close>

section \<open>storage.go\<close>

record ObjectInfo =
  oi_Key :: string
  oi_Size :: int
  oi_ContentType :: string
  oi_ETag :: string
  oi_UpdatedAt :: int
  oi_Metadata :: "(string \<Rightarrow> string option) option"

record PutOptions =
  po_ContentType :: string
  po_Metadata :: "(string \<Rightarrow> string option) option"

record ListOptions =
  lo_Prefix :: string
  lo_Token :: string
  lo_Limit :: int

record ListPage =
  lp_Objects :: "ObjectInfo list"
  lp_NextToken :: string

definition storage_ErrNotFound :: goerr where [sentinel_defs]:
  "storage_ErrNotFound = Sentinel ''storage: object not found''"

text \<open>The methods of an \<^verbatim>\<open>ObjectStorage\<close> with state \<open>'s\<close>; the reading ones leave it alone.\<close>

record 's ObjectStorage =
  os_Put :: "gocontext \<Rightarrow> string \<Rightarrow> goerr + string \<Rightarrow> int \<Rightarrow> PutOptions \<Rightarrow> 's \<Rightarrow> goerr option \<times> 's"
  os_Get :: "gocontext \<Rightarrow> string \<Rightarrow> 's \<Rightarrow> goerr + string \<times> ObjectInfo"
  os_Stat :: "gocontext \<Rightarrow> string \<Rightarrow> 's \<Rightarrow> goerr + ObjectInfo"
  os_Delete :: "gocontext \<Rightarrow> string \<Rightarrow> 's \<Rightarrow> goerr option \<times> 's"
  os_List :: "gocontext \<Rightarrow> ListOptions \<Rightarrow> 's \<Rightarrow> goerr + ListPage"

section \<open>storagetest/reference.go\<close>

record memObject =
  mo_data :: string
  mo_contentType :: string
  mo_metadata :: "(string \<Rightarrow> string option) option"
  mo_updatedAt :: int

record memStorage =
  ms_objects :: "(string \<times> memObject) list"

definition newMemStorage :: memStorage where
  "newMemStorage = \<lparr>ms_objects = []\<rparr>"

definition errEmptyKey :: goerr where
  "errEmptyKey = err_of (New CodeInvalidArgument ''storagetest: empty key'')"

definition errContextDone :: "goerr \<Rightarrow> goerr" where
  "errContextDone e = err_of (Wrap CodeUnavailable ''storagetest: context done'' (Some e))"

definition memStorage_Put :: "int \<Rightarrow> gocontext \<Rightarrow> string \<Rightarrow> goerr + string \<Rightarrow> int \<Rightarrow> PutOptions \<Rightarrow> memStorage
    \<Rightarrow> goerr option \<times> memStorage" where
  "memStorage_Put now ctx key body sz opts m =
     (if key = [] then (Some errEmptyKey, m)
      else if sz < 0 then (Some (err_of (New CodeInvalidArgument ''storagetest: negative size'')), m)
      else
        (case ctx_Err ctx of
           Some e \<Rightarrow> (Some (errContextDone e), m)
         | None \<Rightarrow>
             (case body of
                Inl e \<Rightarrow> (Some (err_of (Wrap CodeUnavailable ''storagetest: read body'' (Some e))), m)
              | Inr data \<Rightarrow>
                  if int (length data) \<noteq> sz then
                    (Some (err_of (New CodeInvalidArgument
                       (''storagetest: declared size '' @ fmt_d sz @ '' != actual '' @ fmt_d (int (length data))))), m)
                  else
                    let ct = (if po_ContentType opts = [] then ''application/octet-stream'' else po_ContentType opts)
                    in (None, m\<lparr>ms_objects := AList.update key
                          \<lparr>mo_data = data, mo_contentType = ct, mo_metadata = po_Metadata opts, mo_updatedAt = now\<rparr>
                          (ms_objects m)\<rparr>))))"

definition memStorage_Stat :: "(string \<Rightarrow> string) \<Rightarrow> gocontext \<Rightarrow> string \<Rightarrow> memStorage \<Rightarrow> goerr + ObjectInfo" where
  "memStorage_Stat quote ctx key m =
     (if key = [] then Inl errEmptyKey
      else
        (case ctx_Err ctx of
           Some e \<Rightarrow> Inl (errContextDone e)
         | None \<Rightarrow>
             (case map_of (ms_objects m) key of
                None \<Rightarrow> Inl (WrapErr (''storagetest: '' @ quote key @ '': storage: object not found'') storage_ErrNotFound)
              | Some obj \<Rightarrow>
                  Inr \<lparr>oi_Key = key, oi_Size = int (length (mo_data obj)), oi_ContentType = mo_contentType obj,
                       oi_ETag = [], oi_UpdatedAt = mo_updatedAt obj, oi_Metadata = mo_metadata obj\<rparr>)))"

text \<open>The second lookup of \<^verbatim>\<open>Get\<close> reads the zero object, with no data, if the key is gone.\<close>

definition memStorage_Get :: "(string \<Rightarrow> string) \<Rightarrow> gocontext \<Rightarrow> string \<Rightarrow> memStorage \<Rightarrow> goerr + string \<times> ObjectInfo" where
  "memStorage_Get quote ctx key m =
     (case memStorage_Stat quote ctx key m of
        Inl e \<Rightarrow> Inl e
      | Inr info \<Rightarrow>
          (let data = (case map_of (ms_objects m) key of None \<Rightarrow> [] | Some obj \<Rightarrow> mo_data obj)
           in Inr (data, info)))"

definition memStorage_Delete :: "gocontext \<Rightarrow> string \<Rightarrow> memStorage \<Rightarrow> goerr option \<times> memStorage" where
  "memStorage_Delete ctx key m =
     (if key = [] then (Some errEmptyKey, m)
      else (case ctx_Err ctx of
              Some e \<Rightarrow> (Some (errContextDone e), m)
            | None \<Rightarrow> (None, m\<lparr>ms_objects := AList.delete key (ms_objects m)\<rparr>)))"

definition list_info :: "(string \<times> memObject) list \<Rightarrow> string \<Rightarrow> ObjectInfo" where
  "list_info objs k =
     (case map_of objs k of
        None \<Rightarrow> \<lparr>oi_Key = k, oi_Size = 0, oi_ContentType = [], oi_ETag = [], oi_UpdatedAt = 0, oi_Metadata = None\<rparr>
      | Some obj \<Rightarrow> \<lparr>oi_Key = k, oi_Size = int (length (mo_data obj)), oi_ContentType = mo_contentType obj,
                     oi_ETag = [], oi_UpdatedAt = mo_updatedAt obj, oi_Metadata = None\<rparr>)"

text \<open>The page building loop of \<^verbatim>\<open>List\<close>; \<open>acc\<close> is \<^verbatim>\<open>page.Objects\<close>.\<close>

fun list_loop :: "(string \<times> memObject) list \<Rightarrow> string \<Rightarrow> int \<Rightarrow> string list \<Rightarrow> ObjectInfo list \<Rightarrow> ListPage" where
  "list_loop objs token limit [] acc = \<lparr>lp_Objects = acc, lp_NextToken = []\<rparr>"
| "list_loop objs token limit (k # ks) acc =
     (if token \<noteq> [] \<and> k \<le> token then list_loop objs token limit ks acc
      else if int (length acc) = limit then \<lparr>lp_Objects = acc, lp_NextToken = oi_Key (acc ! nat (limit - 1))\<rparr>
      else list_loop objs token limit ks (acc @ [list_info objs k]))"

definition matching_keys :: "string \<Rightarrow> memStorage \<Rightarrow> string list" where
  "matching_keys pre m = sort (filter (prefix pre) (map fst (ms_objects m)))"

definition memStorage_List :: "gocontext \<Rightarrow> ListOptions \<Rightarrow> memStorage \<Rightarrow> goerr + ListPage" where
  "memStorage_List ctx opts m =
     (if lo_Limit opts \<le> 0 then Inl (err_of (New CodeInvalidArgument ''storagetest: non-positive limit''))
      else (case ctx_Err ctx of
              Some e \<Rightarrow> Inl (errContextDone e)
            | None \<Rightarrow>
                Inr (list_loop (ms_objects m) (lo_Token opts) (lo_Limit opts) (matching_keys (lo_Prefix opts) m) [])))"

section \<open>storagetest/storagetest.go\<close>

definition no_opts :: PutOptions where
  "no_opts = \<lparr>po_ContentType = [], po_Metadata = None\<rparr>"

definition with_type :: "string \<Rightarrow> PutOptions" where
  "with_type ct = \<lparr>po_ContentType = ct, po_Metadata = None\<rparr>"

text \<open>The helper \<^verbatim>\<open>put\<close> of the suite: a failed \<^verbatim>\<open>Put\<close> ends the subtest (\<^term>\<open>None\<close>).\<close>

definition suite_put :: "'s ObjectStorage \<Rightarrow> string \<Rightarrow> string \<Rightarrow> PutOptions \<Rightarrow> 's \<Rightarrow> 's option" where
  "suite_put os key body opts s =
     (case os_Put os context_Background key (Inr body) (int (length body)) opts s of
        (None, s') \<Rightarrow> Some s' | (Some e, s') \<Rightarrow> None)"

fun suite_puts :: "'s ObjectStorage \<Rightarrow> string list \<Rightarrow> 's \<Rightarrow> 's option" where
  "suite_puts os [] s = Some s"
| "suite_puts os (k # ks) s = (case suite_put os k ''v'' no_opts s of None \<Rightarrow> None | Some s' \<Rightarrow> suite_puts os ks s')"

definition is_err :: "goerr + 'a \<Rightarrow> goerr \<Rightarrow> bool" where
  "is_err r t = (case r of Inl e \<Rightarrow> errors_Is (Some e) t | Inr _ \<Rightarrow> False)"

definition has_code :: "goerr + 'a \<Rightarrow> string \<Rightarrow> bool" where
  "has_code r c = (case r of Inl e \<Rightarrow> CodeOf (Some e) = c | Inr _ \<Rightarrow> False)"

text \<open>The page loop of \<^verbatim>\<open>ListTokenWalkCompleteNoDupes\<close>; \<open>n\<close> counts down from the 21 pages it allows.\<close>

fun suite_walk :: "'s ObjectStorage \<Rightarrow> nat \<Rightarrow> string \<Rightarrow> string list \<Rightarrow> 's \<Rightarrow> string list option" where
  "suite_walk os 0 token got s = None"
| "suite_walk os (Suc n) token got s =
     (case os_List os context_Background \<lparr>lo_Prefix = ''w/'', lo_Token = token, lo_Limit = 3\<rparr> s of
        Inl e \<Rightarrow> None
      | Inr page \<Rightarrow>
          if length (lp_Objects page) > 3 then None
          else if \<not> distinct (got @ map oi_Key (lp_Objects page)) then None
          else if lp_NextToken page = [] then Some (got @ map oi_Key (lp_Objects page))
          else suite_walk os n (lp_NextToken page) (got @ map oi_Key (lp_Objects page)) s)"

definition st_PutGetRoundtrip :: "'s ObjectStorage \<Rightarrow> 's \<Rightarrow> bool" where
  "st_PutGetRoundtrip os s =
     (case suite_put os ''k'' ''hello'' (with_type ''text/plain'') s of
        None \<Rightarrow> False
      | Some s \<Rightarrow>
          (case os_Get os context_Background ''k'' s of
             Inl e \<Rightarrow> False
           | Inr (got, info) \<Rightarrow>
               got = ''hello'' \<and> oi_Key info = ''k'' \<and> oi_Size info = 5 \<and> oi_ContentType info = ''text/plain''))"

definition st_PutOverwriteWins :: "'s ObjectStorage \<Rightarrow> 's \<Rightarrow> bool" where
  "st_PutOverwriteWins os s =
     (case suite_put os ''k'' ''first'' (with_type ''text/plain'') s of
        None \<Rightarrow> False
      | Some s \<Rightarrow>
          (case suite_put os ''k'' ''second-longer'' (with_type ''application/json'') s of
             None \<Rightarrow> False
           | Some s \<Rightarrow>
               (case os_Get os context_Background ''k'' s of
                  Inl e \<Rightarrow> False
                | Inr (got, info) \<Rightarrow>
                    got = ''second-longer'' \<and> oi_Size info = int (length ''second-longer'') \<and>
                    oi_ContentType info = ''application/json'')))"

definition st_PutNegativeSizeInvalidArgument :: "'s ObjectStorage \<Rightarrow> 's \<Rightarrow> bool" where
  "st_PutNegativeSizeInvalidArgument os s =
     (CodeOf (fst (os_Put os context_Background ''k'' (Inr ''x'') (-1) no_opts s)) = CodeInvalidArgument)"

definition suite_metadata :: "string \<Rightarrow> string option" where
  "suite_metadata = map_of [(''request-id'', ''r-42''), (''owner'', ''orders'')]"

text \<open>Indexing a nil map, or a map without the key, gives the empty string.\<close>

definition metadata_has :: "ObjectInfo \<Rightarrow> bool" where
  "metadata_has info =
     (let md = (case oi_Metadata info of None \<Rightarrow> Map.empty | Some m \<Rightarrow> m);
          get = (\<lambda>k. case md k of None \<Rightarrow> [] | Some v \<Rightarrow> v)
      in get ''request-id'' = ''r-42'' \<and> get ''owner'' = ''orders'')"

definition st_MetadataRoundtripLowercaseKeys :: "'s ObjectStorage \<Rightarrow> 's \<Rightarrow> bool" where
  "st_MetadataRoundtripLowercaseKeys os s =
     (case suite_put os ''k'' ''v'' \<lparr>po_ContentType = ''text/plain'', po_Metadata = Some suite_metadata\<rparr> s of
        None \<Rightarrow> False
      | Some s \<Rightarrow>
          (case os_Stat os context_Background ''k'' s of
             Inl e \<Rightarrow> False
           | Inr info \<Rightarrow> metadata_has info \<and>
               (case os_Get os context_Background ''k'' s of Inl e \<Rightarrow> False | Inr (_, ginfo) \<Rightarrow> metadata_has ginfo)))"

definition st_MissingReturnsErrNotFound :: "'s ObjectStorage \<Rightarrow> 's \<Rightarrow> bool" where
  "st_MissingReturnsErrNotFound os s =
     (is_err (os_Get os context_Background ''absent'' s) storage_ErrNotFound \<and>
      is_err (os_Stat os context_Background ''absent'' s) storage_ErrNotFound)"

definition st_DeleteIsIdempotent :: "'s ObjectStorage \<Rightarrow> 's \<Rightarrow> bool" where
  "st_DeleteIsIdempotent os s =
     (case os_Delete os context_Background ''absent'' s of
        (Some e, s) \<Rightarrow> False
      | (None, s) \<Rightarrow>
          (case suite_put os ''k'' ''v'' no_opts s of
             None \<Rightarrow> False
           | Some s \<Rightarrow>
               (case os_Delete os context_Background ''k'' s of
                  (Some e, s) \<Rightarrow> False
                | (None, s) \<Rightarrow>
                    is_err (os_Stat os context_Background ''k'' s) storage_ErrNotFound \<and>
                    fst (os_Delete os context_Background ''k'' s) = None)))"

definition st_EmptyKeyPrecedesCancelledCtx :: "'s ObjectStorage \<Rightarrow> 's \<Rightarrow> bool" where
  "st_EmptyKeyPrecedesCancelledCtx os s =
     (CodeOf (fst (os_Put os cancelled_Background [] (Inr []) 0 no_opts s)) = CodeInvalidArgument \<and>
      has_code (os_Get os cancelled_Background [] s) CodeInvalidArgument \<and>
      has_code (os_Stat os cancelled_Background [] s) CodeInvalidArgument \<and>
      CodeOf (fst (os_Delete os cancelled_Background [] s)) = CodeInvalidArgument)"

definition st_ListLimitNonPositive :: "'s ObjectStorage \<Rightarrow> 's \<Rightarrow> bool" where
  "st_ListLimitNonPositive os s =
     list_all (\<lambda>limit. has_code (os_List os cancelled_Background \<lparr>lo_Prefix = [], lo_Token = [], lo_Limit = limit\<rparr> s)
                  CodeInvalidArgument) [0, -1]"

definition st_ListTokenWalkCompleteNoDupes :: "'s ObjectStorage \<Rightarrow> 's \<Rightarrow> bool" where
  "st_ListTokenWalkCompleteNoDupes os s =
     (let want = [''w/a'', ''w/b'', ''w/c'', ''w/d'', ''w/e'', ''w/f'', ''w/g'']
      in case suite_puts os want s of
           None \<Rightarrow> False
         | Some s \<Rightarrow>
             (case suite_walk os 21 [] [] s of
                None \<Rightarrow> False
              | Some got \<Rightarrow> length got = length want \<and> list_all (\<lambda>k. k \<in> set got) want))"

definition st_ListPrefixFilters :: "'s ObjectStorage \<Rightarrow> 's \<Rightarrow> bool" where
  "st_ListPrefixFilters os s =
     (case suite_puts os [''a/1'', ''a/2'', ''b/1''] s of
        None \<Rightarrow> False
      | Some s \<Rightarrow>
          (case os_List os context_Background \<lparr>lo_Prefix = ''a/'', lo_Token = [], lo_Limit = 10\<rparr> s of
             Inl e \<Rightarrow> False
           | Inr page \<Rightarrow>
               let got = remdups (map oi_Key (lp_Objects page))
               in lp_NextToken page = [] \<and> length got = 2 \<and> ''a/1'' \<in> set got \<and> ''a/2'' \<in> set got))"

definition st_ListEmptyPrefixListsAll :: "'s ObjectStorage \<Rightarrow> 's \<Rightarrow> bool" where
  "st_ListEmptyPrefixListsAll os s =
     (case suite_puts os [''a/1'', ''b/1'', ''c''] s of
        None \<Rightarrow> False
      | Some s \<Rightarrow>
          (case os_List os context_Background \<lparr>lo_Prefix = [], lo_Token = [], lo_Limit = 10\<rparr> s of
             Inl e \<Rightarrow> False
           | Inr page \<Rightarrow> length (lp_Objects page) = 3 \<and> lp_NextToken page = []))"

definition st_ListNoMatchReturnsEmptyPage :: "'s ObjectStorage \<Rightarrow> 's \<Rightarrow> bool" where
  "st_ListNoMatchReturnsEmptyPage os s =
     (case suite_put os ''a/1'' ''v'' no_opts s of
        None \<Rightarrow> False
      | Some s \<Rightarrow>
          (case os_List os context_Background \<lparr>lo_Prefix = ''zzz/'', lo_Token = [], lo_Limit = 5\<rparr> s of
             Inl e \<Rightarrow> False
           | Inr page \<Rightarrow> lp_Objects page = [] \<and> lp_NextToken page = []))"

definition storage_RunContract :: "'s ObjectStorage \<Rightarrow> 's \<Rightarrow> bool list" where
  "storage_RunContract os s0 =
     map (\<lambda>subtest. subtest os s0)
       [st_PutGetRoundtrip, st_PutOverwriteWins, st_PutNegativeSizeInvalidArgument, st_MetadataRoundtripLowercaseKeys,
        st_MissingReturnsErrNotFound, st_DeleteIsIdempotent, st_EmptyKeyPrecedesCancelledCtx, st_ListLimitNonPositive,
        st_ListTokenWalkCompleteNoDupes, st_ListPrefixFilters, st_ListEmptyPrefixListsAll, st_ListNoMatchReturnsEmptyPage]"

text \<open>The reference storage as an \<^verbatim>\<open>ObjectStorage\<close>.\<close>

definition memStorage_methods :: "(string \<Rightarrow> string) \<Rightarrow> int \<Rightarrow> memStorage ObjectStorage" where
  "memStorage_methods quote now =
     \<lparr>os_Put = memStorage_Put now, os_Get = memStorage_Get quote, os_Stat = memStorage_Stat quote,
      os_Delete = memStorage_Delete, os_List = memStorage_List\<rparr>"

section \<open>The contract of a keyed store\<close>

datatype ('k, 'v) store_write = WPut 'k 'v | WDelete 'k

locale last_write_wins =
  fixes put :: "'k \<Rightarrow> 'v \<Rightarrow> 's \<Rightarrow> 's" and delete :: "'k \<Rightarrow> 's \<Rightarrow> 's" and lookup :: "'k \<Rightarrow> 's \<Rightarrow> 'v option"
  assumes lookup_put: "lookup k (put k' v s) = (if k = k' then Some v else lookup k s)"
    and lookup_delete: "lookup k (delete k' s) = (if k = k' then None else lookup k s)"
begin

definition do_write :: "('k, 'v) store_write \<Rightarrow> 's \<Rightarrow> 's" where
  "do_write x = (case x of WPut k v \<Rightarrow> put k v | WDelete k \<Rightarrow> delete k)"

text \<open>After any writes a lookup sees the last one for its key.\<close>

lemma lookup_writes:
  "lookup k (fold do_write xs s) =
     (case filter (\<lambda>x. case x of WPut k' _ \<Rightarrow> k' = k | WDelete k' \<Rightarrow> k' = k) (rev xs) of
        [] \<Rightarrow> lookup k s | WPut _ v # _ \<Rightarrow> Some v | WDelete _ # _ \<Rightarrow> None)"
proof (induction xs rule: rev_induct)
  case (snoc x xs)
  then show ?case by (cases x) (auto simp: do_write_def lookup_put lookup_delete)
qed simp

end

section \<open>The reference storage\<close>

definition storage_wf :: "memStorage \<Rightarrow> bool" where
  "storage_wf m \<longleftrightarrow> distinct (map fst (ms_objects m)) \<and> map_of (ms_objects m) [] = None"

text \<open>The accepted writes of the reference storage, as writes of a keyed store.\<close>

definition mem_put :: "string \<Rightarrow> memObject \<Rightarrow> memStorage \<Rightarrow> memStorage" where
  "mem_put k v m = m\<lparr>ms_objects := AList.update k v (ms_objects m)\<rparr>"
definition mem_delete :: "string \<Rightarrow> memStorage \<Rightarrow> memStorage" where
  "mem_delete k m = m\<lparr>ms_objects := AList.delete k (ms_objects m)\<rparr>"
definition mem_lookup :: "string \<Rightarrow> memStorage \<Rightarrow> memObject option" where
  "mem_lookup k m = map_of (ms_objects m) k"

interpretation memkv: last_write_wins mem_put mem_delete mem_lookup
  by unfold_locales (simp_all add: mem_put_def mem_delete_def mem_lookup_def update_conv' AList.delete_conv')

definition effective_type :: "PutOptions \<Rightarrow> string" where
  "effective_type opts = (if po_ContentType opts = [] then ''application/octet-stream'' else po_ContentType opts)"

lemma Put_ok_iff:
  "fst (memStorage_Put now ctx key body sz opts m) = None \<longleftrightarrow>
     key \<noteq> [] \<and> ctx_Err ctx = None \<and> (\<exists>data. body = Inr data \<and> int (length data) = sz)"
  by (auto simp: memStorage_Put_def Let_def split: option.splits sum.splits)

lemma Put_state:
  "memStorage_Put now ctx key body sz opts m = (err, m') \<Longrightarrow>
     (case err of
        Some e \<Rightarrow> m' = m \<and> CodeOf err \<noteq> CodeUnknown
      | None \<Rightarrow> m' = mem_put key \<lparr>mo_data = projr body, mo_contentType = effective_type opts,
                       mo_metadata = po_Metadata opts, mo_updatedAt = now\<rparr> m)"
  by (auto simp: memStorage_Put_def mem_put_def effective_type_def Let_def errEmptyKey_def errContextDone_def code_defs
      split: if_splits option.splits sum.splits)

lemma Put_wf: "storage_wf m \<Longrightarrow> storage_wf (snd (memStorage_Put now ctx key body sz opts m))"
  by (auto simp: memStorage_Put_def storage_wf_def Let_def distinct_update update_conv' split: option.split sum.split)

lemma Delete_wf: "storage_wf m \<Longrightarrow> storage_wf (snd (memStorage_Delete ctx key m))"
  by (simp add: memStorage_Delete_def storage_wf_def AList.delete_conv' distinct_delete split: option.split)

text \<open>
  C31. Reading back: after a successful \<^verbatim>\<open>Put\<close>, \<^verbatim>\<open>Get\<close> returns exactly the bytes written, with an
  \<^verbatim>\<open>ObjectInfo\<close> that agrees with \<^verbatim>\<open>Stat\<close>, the exact size and the given metadata; every other key
  reads as before; a refused \<^verbatim>\<open>Put\<close> changes nothing and its error carries a code.
\<close>

theorem storage_put_get:
  "let (err, m') = memStorage_Put now ctx key body sz opts m
   in case err of
        Some e \<Rightarrow> m' = m \<and> CodeOf err \<noteq> CodeUnknown
      | None \<Rightarrow>
          (\<exists>data info. body = Inr data \<and>
             (\<forall>k. memStorage_Get quote context_Background k m' =
                (if k = key then Inr (data, info) else memStorage_Get quote context_Background k m)) \<and>
             memStorage_Stat quote context_Background key m' = Inr info \<and>
             oi_Key info = key \<and> oi_Size info = sz \<and> oi_Metadata info = po_Metadata opts)"
proof -
  obtain err m' where p: "memStorage_Put now ctx key body sz opts m = (err, m')"
    by (cases "memStorage_Put now ctx key body sz opts m")
  show ?thesis
  proof (cases err)
    case (Some e)
    with Put_state [OF p] p show ?thesis by simp
  next
    case None
    then obtain data where d: "body = Inr data" "key \<noteq> []" "int (length data) = sz"
      using Put_ok_iff [of now ctx key body sz opts m] p by auto
    have "map_of (ms_objects m') k = mem_lookup k m'" for k by (simp add: mem_lookup_def)
    with Put_state [OF p] None d have "map_of (ms_objects m') k = (if k = key then
        Some \<lparr>mo_data = data, mo_contentType = effective_type opts, mo_metadata = po_Metadata opts, mo_updatedAt = now\<rparr>
        else map_of (ms_objects m) k)" for k
      by (simp add: memkv.lookup_put) (simp add: mem_lookup_def)
    with None d p show ?thesis
      by (auto simp: memStorage_Get_def memStorage_Stat_def Let_def split: option.split)
  qed
qed

section \<open>The list walk\<close>

text \<open>The walk of the contract: pages are requested with the previous token until it is empty.\<close>

fun list_walk :: "nat \<Rightarrow> string \<Rightarrow> string \<Rightarrow> int \<Rightarrow> memStorage \<Rightarrow> ObjectInfo list list option" where
  "list_walk 0 pre token limit m = None"
| "list_walk (Suc n) pre token limit m =
     (case memStorage_List context_Background \<lparr>lo_Prefix = pre, lo_Token = token, lo_Limit = limit\<rparr> m of
        Inl e \<Rightarrow> None
      | Inr page \<Rightarrow>
          if lp_NextToken page = [] then Some [lp_Objects page]
          else map_option ((#) (lp_Objects page)) (list_walk n pre (lp_NextToken page) limit m))"

lemma list_loop_spec:
  assumes "0 < limit" "int (length acc) \<le> limit"
  shows "list_loop objs token limit ks acc =
    (let all = acc @ map (list_info objs) (filter (\<lambda>k. token = [] \<or> token < k) ks)
     in if int (length all) \<le> limit then \<lparr>lp_Objects = all, lp_NextToken = []\<rparr>
        else \<lparr>lp_Objects = take (nat limit) all, lp_NextToken = oi_Key (all ! nat (limit - 1))\<rparr>)"
  using assms(2)
proof (induction ks arbitrary: acc)
  case Nil
  then show ?case by simp
next
  case (Cons k ks)
  show ?case
  proof (cases "token \<noteq> [] \<and> k \<le> token")
    case True
    with Cons show ?thesis by (auto simp: not_less)
  next
    case False
    then have keep: "token = [] \<or> token < k" by auto
    show ?thesis
    proof (cases "int (length acc) = limit")
      case True
      then have "nat (limit - 1) < length acc" using assms(1) by linarith
      with True False keep show ?thesis by (auto simp: Let_def nth_append)
    next
      case neq: False
      with Cons.prems have "int (length (acc @ [list_info objs k])) \<le> limit" by simp
      note IH = Cons.IH [OF this]
      have "list_loop objs token limit (k # ks) acc = list_loop objs token limit ks (acc @ [list_info objs k])"
        using False neq by auto
      moreover have "filter (\<lambda>k. token = [] \<or> token < k) (k # ks) = k # filter (\<lambda>k. token = [] \<or> token < k) ks"
        using keep by simp
      ultimately show ?thesis using IH by (simp only: append_assoc append_Cons append_Nil list.map)
    qed
  qed
qed

lemma filter_after_nth:
  "sorted_wrt (<) (ks :: 'a :: linorder list) \<Longrightarrow> i < length ks \<Longrightarrow> filter (\<lambda>k. ks ! i < k) ks = drop (Suc i) ks"
proof (induction ks arbitrary: i)
  case (Cons k ks)
  show ?case
  proof (cases i)
    case 0
    with Cons.prems show ?thesis by (auto simp: filter_id_conv)
  next
    case (Suc j)
    with Cons.prems have "k < ks ! j" by auto
    then have "\<not> ks ! j < k" by simp
    with Suc Cons show ?thesis by simp
  qed
qed simp

lemma matching_keys_sorted: "storage_wf m \<Longrightarrow> sorted_wrt (<) (matching_keys pre m) \<and> [] \<notin> set (matching_keys pre m)"
  by (auto simp: matching_keys_def storage_wf_def strict_sorted_iff map_of_eq_None_iff image_iff)

lemma list_info_key [simp]: "oi_Key (list_info objs k) = k"
  by (simp add: list_info_def split: option.split)

text \<open>Before position \<open>i\<close> of the sorted keys the walk holds the token of the previous key.\<close>

lemma list_walk_from:
  assumes "storage_wf m" "0 < limit" "i \<le> length (matching_keys pre m)" "length (matching_keys pre m) - i < n"
  shows "\<exists>pages. list_walk n pre (if i = 0 then [] else matching_keys pre m ! (i - 1)) limit m = Some pages \<and>
    concat pages = map (list_info (ms_objects m)) (drop i (matching_keys pre m)) \<and>
    list_all (\<lambda>p. int (length p) \<le> limit) pages"
  using assms(3,4)
proof (induction n arbitrary: i)
  case (Suc n)
  let ?ks = "matching_keys pre m" and ?t = "if i = 0 then [] else matching_keys pre m ! (i - 1)"
  let ?all = "map (list_info (ms_objects m)) (drop i ?ks)"
  note ks = matching_keys_sorted [OF assms(1), of pre]
  have rest: "filter (\<lambda>k. ?t = [] \<or> ?t < k) ?ks = drop i ?ks"
  proof (cases i)
    case (Suc j)
    with Suc.prems ks have "?ks ! j \<noteq> []" by (metis less_eq_Suc_le nth_mem)
    with Suc Suc.prems ks filter_after_nth [of ?ks j] show ?thesis by simp
  qed simp
  have page: "memStorage_List context_Background \<lparr>lo_Prefix = pre, lo_Token = ?t, lo_Limit = limit\<rparr> m =
    Inr (if int (length ?all) \<le> limit then \<lparr>lp_Objects = ?all, lp_NextToken = []\<rparr>
      else \<lparr>lp_Objects = take (nat limit) ?all, lp_NextToken = ?ks ! (i + nat (limit - 1))\<rparr>)"
    using assms(2) Suc.prems(1) by (simp add: memStorage_List_def list_loop_spec Let_def rest of_nat_diff)
  show ?case
  proof (cases "int (length ?all) \<le> limit")
    case True
    with page show ?thesis by simp
  next
    case False
    define j where "j = i + nat limit"
    from False assms(2) have j: "0 < j" "j \<le> length ?ks" "i + nat (limit - 1) = j - 1" "i < j"
      by (auto simp: j_def)
    then have "length ?ks - j < n" using Suc.prems by auto
    with Suc.IH [of j] j obtain pages where w: "list_walk n pre (?ks ! (j - 1)) limit m = Some pages"
      "concat pages = map (list_info (ms_objects m)) (drop j ?ks)" "list_all (\<lambda>p. int (length p) \<le> limit) pages"
      by auto
    have "?ks ! (j - 1) \<noteq> []" using ks j by (metis diff_less le_less_trans less_one nth_mem order_less_le_trans)
    then have "list_walk (Suc n) pre ?t limit m = Some (take (nat limit) ?all # pages)"
      using False page w(1) j(3) by (simp del: length_map length_drop)
    moreover have "drop i ?ks = take (nat limit) (drop i ?ks) @ drop j ?ks"
      by (metis add.commute append_take_drop_id drop_drop j_def)
    then have "concat (take (nat limit) ?all # pages) = ?all"
      using w(2) by (metis concat.simps(2) map_append take_map)
    moreover have "int (length (take (nat limit) ?all)) \<le> limit" using assms(2) by simp
    ultimately show ?thesis using w(3) by simp
  qed
qed simp

text \<open>
  C4. The list walk is complete and free of duplicates: on any well formed storage, following
  \<^verbatim>\<open>NextToken\<close> from the empty token reaches the empty token after at most one page per matching
  object plus one, no page exceeds the limit, and the pages together are the objects whose key
  starts with the prefix, each exactly once, in key order.
\<close>

theorem storage_list_walk_complete:
  assumes "storage_wf m" "0 < limit"
  shows "\<exists>pages. list_walk (Suc (length (matching_keys pre m))) pre [] limit m = Some pages \<and>
    list_all (\<lambda>p. int (length p) \<le> limit) pages \<and>
    map oi_Key (concat pages) = matching_keys pre m \<and> distinct (map oi_Key (concat pages)) \<and>
    set (map oi_Key (concat pages)) = {k. prefix pre k \<and> mem_lookup k m \<noteq> None}"
proof -
  obtain pages where p: "list_walk (Suc (length (matching_keys pre m))) pre [] limit m = Some pages"
    "concat pages = map (list_info (ms_objects m)) (matching_keys pre m)" "list_all (\<lambda>p. int (length p) \<le> limit) pages"
    using list_walk_from [OF assms, of 0 pre "Suc (length (matching_keys pre m))"] by (auto simp del: list_walk.simps)
  have keys: "map oi_Key (concat pages) = matching_keys pre m" by (simp add: p(2) comp_def)
  have "distinct (matching_keys pre m)"
    using matching_keys_sorted [OF assms(1)] strict_sorted_iff by blast
  moreover have "set (matching_keys pre m) = {k. prefix pre k \<and> mem_lookup k m \<noteq> None}"
    by (auto simp: matching_keys_def mem_lookup_def map_of_eq_None_iff)
  ultimately show ?thesis using p(1,3) keys by metis
qed

definition demo_storage :: memStorage where
  "demo_storage = fold (\<lambda>k. mem_put k \<lparr>mo_data = ''v'', mo_contentType = ''t'', mo_metadata = None, mo_updatedAt = 0\<rparr>)
     [''w/b'', ''w/a'', ''x'', ''w/c''] newMemStorage"

theorem storage_list_walk_complete_witness:
  "\<exists>pages. list_walk (Suc (length (matching_keys ''w/'' demo_storage))) ''w/'' [] 2 demo_storage = Some pages \<and>
     map oi_Key (concat pages) = [''w/a'', ''w/b'', ''w/c'']"
proof -
  have "storage_wf demo_storage" by code_simp
  moreover have "matching_keys ''w/'' demo_storage = [''w/a'', ''w/b'', ''w/c'']" by code_simp
  ultimately show ?thesis using storage_list_walk_complete [of demo_storage 2 "''w/''"] by fastforce
qed

lemmas suite_defs = suite_put_def no_opts_def with_type_def is_err_def has_code_def metadata_has_def suite_metadata_def
  memStorage_methods_def memStorage_Put_def memStorage_Get_def memStorage_Stat_def memStorage_Delete_def
  memStorage_List_def newMemStorage_def matching_keys_def list_info_def errEmptyKey_def errContextDone_def
  storage_ErrNotFound_def numeral_eq_Suc Let_def

lemma storage_subtests:
  "st_PutGetRoundtrip (memStorage_methods quote now) newMemStorage"
  "st_PutOverwriteWins (memStorage_methods quote now) newMemStorage"
  "st_PutNegativeSizeInvalidArgument (memStorage_methods quote now) newMemStorage"
  "st_MetadataRoundtripLowercaseKeys (memStorage_methods quote now) newMemStorage"
  "st_MissingReturnsErrNotFound (memStorage_methods quote now) newMemStorage"
  "st_DeleteIsIdempotent (memStorage_methods quote now) newMemStorage"
  "st_EmptyKeyPrecedesCancelledCtx (memStorage_methods quote now) newMemStorage"
  "st_ListLimitNonPositive (memStorage_methods quote now) newMemStorage"
  "st_ListTokenWalkCompleteNoDupes (memStorage_methods quote now) newMemStorage"
  "st_ListPrefixFilters (memStorage_methods quote now) newMemStorage"
  "st_ListEmptyPrefixListsAll (memStorage_methods quote now) newMemStorage"
  "st_ListNoMatchReturnsEmptyPage (memStorage_methods quote now) newMemStorage"
  by (simp_all add: suite_defs st_PutGetRoundtrip_def
      st_PutOverwriteWins_def
      st_PutNegativeSizeInvalidArgument_def
      st_MetadataRoundtripLowercaseKeys_def
      st_MissingReturnsErrNotFound_def
      st_DeleteIsIdempotent_def
      st_EmptyKeyPrecedesCancelledCtx_def
      st_ListLimitNonPositive_def
      st_ListTokenWalkCompleteNoDupes_def
      st_ListPrefixFilters_def
      st_ListEmptyPrefixListsAll_def
      st_ListNoMatchReturnsEmptyPage_def
      split del: if_split)

text \<open>The reference storage passes every subtest of the conformance suite.\<close>

theorem storage_suite_passes:
  "storage_RunContract (memStorage_methods quote now) newMemStorage = replicate 12 True"
  by (simp add: storage_RunContract_def storage_subtests numeral_eq_Suc)

end
