(* ===== verification/Go_Runtime.thy ===== *)
theory Go_Runtime
  imports Errorsx "HOL-Library.Monad_Syntax"
begin

text \<open>
  What the adapters under \<^verbatim>\<open>ports/\<close> and their conformance suites share at run time: byte slices on a
  heap, a monotonic clock, buffered channels, and the verdict of a subtest.
\<close>

section \<open>Byte slices\<close>

text \<open>A slice is the address of its array; a nil slice is \<^term>\<open>None\<close>.\<close>

record bheap =
  bh_at :: "nat \<Rightarrow> string"
  bh_next :: nat

definition bh_alloc :: "string \<Rightarrow> bheap \<Rightarrow> nat \<times> bheap" where
  "bh_alloc bs h = (bh_next h, h\<lparr>bh_at := (bh_at h)(bh_next h := bs), bh_next := Suc (bh_next h)\<rparr>)"

text \<open>The assignment \<^verbatim>\<open>s[i] = c\<close> for an index in range.\<close>

definition bh_set :: "nat \<Rightarrow> nat \<Rightarrow> char \<Rightarrow> bheap \<Rightarrow> bheap" where
  "bh_set a i c h = h\<lparr>bh_at := (bh_at h)(a := (bh_at h a)[i := c])\<rparr>"

text \<open>The bytes behind a slice; a nil slice has none.\<close>

definition bytes_of :: "nat option \<Rightarrow> bheap \<Rightarrow> string" where
  "bytes_of r h = (case r of None \<Rightarrow> [] | Some a \<Rightarrow> bh_at h a)"

text \<open>A copy of a slice that keeps nil.\<close>

definition cloneBytes :: "nat option \<Rightarrow> bheap \<Rightarrow> nat option \<times> bheap" where
  "cloneBytes b h =
     (case b of None \<Rightarrow> (None, h) | Some a \<Rightarrow> (let (out, h) = bh_alloc (bh_at h a) h in (Some out, h)))"

lemma bytes_of_simps [simp]: "bytes_of None h = []" "bytes_of (Some a) h = bh_at h a"
  by (simp_all add: bytes_of_def)

text \<open>Code that only allocates leaves the slices that exist alone.\<close>

definition grown :: "bheap \<Rightarrow> bheap \<Rightarrow> bool" where
  "grown h h' \<longleftrightarrow> bh_next h \<le> bh_next h' \<and> (\<forall>a<bh_next h. bh_at h' a = bh_at h a)"

lemma grown_refl [simp]: "grown h h"
  by (simp add: grown_def)

lemma grown_alloc: "grown h (snd (bh_alloc bs h))"
  by (simp add: grown_def bh_alloc_def)

section \<open>The clock\<close>

text \<open>
  Times and durations are integers, in nanoseconds. Each reading of \<^verbatim>\<open>time.Now\<close> comes an arbitrary,
  non-negative gap after the previous event; \<^verbatim>\<open>time.Sleep\<close> lets at least its argument pass.
\<close>

record clock =
  ck_time :: int
  ck_gap :: "nat \<Rightarrow> nat"
  ck_reads :: nat

definition time_Now :: "clock \<Rightarrow> int \<times> clock" where
  "time_Now c =
     (let t = ck_time c + int (ck_gap c (ck_reads c)) in (t, c\<lparr>ck_time := t, ck_reads := Suc (ck_reads c)\<rparr>))"

definition time_Sleep :: "int \<Rightarrow> clock \<Rightarrow> clock" where
  "time_Sleep d c = c\<lparr>ck_time := ck_time c + max d 0\<rparr>"

text \<open>An object together with the heap and the clock it works on.\<close>

record 's runtime =
  rt_obj :: 's
  rt_heap :: bheap
  rt_clock :: clock

section \<open>Subtests\<close>

text \<open>
  A subtest of a suite is a computation in the option monad that threads the runtime: \<^term>\<open>None\<close> stands
  for a failed subtest, whether \<^verbatim>\<open>t.Fatalf\<close> ended it or \<^verbatim>\<open>t.Errorf\<close> marked it.
\<close>

definition require :: "bool \<Rightarrow> unit option" where
  "require b = (if b then Some () else None)"

lemma require_simps [simp]: "require True = Some ()" "require False = None"
  by (simp_all add: require_def)

section \<open>Channels\<close>

record 'a chan =
  ch_buf :: "'a list"
  ch_cap :: nat
  ch_closed :: bool

datatype 'a received = Value 'a | Closed | Blocks

definition chan_recv :: "'a chan \<Rightarrow> 'a received \<times> 'a chan" where
  "chan_recv c = (case ch_buf c of
     x # xs \<Rightarrow> (Value x, c\<lparr>ch_buf := xs\<rparr>)
   | [] \<Rightarrow> if ch_closed c then (Closed, c) else (Blocks, c))"

text \<open>A send that finds no room blocks, here \<^term>\<open>None\<close>. Channels that are sent on here are never closed.\<close>

definition make_chan :: "nat \<Rightarrow> 'a chan" where
  "make_chan n = \<lparr>ch_buf = [], ch_cap = n, ch_closed = False\<rparr>"

definition chan_send :: "'a \<Rightarrow> 'a chan \<Rightarrow> 'a chan option" where
  "chan_send x c = (if length (ch_buf c) < ch_cap c then Some (c\<lparr>ch_buf := ch_buf c @ [x]\<rparr>) else None)"

lemma make_chan_simps [simp]: "ch_buf (make_chan n) = []" "ch_cap (make_chan n) = n" "ch_closed (make_chan n) = False"
  by (simp_all add: make_chan_def)

section \<open>Decimal numerals\<close>

lemma char_of_digit_inj: "a < 10 \<Longrightarrow> b < 10 \<Longrightarrow> char_of (48 + a :: nat) = char_of (48 + b) \<longleftrightarrow> a = b"
  by (simp add: char_of_eq_iff take_bit_eq_mod of_char_of)

lemma dec_digits_inj: "dec_digits m = dec_digits n \<Longrightarrow> m = n"
proof (induction m arbitrary: n rule: dec_digits.induct)
  case (1 m)
  have ne: "dec_digits k \<noteq> []" for k by (subst dec_digits.simps) simp
  show ?case
  proof (cases "m < 10 \<or> n < 10")
    case True
    with 1 ne [of "m div 10"] ne [of "n div 10"] show ?thesis
      using char_of_digit_inj [of m n] dec_digits.simps [of m] dec_digits.simps [of n]
      by (auto split: if_splits)
  next
    case False
    with 1 have "dec_digits (m div 10) = dec_digits (n div 10)" "m mod 10 = n mod 10"
      using char_of_digit_inj [of "m mod 10" "n mod 10"] dec_digits.simps [of m] dec_digits.simps [of n] by auto
    with 1 False have "m div 10 = n div 10" by auto
    with \<open>m mod 10 = n mod 10\<close> show ?thesis by (metis div_mult_mod_eq)
  qed
qed

lemma fmt_d_int: "fmt_d (int n) = dec_digits n"
  by (simp add: fmt_d_def)

lemma fmt_d_digits [simp]:
  "fmt_d 1 = ''1''" "fmt_d 2 = ''2''" "fmt_d 3 = ''3''" "fmt_d 4 = ''4''" "fmt_d 5 = ''5''" "fmt_d 6 = ''6''" "fmt_d 7 = ''7''"
  "fmt_d 8 = ''8''" "fmt_d 9 = ''9''"
  by code_simp+

end
