(* ===== verification/Cache.thy ===== *)
theory Cache
  imports Go_Runtime
begin

text \<open>
  \<^verbatim>\<open>ports/cache\<close>: the byte cache contract, its conformance suite and the reference cache the suite
  is proven against. Byte slices live on a heap, because the contract forbids sharing them
  with the caller: a slice is the address of its array, \<open>bh_at\<close> gives its bytes.

  Shown: for a caller that may keep and overwrite every slice it passed in or got back, the
  reference cache behaves like a map of byte strings; and it passes the suite.
\<close>

section \<open>cache.go\<close>

definition ErrMiss :: goerr where [sentinel_defs]:
  "ErrMiss = Sentinel ''cache: miss''"

text \<open>The methods of a \<^verbatim>\<open>Cache\<close> with state \<open>'s\<close>. A returned slice is \<^term>\<open>None\<close> when it is nil.\<close>

record 's Cache =
  ca_Get :: "gocontext \<Rightarrow> string \<Rightarrow> bheap \<times> 's \<Rightarrow> nat option \<times> goerr option \<times> bheap \<times> 's"
  ca_Set :: "gocontext \<Rightarrow> string \<Rightarrow> nat \<Rightarrow> int \<Rightarrow> bheap \<times> 's \<Rightarrow> goerr option \<times> bheap \<times> 's"
  ca_Delete :: "gocontext \<Rightarrow> string \<Rightarrow> bheap \<times> 's \<Rightarrow> goerr option \<times> bheap \<times> 's"
  ca_Exists :: "gocontext \<Rightarrow> string \<Rightarrow> bheap \<times> 's \<Rightarrow> bool \<times> goerr option \<times> bheap \<times> 's"

section \<open>cachetest: the reference cache\<close>

record refCache =
  rc_m :: "string \<Rightarrow> nat option"

definition newRefCache :: refCache where
  "newRefCache = \<lparr>rc_m = Map.empty\<rparr>"

definition cache_validateKey :: "string \<Rightarrow> goerr option" where
  "cache_validateKey key =
     (if key = [] then Some (err_of (New CodeInvalidArgument ''cachetest: empty key'')) else None)"

definition refCache_Get :: "gocontext \<Rightarrow> string \<Rightarrow> bheap \<times> refCache \<Rightarrow> nat option \<times> goerr option \<times> bheap \<times> refCache" where
  "refCache_Get ctx key st =
     (case st of (h, c) \<Rightarrow>
        case cache_validateKey key of
          Some e \<Rightarrow> (None, Some e, h, c)
        | None \<Rightarrow>
            (case ctx_Err ctx of
               Some e \<Rightarrow> (None, Some e, h, c)
             | None \<Rightarrow>
                 (case rc_m c key of
                    None \<Rightarrow> (None, Some ErrMiss, h, c)
                  | Some v \<Rightarrow> (let (out, h) = bh_alloc (bh_at h v) h in (Some out, None, h, c)))))"

definition refCache_Set :: "gocontext \<Rightarrow> string \<Rightarrow> nat \<Rightarrow> int \<Rightarrow> bheap \<times> refCache \<Rightarrow> goerr option \<times> bheap \<times> refCache" where
  "refCache_Set ctx key val ttl st =
     (case st of (h, c) \<Rightarrow>
        case cache_validateKey key of
          Some e \<Rightarrow> (Some e, h, c)
        | None \<Rightarrow>
            if ttl < 0 then (Some (err_of (New CodeInvalidArgument ''cachetest: negative ttl'')), h, c)
            else
              (case ctx_Err ctx of
                 Some e \<Rightarrow> (Some e, h, c)
               | None \<Rightarrow>
                   (let (stored, h) = bh_alloc (bh_at h val) h
                    in (None, h, c\<lparr>rc_m := (rc_m c)(key \<mapsto> stored)\<rparr>))))"

definition refCache_Delete :: "gocontext \<Rightarrow> string \<Rightarrow> bheap \<times> refCache \<Rightarrow> goerr option \<times> bheap \<times> refCache" where
  "refCache_Delete ctx key st =
     (case st of (h, c) \<Rightarrow>
        case cache_validateKey key of
          Some e \<Rightarrow> (Some e, h, c)
        | None \<Rightarrow> (case ctx_Err ctx of Some e \<Rightarrow> (Some e, h, c) | None \<Rightarrow> (None, h, c\<lparr>rc_m := (rc_m c)(key := None)\<rparr>)))"

definition refCache_Exists :: "gocontext \<Rightarrow> string \<Rightarrow> bheap \<times> refCache \<Rightarrow> bool \<times> goerr option \<times> bheap \<times> refCache" where
  "refCache_Exists ctx key st =
     (case st of (h, c) \<Rightarrow>
        case cache_validateKey key of
          Some e \<Rightarrow> (False, Some e, h, c)
        | None \<Rightarrow> (case ctx_Err ctx of Some e \<Rightarrow> (False, Some e, h, c) | None \<Rightarrow> (rc_m c key \<noteq> None, None, h, c)))"

definition refCache_methods :: "refCache Cache" where
  "refCache_methods = \<lparr>ca_Get = refCache_Get, ca_Set = refCache_Set, ca_Delete = refCache_Delete, ca_Exists = refCache_Exists\<rparr>"

section \<open>cachetest.go: the conformance suite\<close>

text \<open>A slice literal passed to \<^verbatim>\<open>Set\<close>; the result of the call is kept.\<close>

definition set_lit :: "'s Cache \<Rightarrow> gocontext \<Rightarrow> string \<Rightarrow> string \<Rightarrow> int \<Rightarrow> bheap \<times> 's \<Rightarrow> goerr option \<times> bheap \<times> 's" where
  "set_lit cm ctx key bs ttl st =
     (case st of (h, c) \<Rightarrow> let (a, h) = bh_alloc bs h in ca_Set cm ctx key a ttl (h, c))"

definition ct_GetAbsentKeyReturnsErrMiss :: "'s Cache \<Rightarrow> bheap \<times> 's \<Rightarrow> bool" where
  "ct_GetAbsentKeyReturnsErrMiss cm st =
     (let (_, err, st) = ca_Get cm context_Background ''absent'' st in errors_Is err ErrMiss)"

definition ct_SetThenGetReturnsValue :: "'s Cache \<Rightarrow> bheap \<times> 's \<Rightarrow> bool" where
  "ct_SetThenGetReturnsValue cm st =
     (let (err, st) = set_lit cm context_Background ''k'' ''hello'' 0 st in err = None \<and>
       (let (got, err, h, c) = ca_Get cm context_Background ''k'' st in err = None \<and> bytes_of got h = ''hello''))"

definition ct_SetOverwriteWins :: "'s Cache \<Rightarrow> bheap \<times> 's \<Rightarrow> bool" where
  "ct_SetOverwriteWins cm st =
     (let (_, st) = set_lit cm context_Background ''k'' ''v1'' 0 st;
          (err, st) = set_lit cm context_Background ''k'' ''v2'' 0 st
      in err = None \<and> (let (got, _, h, c) = ca_Get cm context_Background ''k'' st in bytes_of got h = ''v2''))"

definition ct_OverwriteWithShorterValue :: "'s Cache \<Rightarrow> bheap \<times> 's \<Rightarrow> bool" where
  "ct_OverwriteWithShorterValue cm st =
     (let (_, st) = set_lit cm context_Background ''k'' ''hello'' 0 st;
          (err, st) = set_lit cm context_Background ''k'' ''x'' 0 st
      in err = None \<and> (let (got, _, h, c) = ca_Get cm context_Background ''k'' st in bytes_of got h = ''x''))"

definition ct_EmptyValueRoundTripsAndIsNotAMiss :: "'s Cache \<Rightarrow> bheap \<times> 's \<Rightarrow> bool" where
  "ct_EmptyValueRoundTripsAndIsNotAMiss cm st =
     (let (err, st) = set_lit cm context_Background ''k'' [] 0 st in err = None \<and>
       (let (got, err, h, c) = ca_Get cm context_Background ''k'' st in err = None \<and> length (bytes_of got h) = 0 \<and>
         (let (ok, _, st) = ca_Exists cm context_Background ''k'' (h, c) in ok)))"

definition ct_DeleteThenGetMisses :: "'s Cache \<Rightarrow> bheap \<times> 's \<Rightarrow> bool" where
  "ct_DeleteThenGetMisses cm st =
     (let (_, st) = set_lit cm context_Background ''k'' ''v'' 0 st;
          (err, st) = ca_Delete cm context_Background ''k'' st
      in err = None \<and> (let (_, err, st) = ca_Get cm context_Background ''k'' st in errors_Is err ErrMiss))"

definition ct_DeleteAbsentKeyIsIdempotent :: "'s Cache \<Rightarrow> bheap \<times> 's \<Rightarrow> bool" where
  "ct_DeleteAbsentKeyIsIdempotent cm st = (fst (ca_Delete cm context_Background ''absent'' st) = None)"

definition ct_ExistsReflectsPresence :: "'s Cache \<Rightarrow> bheap \<times> 's \<Rightarrow> bool" where
  "ct_ExistsReflectsPresence cm st =
     (let (ok, err, st) = ca_Exists cm context_Background ''k'' st in err = None \<and> \<not> ok \<and>
       (let (_, st) = set_lit cm context_Background ''k'' ''v'' 0 st;
            (ok, err, st) = ca_Exists cm context_Background ''k'' st
        in err = None \<and> ok \<and>
         (let (_, st) = ca_Delete cm context_Background ''k'' st;
              (ok, err, st) = ca_Exists cm context_Background ''k'' st
          in err = None \<and> \<not> ok)))"

text \<open>The errors of the four methods called one after the other with the same context and key.\<close>

definition four_errors :: "'s Cache \<Rightarrow> gocontext \<Rightarrow> string \<Rightarrow> bheap \<times> 's \<Rightarrow> goerr option list" where
  "four_errors cm ctx key st =
     (let (_, gErr, st) = ca_Get cm ctx key st;
          (sErr, st) = set_lit cm ctx key ''v'' 0 st;
          (dErr, st) = ca_Delete cm ctx key st;
          (_, eErr, st) = ca_Exists cm ctx key st
      in [gErr, sErr, dErr, eErr])"

definition ct_EmptyKeyIsInvalidArgument :: "'s Cache \<Rightarrow> bheap \<times> 's \<Rightarrow> bool" where
  "ct_EmptyKeyIsInvalidArgument cm st =
     list_all (\<lambda>err. CodeOf err = CodeInvalidArgument) (four_errors cm context_Background [] st)"

definition ct_NegativeTTLIsInvalidArgumentAndNotWritten :: "'s Cache \<Rightarrow> bheap \<times> 's \<Rightarrow> bool" where
  "ct_NegativeTTLIsInvalidArgumentAndNotWritten cm st =
     (let (err, st) = set_lit cm context_Background ''k'' ''v'' (-1 * 1000000000) st
      in CodeOf err = CodeInvalidArgument \<and>
        (let (_, gErr, st) = ca_Get cm context_Background ''k'' st in errors_Is gErr ErrMiss))"

definition ct_PreCancelledCtxReturnsCtxError :: "'s Cache \<Rightarrow> bheap \<times> 's \<Rightarrow> bool" where
  "ct_PreCancelledCtxReturnsCtxError cm st =
     list_all (\<lambda>err. errors_Is err context_Canceled) (four_errors cm cancelled_Background ''k'' st)"

definition ct_EmptyKeyPrecedesCancelledCtx :: "'s Cache \<Rightarrow> bheap \<times> 's \<Rightarrow> bool" where
  "ct_EmptyKeyPrecedesCancelledCtx cm st =
     list_all (\<lambda>err. CodeOf err = CodeInvalidArgument \<and> \<not> errors_Is err context_Canceled)
       (four_errors cm cancelled_Background [] st)"

definition ct_PreExpiredCtxReturnsCtxError :: "'s Cache \<Rightarrow> bheap \<times> 's \<Rightarrow> bool" where
  "ct_PreExpiredCtxReturnsCtxError cm st =
     list_all (\<lambda>err. errors_Is err context_DeadlineExceeded) (four_errors cm expired_Background ''k'' st)"

definition ct_InputSliceNotAliased :: "'s Cache \<Rightarrow> bheap \<times> 's \<Rightarrow> bool" where
  "ct_InputSliceNotAliased cm st =
     (case st of (h, c) \<Rightarrow>
        let (v, h) = bh_alloc ''hello'' h;
            (err, h, c) = ca_Set cm context_Background ''k'' v 0 (h, c)
        in err = None \<and>
          (let h = bh_set v 0 (CHR ''X'') h;
               (got, _, h, c) = ca_Get cm context_Background ''k'' (h, c)
           in bytes_of got h = ''hello''))"

definition ct_OutputSliceNotAliased :: "'s Cache \<Rightarrow> bheap \<times> 's \<Rightarrow> bool" where
  "ct_OutputSliceNotAliased cm st =
     (let (_, st) = set_lit cm context_Background ''k'' ''hello'' 0 st;
          (a, _, h, c) = ca_Get cm context_Background ''k'' st;
          h = (case a of None \<Rightarrow> h | Some x \<Rightarrow> if length (bh_at h x) > 0 then bh_set x 0 (CHR ''X'') h else h);
          (b, _, h, c) = ca_Get cm context_Background ''k'' (h, c)
      in bytes_of b h = ''hello'')"

definition cache_RunContract :: "'s Cache \<Rightarrow> bheap \<times> 's \<Rightarrow> bool list" where
  "cache_RunContract cm st0 =
     map (\<lambda>subtest. subtest cm st0)
       [ct_GetAbsentKeyReturnsErrMiss, ct_SetThenGetReturnsValue, ct_SetOverwriteWins, ct_OverwriteWithShorterValue,
        ct_EmptyValueRoundTripsAndIsNotAMiss, ct_DeleteThenGetMisses, ct_DeleteAbsentKeyIsIdempotent,
        ct_ExistsReflectsPresence, ct_EmptyKeyIsInvalidArgument, ct_NegativeTTLIsInvalidArgumentAndNotWritten,
        ct_PreCancelledCtxReturnsCtxError, ct_EmptyKeyPrecedesCancelledCtx, ct_PreExpiredCtxReturnsCtxError,
        ct_InputSliceNotAliased, ct_OutputSliceNotAliased]"

section \<open>A caller that keeps its slices\<close>

text \<open>
  What a caller can do: build a slice, overwrite a byte of a slice it knows, and call the
  cache with slices it knows. It knows the slices it built and those \<^verbatim>\<open>Get\<close> returned, by
  position in its list.
\<close>

datatype client_act =
    ABuild string
  | AWrite nat nat char
  | ASet gocontext string nat int
  | AGet gocontext string
  | ADelete gocontext string
  | AExists gocontext string

text \<open>What it observes: the error of a call, the bytes of a returned slice, a flag.\<close>

datatype client_obs = ONothing | OErr "goerr option" | OBytes "string option" "goerr option" | OFlag bool "goerr option"

record 's client =
  cl_known :: "nat list"
  cl_heap :: bheap
  cl_cache :: 's

fun client_step :: "'s Cache \<Rightarrow> client_act \<Rightarrow> 's client \<Rightarrow> client_obs \<times> 's client" where
  "client_step cm (ABuild bs) s =
     (let (a, h) = bh_alloc bs (cl_heap s) in (ONothing, s\<lparr>cl_known := cl_known s @ [a], cl_heap := h\<rparr>))"
| "client_step cm (AWrite n i c) s =
     (if n < length (cl_known s) then (ONothing, s\<lparr>cl_heap := bh_set (cl_known s ! n) i c (cl_heap s)\<rparr>) else (ONothing, s))"
| "client_step cm (ASet ctx key n ttl) s =
     (if n < length (cl_known s) then
        (let (err, h, c) = ca_Set cm ctx key (cl_known s ! n) ttl (cl_heap s, cl_cache s)
         in (OErr err, s\<lparr>cl_heap := h, cl_cache := c\<rparr>))
      else (ONothing, s))"
| "client_step cm (AGet ctx key) s =
     (let (r, err, h, c) = ca_Get cm ctx key (cl_heap s, cl_cache s)
      in (OBytes (map_option (bh_at h) r) err,
          s\<lparr>cl_known := cl_known s @ (case r of None \<Rightarrow> [] | Some a \<Rightarrow> [a]), cl_heap := h, cl_cache := c\<rparr>))"
| "client_step cm (ADelete ctx key) s =
     (let (err, h, c) = ca_Delete cm ctx key (cl_heap s, cl_cache s) in (OErr err, s\<lparr>cl_heap := h, cl_cache := c\<rparr>))"
| "client_step cm (AExists ctx key) s =
     (let (b, err, h, c) = ca_Exists cm ctx key (cl_heap s, cl_cache s) in (OFlag b err, s\<lparr>cl_heap := h, cl_cache := c\<rparr>))"

fun client_run :: "'s Cache \<Rightarrow> client_act list \<Rightarrow> 's client \<Rightarrow> client_obs list" where
  "client_run cm [] s = []"
| "client_run cm (x # xs) s = (let (ob, s') = client_step cm x s in ob # client_run cm xs s')"

text \<open>The specification: byte strings as values, no memory.\<close>

record value_cache =
  vc_known :: "string list"
  vc_map :: "string \<Rightarrow> string option"

definition guard :: "gocontext \<Rightarrow> string \<Rightarrow> goerr option" where
  "guard ctx key = (case cache_validateKey key of Some e \<Rightarrow> Some e | None \<Rightarrow> ctx_Err ctx)"

fun spec_step :: "client_act \<Rightarrow> value_cache \<Rightarrow> client_obs \<times> value_cache" where
  "spec_step (ABuild bs) v = (ONothing, v\<lparr>vc_known := vc_known v @ [bs]\<rparr>)"
| "spec_step (AWrite n i c) v = (ONothing, v\<lparr>vc_known := (vc_known v)[n := (vc_known v ! n)[i := c]]\<rparr>)"
| "spec_step (ASet ctx key n ttl) v =
     (if n < length (vc_known v) then
        (case (if key \<noteq> [] \<and> ttl < 0
               then Some (err_of (New CodeInvalidArgument ''cachetest: negative ttl'')) else guard ctx key) of
           Some e \<Rightarrow> (OErr (Some e), v)
         | None \<Rightarrow> (OErr None, v\<lparr>vc_map := (vc_map v)(key \<mapsto> vc_known v ! n)\<rparr>))
      else (ONothing, v))"
| "spec_step (AGet ctx key) v =
     (case guard ctx key of
        Some e \<Rightarrow> (OBytes None (Some e), v)
      | None \<Rightarrow>
          (case vc_map v key of
             None \<Rightarrow> (OBytes None (Some ErrMiss), v)
           | Some bs \<Rightarrow> (OBytes (Some bs) None, v\<lparr>vc_known := vc_known v @ [bs]\<rparr>)))"
| "spec_step (ADelete ctx key) v =
     (case guard ctx key of Some e \<Rightarrow> (OErr (Some e), v) | None \<Rightarrow> (OErr None, v\<lparr>vc_map := (vc_map v)(key := None)\<rparr>))"
| "spec_step (AExists ctx key) v =
     (case guard ctx key of Some e \<Rightarrow> (OFlag False (Some e), v) | None \<Rightarrow> (OFlag (vc_map v key \<noteq> None) None, v))"

fun spec_run :: "client_act list \<Rightarrow> value_cache \<Rightarrow> client_obs list" where
  "spec_run [] v = []"
| "spec_run (x # xs) v = (let (ob, v') = spec_step x v in ob # spec_run xs v')"

section \<open>The reference cache refines the specification\<close>

text \<open>The caller's slices and the stored slices are separate, and hold the values of the specification.\<close>

definition cache_rel :: "refCache client \<Rightarrow> value_cache \<Rightarrow> bool" where
  "cache_rel s v \<longleftrightarrow>
     vc_known v = map (bh_at (cl_heap s)) (cl_known s) \<and>
     (\<forall>k. vc_map v k = map_option (bh_at (cl_heap s)) (rc_m (cl_cache s) k)) \<and>
     distinct (cl_known s) \<and> (\<forall>a\<in>set (cl_known s). a < bh_next (cl_heap s)) \<and>
     (\<forall>k a. rc_m (cl_cache s) k = Some a \<longrightarrow> a < bh_next (cl_heap s) \<and> a \<notin> set (cl_known s))"

lemma cache_rel_alloc:
  assumes "cache_rel s v" "bh_alloc bs (cl_heap s) = (a, h)"
  shows "cache_rel (s\<lparr>cl_known := cl_known s @ [a], cl_heap := h\<rparr>) (v\<lparr>vc_known := vc_known v @ [bs]\<rparr>)"
    and "cache_rel (s\<lparr>cl_heap := h, cl_cache := (cl_cache s)\<lparr>rc_m := (rc_m (cl_cache s))(key \<mapsto> a)\<rparr>\<rparr>)
           (v\<lparr>vc_map := (vc_map v)(key \<mapsto> bs)\<rparr>)"
    and "bh_at h a = bs"
  using assms
  by (auto simp: cache_rel_def bh_alloc_def less_Suc_eq option.map_comp comp_def dest!: less_imp_neq
      intro!: map_cong option.map_cong0) (metis less_irrefl)+

lemma cache_rel_write:
  assumes "cache_rel s v"
  shows "cache_rel (s\<lparr>cl_heap := if n < length (cl_known s) then bh_set (cl_known s ! n) i c (cl_heap s) else cl_heap s\<rparr>)
    (v\<lparr>vc_known := (vc_known v)[n := (vc_known v ! n)[i := c]]\<rparr>)"
proof (cases "n < length (cl_known s)")
  case True
  have "rc_m (cl_cache s) k \<noteq> Some (cl_known s ! n)" for k
    using assms nth_mem [OF True] unfolding cache_rel_def by blast
  then have "map_option ((bh_at (cl_heap s))(cl_known s ! n := bs)) (rc_m (cl_cache s) k) =
      map_option (bh_at (cl_heap s)) (rc_m (cl_cache s) k)" for k bs
    by (cases "rc_m (cl_cache s) k") auto
  moreover have "map ((bh_at (cl_heap s))(cl_known s ! n := bs)) (cl_known s) =
      (map (bh_at (cl_heap s)) (cl_known s))[n := bs]" for bs
    using assms True by (auto simp: cache_rel_def list_eq_iff_nth_eq nth_list_update nth_eq_iff_index_eq)
  ultimately show ?thesis using assms True by (simp add: cache_rel_def bh_set_def)
next
  case False
  then show ?thesis using assms by (simp add: cache_rel_def list_update_beyond)
qed

lemma cache_step_refines:
  assumes "cache_rel s v"
  shows "fst (client_step refCache_methods x s) = fst (spec_step x v) \<and>
    cache_rel (snd (client_step refCache_methods x s)) (snd (spec_step x v))"
proof (cases x)
  case (ABuild bs)
  obtain a h where "bh_alloc bs (cl_heap s) = (a, h)" by (cases "bh_alloc bs (cl_heap s)")
  with ABuild cache_rel_alloc [OF assms this] show ?thesis by simp
next
  case (AWrite n i c)
  with cache_rel_write [OF assms, of n i c] show ?thesis by (cases "n < length (cl_known s)") simp_all
next
  case (ASet ctx key n ttl)
  show ?thesis
  proof (cases "n < length (cl_known s)")
    case True
    obtain a h where al: "bh_alloc (bh_at (cl_heap s) (cl_known s ! n)) (cl_heap s) = (a, h)"
      by (cases "bh_alloc (bh_at (cl_heap s) (cl_known s ! n)) (cl_heap s)")
    have "length (vc_known v) = length (cl_known s)" "vc_known v ! n = bh_at (cl_heap s) (cl_known s ! n)"
      using assms True by (auto simp: cache_rel_def)
    with ASet True al cache_rel_alloc [OF assms al] assms show ?thesis
      by (auto simp: refCache_methods_def refCache_Set_def guard_def cache_validateKey_def split: option.split)
  next
    case False
    with ASet assms show ?thesis by (auto simp: cache_rel_def)
  qed
next
  case (AGet ctx key)
  have m: "vc_map v key = map_option (bh_at (cl_heap s)) (rc_m (cl_cache s) key)"
    using assms by (simp add: cache_rel_def)
  show ?thesis
  proof (cases "rc_m (cl_cache s) key")
    case None
    with AGet m assms show ?thesis
      by (auto simp: refCache_methods_def refCache_Get_def guard_def split: option.split)
  next
    case (Some b)
    obtain a h where al: "bh_alloc (bh_at (cl_heap s) b) (cl_heap s) = (a, h)"
      by (cases "bh_alloc (bh_at (cl_heap s) b) (cl_heap s)")
    from Some AGet m al cache_rel_alloc [OF assms al] assms show ?thesis
      by (auto simp: refCache_methods_def refCache_Get_def guard_def split: option.split)
  qed
next
  case (ADelete ctx key)
  with assms show ?thesis
    by (auto simp: refCache_methods_def refCache_Delete_def guard_def cache_rel_def split: option.split)
next
  case (AExists ctx key)
  with assms show ?thesis
    by (auto simp: refCache_methods_def refCache_Exists_def guard_def cache_rel_def split: option.split)
qed

lemma cache_run_refines:
  "cache_rel s v \<Longrightarrow> client_run refCache_methods xs s = spec_run xs v"
proof (induction xs arbitrary: s v)
  case (Cons x xs)
  with cache_step_refines [OF Cons.prems, of x] show ?case
    by (auto simp: split_beta)
qed simp

text \<open>
  C23. No aliasing: a caller that builds slices, overwrites bytes of any slice it ever passed to
  the cache or received from it, and calls the cache with any contexts, keys and ttls, sees
  exactly what a map of byte strings would show it: the value at the time of the last \<^verbatim>\<open>Set\<close>.
\<close>

theorem cache_refines_value_map:
  "client_run refCache_methods xs \<lparr>cl_known = [], cl_heap = h, cl_cache = newRefCache\<rparr> =
     spec_run xs \<lparr>vc_known = [], vc_map = Map.empty\<rparr>"
  by (rule cache_run_refines) (simp add: cache_rel_def newRefCache_def)

lemmas cache_suite_defs = refCache_methods_def refCache_Get_def refCache_Set_def refCache_Delete_def refCache_Exists_def
  cache_validateKey_def newRefCache_def set_lit_def four_errors_def bytes_of_def bh_alloc_def bh_set_def ErrMiss_def
  context_Canceled_def context_DeadlineExceeded_def

lemma cache_subtests:
  "ct_GetAbsentKeyReturnsErrMiss refCache_methods (h, newRefCache)"
  "ct_SetThenGetReturnsValue refCache_methods (h, newRefCache)"
  "ct_SetOverwriteWins refCache_methods (h, newRefCache)"
  "ct_OverwriteWithShorterValue refCache_methods (h, newRefCache)"
  "ct_EmptyValueRoundTripsAndIsNotAMiss refCache_methods (h, newRefCache)"
  "ct_DeleteThenGetMisses refCache_methods (h, newRefCache)"
  "ct_DeleteAbsentKeyIsIdempotent refCache_methods (h, newRefCache)"
  "ct_ExistsReflectsPresence refCache_methods (h, newRefCache)"
  "ct_EmptyKeyIsInvalidArgument refCache_methods (h, newRefCache)"
  "ct_NegativeTTLIsInvalidArgumentAndNotWritten refCache_methods (h, newRefCache)"
  "ct_PreCancelledCtxReturnsCtxError refCache_methods (h, newRefCache)"
  "ct_EmptyKeyPrecedesCancelledCtx refCache_methods (h, newRefCache)"
  "ct_PreExpiredCtxReturnsCtxError refCache_methods (h, newRefCache)"
  "ct_InputSliceNotAliased refCache_methods (h, newRefCache)"
  "ct_OutputSliceNotAliased refCache_methods (h, newRefCache)"
  by (simp_all add: cache_suite_defs ct_GetAbsentKeyReturnsErrMiss_def
      ct_SetThenGetReturnsValue_def
      ct_SetOverwriteWins_def
      ct_OverwriteWithShorterValue_def
      ct_EmptyValueRoundTripsAndIsNotAMiss_def
      ct_DeleteThenGetMisses_def
      ct_DeleteAbsentKeyIsIdempotent_def
      ct_ExistsReflectsPresence_def
      ct_EmptyKeyIsInvalidArgument_def
      ct_NegativeTTLIsInvalidArgumentAndNotWritten_def
      ct_PreCancelledCtxReturnsCtxError_def
      ct_EmptyKeyPrecedesCancelledCtx_def
      ct_PreExpiredCtxReturnsCtxError_def
      ct_InputSliceNotAliased_def
      ct_OutputSliceNotAliased_def)

text \<open>The reference cache passes every subtest of the conformance suite, from any heap.\<close>

theorem cache_suite_passes:
  "cache_RunContract refCache_methods (h, newRefCache) = replicate 15 True"
  by (simp add: cache_RunContract_def cache_subtests numeral_eq_Suc)

end
