(* ===== verification/Rate_Limit.thy ===== *)
theory Rate_Limit
  imports Errorsx
begin

text \<open>
  \<^verbatim>\<open>ports/ratelimit\<close>: the limiter contract, its conformance suite and the reference limiter. The
  locale \<open>limiter\<close> states the contract together with the deterministic profile that the suite
  asks of a factory (first call allowed, second denied, per key); an implementation that
  keeps it passes the suite. The call counters of the reference are 64 bit integers, as in the
  code.
\<close>

section \<open>ratelimit.go\<close>

definition UnknownCount :: int where "UnknownCount = -1"

record Result =
  rs_Allowed :: bool
  rs_RetryAfter :: int
  rs_Limit :: int
  rs_Remaining :: int
  rs_ResetAt :: "int option"

definition no_Result :: Result where
  "no_Result = \<lparr>rs_Allowed = False, rs_RetryAfter = 0, rs_Limit = 0, rs_Remaining = 0, rs_ResetAt = None\<rparr>"

definition HasLimit :: "Result \<Rightarrow> bool" where "HasLimit r \<longleftrightarrow> rs_Limit r \<ge> 0"
definition HasRemaining :: "Result \<Rightarrow> bool" where "HasRemaining r \<longleftrightarrow> rs_Remaining r \<ge> 0"

type_synonym 's limiter_allow = "gocontext \<Rightarrow> string \<Rightarrow> 's \<Rightarrow> Result \<times> goerr option \<times> 's"

section \<open>ratelimittest.go\<close>

definition keyA :: string where "keyA = ''ratelimittest:a''"
definition keyB :: string where "keyB = ''ratelimittest:b''"

definition rl_EmptyKeyInvalidArgument :: "'s limiter_allow \<Rightarrow> 's \<Rightarrow> bool" where
  "rl_EmptyKeyInvalidArgument Allow s =
     (let (res, err, s) = Allow context_Background [] s in CodeOf err = CodeInvalidArgument \<and> \<not> rs_Allowed res)"

definition rl_EmptyKeyPrecedesCancelledCtx :: "'s limiter_allow \<Rightarrow> 's \<Rightarrow> bool" where
  "rl_EmptyKeyPrecedesCancelledCtx Allow s =
     (let (_, err, s) = Allow cancelled_Background [] s
      in CodeOf err = CodeInvalidArgument \<and> \<not> errors_Is err context_Canceled)"

definition rl_EmptyKeyPrecedesExpiredDeadline :: "'s limiter_allow \<Rightarrow> 's \<Rightarrow> bool" where
  "rl_EmptyKeyPrecedesExpiredDeadline Allow s =
     (let (_, err, s) = Allow expired_Background [] s
      in CodeOf err = CodeInvalidArgument \<and> \<not> errors_Is err context_DeadlineExceeded)"

definition rl_PreCancelledCtx :: "'s limiter_allow \<Rightarrow> 's \<Rightarrow> bool" where
  "rl_PreCancelledCtx Allow s =
     (let (_, err, s) = Allow cancelled_Background keyA s in errors_Is err context_Canceled)"

definition rl_PreExpiredCtx :: "'s limiter_allow \<Rightarrow> 's \<Rightarrow> bool" where
  "rl_PreExpiredCtx Allow s =
     (let (_, err, s) = Allow expired_Background keyA s in errors_Is err context_DeadlineExceeded)"

definition rl_FirstAllowedSecondDenied :: "'s limiter_allow \<Rightarrow> 's \<Rightarrow> bool" where
  "rl_FirstAllowedSecondDenied Allow s =
     (let (first, err, s) = Allow context_Background keyA s in err = None \<and> rs_Allowed first \<and>
       (let (second, err, s) = Allow context_Background keyA s in err = None \<and> \<not> rs_Allowed second))"

definition rl_RetryAfterInvariant :: "'s limiter_allow \<Rightarrow> 's \<Rightarrow> bool" where
  "rl_RetryAfterInvariant Allow s =
     (let (allowed, err, s) = Allow context_Background keyA s in err = None \<and> rs_RetryAfter allowed = 0 \<and>
       (let (denied, err, s) = Allow context_Background keyA s in err = None \<and> \<not> rs_RetryAfter denied \<le> 0))"

definition rl_KeyIsolation :: "'s limiter_allow \<Rightarrow> 's \<Rightarrow> bool" where
  "rl_KeyIsolation Allow s =
     (let (_, err, s) = Allow context_Background keyA s in err = None \<and>
       (let (_, err, s) = Allow context_Background keyA s in err = None \<and>
         (let (res, err, s) = Allow context_Background keyB s in err = None \<and> rs_Allowed res)))"

definition metadata_ok :: "Result \<Rightarrow> bool" where
  "metadata_ok res \<longleftrightarrow>
     \<not> (rs_Limit res < 0 \<and> rs_Limit res \<noteq> UnknownCount) \<and>
     \<not> (rs_Remaining res < 0 \<and> rs_Remaining res \<noteq> UnknownCount) \<and>
     \<not> (HasLimit res \<and> HasRemaining res \<and> rs_Remaining res > rs_Limit res)"

definition rl_MetadataShape :: "'s limiter_allow \<Rightarrow> 's \<Rightarrow> bool" where
  "rl_MetadataShape Allow s =
     (let (allowed, err, s) = Allow context_Background keyA s in err = None \<and> metadata_ok allowed \<and>
       (let (denied, err, s) = Allow context_Background keyA s in err = None \<and> metadata_ok denied))"

definition ratelimit_RunContract :: "'s limiter_allow \<Rightarrow> 's \<Rightarrow> bool list" where
  "ratelimit_RunContract Allow s0 =
     map (\<lambda>subtest. subtest Allow s0)
       [rl_EmptyKeyInvalidArgument, rl_EmptyKeyPrecedesCancelledCtx, rl_EmptyKeyPrecedesExpiredDeadline,
        rl_PreCancelledCtx, rl_PreExpiredCtx, rl_FirstAllowedSecondDenied, rl_RetryAfterInvariant, rl_KeyIsolation,
        rl_MetadataShape]"

section \<open>ratelimittest: the reference limiter\<close>

record refLimiter =
  rl_seen :: "string \<Rightarrow> i64"

definition newRefLimiter :: refLimiter where
  "newRefLimiter = \<lparr>rl_seen = (\<lambda>_. 0)\<rparr>"

definition refLimiter_Allow :: "refLimiter limiter_allow" where
  "refLimiter_Allow ctx key l =
     (if key = [] then (no_Result, Some (err_of (New CodeInvalidArgument ''ratelimit: empty key'')), l)
      else
        (case ctx_Err ctx of
           Some e \<Rightarrow> (no_Result, Some e, l)
         | None \<Rightarrow>
             (let n = rl_seen l key;
                  l = l\<lparr>rl_seen := (rl_seen l)(key := n + 1)\<rparr>
              in if n <s 1 then
                   (\<lparr>rs_Allowed = True, rs_RetryAfter = 0, rs_Limit = 1, rs_Remaining = sint (1 - n - 1 :: i64),
                     rs_ResetAt = None\<rparr>, None, l)
                 else
                   (\<lparr>rs_Allowed = False, rs_RetryAfter = 1000000000, rs_Limit = 1, rs_Remaining = 0,
                     rs_ResetAt = None\<rparr>, None, l))))"

section \<open>The contract\<close>

text \<open>
  \<open>spent s k\<close> is the number of decisions taken for a key. The laws hold for states with fewer
  than \<open>capacity\<close> decisions per key: a limiter with machine counters cannot promise more.
\<close>

fun allow_run :: "'s limiter_allow \<Rightarrow> (gocontext \<times> string) list \<Rightarrow> 's \<Rightarrow> bool list" where
  "allow_run Allow [] s = []"
| "allow_run Allow ((ctx, key) # xs) s =
     (let (res, err, s') = Allow ctx key s in rs_Allowed res # allow_run Allow xs s')"

text \<open>The calls that may be allowed: valid, with a live context, the first for their key.\<close>

fun first_only :: "string set \<Rightarrow> (gocontext \<times> string) list \<Rightarrow> bool list" where
  "first_only used [] = []"
| "first_only used ((ctx, key) # xs) =
     (let decided = key \<noteq> [] \<and> ctx_Err ctx = None
      in (decided \<and> key \<notin> used) # first_only (if decided then insert key used else used) xs)"

locale limiter =
  fixes Allow :: "'s limiter_allow" and fresh :: 's and spent :: "'s \<Rightarrow> string \<Rightarrow> nat" and capacity :: nat
  assumes spent_fresh: "spent fresh k = 0"
    and capacity_pos: "2 < capacity"
    and allow_invalid: "CodeOf (fst (snd (Allow ctx [] s))) = CodeInvalidArgument \<and>
          \<not> rs_Allowed (fst (Allow ctx [] s)) \<and> \<not> errors_Is (fst (snd (Allow ctx [] s))) (Sentinel m) \<and>
          spent (snd (snd (Allow ctx [] s))) = spent s"
    and allow_cancelled: "key \<noteq> [] \<Longrightarrow> ctx_Err ctx = Some e \<Longrightarrow>
          fst (snd (Allow ctx key s)) = Some e \<and> \<not> rs_Allowed (fst (Allow ctx key s)) \<and>
          spent (snd (snd (Allow ctx key s))) = spent s"
    and allow_decides: "key \<noteq> [] \<Longrightarrow> ctx_Err ctx = None \<Longrightarrow> spent s key < capacity \<Longrightarrow>
          fst (snd (Allow ctx key s)) = None \<and>
          (rs_Allowed (fst (Allow ctx key s)) \<longleftrightarrow> spent s key = 0) \<and>
          (rs_RetryAfter (fst (Allow ctx key s)) = 0 \<longleftrightarrow> spent s key = 0) \<and> 0 \<le> rs_RetryAfter (fst (Allow ctx key s)) \<and>
          metadata_ok (fst (Allow ctx key s)) \<and>
          spent (snd (snd (Allow ctx key s))) = (spent s)(key := Suc (spent s key))"
begin

lemma suite_passes: "ratelimit_RunContract Allow fresh = replicate 9 True"
proof -
  have k: "keyA \<noteq> []" "keyB \<noteq> []" "keyB \<noteq> keyA" by (simp_all add: keyA_def keyB_def)
  have c: "0 < capacity" "Suc 0 < capacity" using capacity_pos by simp_all
  define s1 where "s1 = snd (snd (Allow context_Background keyA fresh))"
  define s2 where "s2 = snd (snd (Allow context_Background keyA s1))"
  have d1: "fst (snd (Allow context_Background keyA fresh)) = None" "rs_Allowed (fst (Allow context_Background keyA fresh))"
    "rs_RetryAfter (fst (Allow context_Background keyA fresh)) = 0" "metadata_ok (fst (Allow context_Background keyA fresh))"
    and s1: "spent s1 = (spent fresh)(keyA := Suc 0)"
    using allow_decides [of keyA context_Background fresh] k c by (simp_all add: spent_fresh s1_def)
  have d2: "fst (snd (Allow context_Background keyA s1)) = None" "\<not> rs_Allowed (fst (Allow context_Background keyA s1))"
    "\<not> rs_RetryAfter (fst (Allow context_Background keyA s1)) \<le> 0" "metadata_ok (fst (Allow context_Background keyA s1))"
    and s2: "spent s2 keyB = 0"
    using allow_decides [of keyA context_Background s1] k c s1 by (auto simp: spent_fresh s2_def)
  have d3: "fst (snd (Allow context_Background keyB s2)) = None" "rs_Allowed (fst (Allow context_Background keyB s2))"
    using allow_decides [of keyB context_Background s2] k c s2 by simp_all
  have "rl_EmptyKeyInvalidArgument Allow fresh" "rl_EmptyKeyPrecedesCancelledCtx Allow fresh"
    "rl_EmptyKeyPrecedesExpiredDeadline Allow fresh"
    by (simp_all add: rl_EmptyKeyInvalidArgument_def rl_EmptyKeyPrecedesCancelledCtx_def context_Canceled_def
        rl_EmptyKeyPrecedesExpiredDeadline_def context_DeadlineExceeded_def split_beta allow_invalid)
  moreover have "rl_PreCancelledCtx Allow fresh" "rl_PreExpiredCtx Allow fresh"
    by (simp_all add: rl_PreCancelledCtx_def rl_PreExpiredCtx_def split_beta allow_cancelled k
        context_Canceled_def context_DeadlineExceeded_def)
  moreover have "rl_FirstAllowedSecondDenied Allow fresh" "rl_RetryAfterInvariant Allow fresh" "rl_KeyIsolation Allow fresh"
    "rl_MetadataShape Allow fresh"
    using d1 d2 d3 by (simp_all add: rl_FirstAllowedSecondDenied_def rl_RetryAfterInvariant_def rl_KeyIsolation_def
        rl_MetadataShape_def split_beta s1_def s2_def)
  ultimately show ?thesis by (simp add: ratelimit_RunContract_def numeral_eq_Suc)
qed

lemma run_allows_first:
  assumes "\<And>k. spent s k + length xs \<le> capacity" "used = {k. 0 < spent s k}"
  shows "allow_run Allow xs s = first_only used xs"
  using assms
proof (induction xs arbitrary: s used)
  case Nil
  then show ?case by simp
next
  case (Cons x xs)
  obtain ctx key where x: "x = (ctx, key)" by (cases x)
  define s1 where "s1 = snd (snd (Allow ctx key s))"
  have sp: "spent s1 = (if key \<noteq> [] \<and> ctx_Err ctx = None then (spent s)(key := Suc (spent s key)) else spent s)"
    and al: "rs_Allowed (fst (Allow ctx key s)) \<longleftrightarrow> key \<noteq> [] \<and> ctx_Err ctx = None \<and> spent s key = 0"
    using allow_invalid [of ctx s] allow_cancelled [of key ctx _ s] allow_decides [of key ctx s] Cons.prems(1) [of key]
    by (cases "key = []"; cases "ctx_Err ctx"; simp add: s1_def)+
  have "spent s1 k + length xs \<le> capacity" for k using Cons.prems(1) [of k] sp by auto
  moreover have "(if key \<noteq> [] \<and> ctx_Err ctx = None then insert key used else used) = {k. 0 < spent s1 k}"
    using Cons.prems(2) sp by auto
  ultimately have "allow_run Allow xs s1 = first_only (if key \<noteq> [] \<and> ctx_Err ctx = None then insert key used else used) xs"
    by (rule Cons.IH)
  then show ?case using Cons.prems(2) by (simp add: x split_beta al s1_def Let_def)
qed

end

section \<open>The reference limiter keeps the contract\<close>

definition rl_spent :: "refLimiter \<Rightarrow> string \<Rightarrow> nat" where
  "rl_spent l k = unat (rl_seen l k)"

lemma rl_below_wrap:
  "unat (n :: i64) < 2 ^ 63 - 1 \<Longrightarrow> (n <s 1 \<longleftrightarrow> unat n = 0) \<and> unat (n + 1) = Suc (unat n)"
proof -
  assume n: "unat n < 2 ^ 63 - 1"
  have "uint n < 1 \<longleftrightarrow> unat n = 0"
    by (metis of_nat_0_less_iff int_one_le_iff_zero_less not_gr0 not_less uint_nat)
  then show ?thesis using n sint_i64_unat [of n] i64_Suc(1) [OF n] by (simp add: word_sless_alt)
qed

interpretation reflim: limiter refLimiter_Allow newRefLimiter rl_spent "2 ^ 63 - 1"
  by unfold_locales
    (use rl_below_wrap in \<open>auto simp: refLimiter_Allow_def newRefLimiter_def rl_spent_def fun_eq_iff no_Result_def
      metadata_ok_def HasLimit_def HasRemaining_def UnknownCount_def Let_def unat_eq_0\<close>)

text \<open>
  C38. One admission per key: over any sequence of fewer than \<open>2^63\<close> calls on a fresh reference
  limiter, a call is allowed exactly when its key is not empty, its context is live and no
  earlier call with a live context used the key; calls for other keys never interfere.
\<close>

theorem limiter_allows_first_only:
  assumes "length xs < 2 ^ 63"
  shows "allow_run refLimiter_Allow xs newRefLimiter = first_only {} xs"
  using assms by (intro reflim.run_allows_first) (simp_all add: rl_spent_def newRefLimiter_def)

theorem limiter_allows_first_only_witness:
  "allow_run refLimiter_Allow [(cancelled_Background, ''a''), (context_Background, ''a''), (context_Background, ''a'')]
     newRefLimiter = [False, True, False]"
  using limiter_allows_first_only [of "[(cancelled_Background, ''a''), (context_Background, ''a''), (context_Background, ''a'')]"]
  by simp

text \<open>The reference limiter passes every subtest of the conformance suite.\<close>

theorem ratelimit_suite_passes:
  "ratelimit_RunContract refLimiter_Allow newRefLimiter = replicate 9 True"
  by (rule reflim.suite_passes)

end
