(* ===== verification/Idempotency.thy ===== *)
theory Idempotency
  imports Go_Runtime
begin

text \<open>
  \<^verbatim>\<open>ports/idempotency\<close>: reservations of (scope, key) pairs under a lease, the reference store, and the
  conformance suite \<^verbatim>\<open>idempotencytest\<close> in its deterministic and its time-based half.

  The locale \<open>lease_store\<close> is the contract of a \<^verbatim>\<open>Store\<close>; from it alone follows that the log of every run is
  a log of an abstract lease machine, so that an operation finishes at most once per key and is
  replayed byte for byte. Also shown: an abandoned reservation is reclaimed and the polling loop
  of the suite ends, and the reference store passes the suite under every schedule.
\<close>

section \<open>idempotency.go\<close>

type_synonym Status = int

definition idem_StatusUnknown :: Status where "idem_StatusUnknown = 0"
definition idem_StatusNew :: Status where "idem_StatusNew = 1"
definition idem_StatusInProgress :: Status where "idem_StatusInProgress = 2"
definition idem_StatusCompleted :: Status where "idem_StatusCompleted = 3"
definition idem_StatusMismatch :: Status where "idem_StatusMismatch = 4"

lemmas status_defs = idem_StatusUnknown_def idem_StatusNew_def idem_StatusInProgress_def idem_StatusCompleted_def
  idem_StatusMismatch_def

definition Status_String :: "Status \<Rightarrow> string" where
  "Status_String s =
     (if s = idem_StatusNew then ''new''
      else if s = idem_StatusInProgress then ''in_progress''
      else if s = idem_StatusCompleted then ''completed''
      else if s = idem_StatusMismatch then ''mismatch''
      else ''unknown'')"

record Reservation =
  rv_Scope :: string
  rv_Key :: string
  rv_LeaseToken :: string
  rv_LeaseTTL :: int
  rv_Status :: Status
  rv_Response :: "nat option"

definition zero_Reservation :: Reservation where
  "zero_Reservation =
     \<lparr>rv_Scope = [], rv_Key = [], rv_LeaseToken = [], rv_LeaseTTL = 0, rv_Status = idem_StatusUnknown, rv_Response = None\<rparr>"

record 's Store =
  sr_Begin :: "gocontext \<Rightarrow> string \<Rightarrow> string \<Rightarrow> string \<Rightarrow> 's runtime \<Rightarrow> Reservation \<times> goerr option \<times> 's runtime"
  sr_Finish :: "gocontext \<Rightarrow> Reservation \<Rightarrow> nat option \<Rightarrow> 's runtime \<Rightarrow> goerr option \<times> 's runtime"
  sr_Cancel :: "gocontext \<Rightarrow> Reservation \<Rightarrow> 's runtime \<Rightarrow> goerr option \<times> 's runtime"

section \<open>idempotencytest: the reference store\<close>

type_synonym fakeKey = "string \<times> string"

record fakeEntry =
  fe_fingerprint :: string
  fe_leaseToken :: string
  fe_status :: Status
  fe_response :: "nat option"
  fe_reservedAt :: int

record fakeStore =
  fs_entries :: "fakeKey \<Rightarrow> fakeEntry option"
  fs_seq :: i64
  fs_reclaimAfter :: int

definition newFakeStore :: "int \<Rightarrow> fakeStore" where
  "newFakeStore reclaimAfter = \<lparr>fs_entries = Map.empty, fs_seq = 0, fs_reclaimAfter = reclaimAfter\<rparr>"

definition fakeStore_reclaimable :: "fakeEntry \<Rightarrow> fakeStore runtime \<Rightarrow> bool \<times> fakeStore runtime" where
  "fakeStore_reclaimable e w =
     (if fs_reclaimAfter (rt_obj w) \<le> 0 \<or> fe_status e \<noteq> idem_StatusInProgress then (False, w)
      else (let (now, c) = time_Now (rt_clock w)
            in (now - fe_reservedAt e \<ge> fs_reclaimAfter (rt_obj w), w\<lparr>rt_clock := c\<rparr>)))"

definition put_entry :: "fakeKey \<Rightarrow> fakeEntry option \<Rightarrow> fakeStore runtime \<Rightarrow> fakeStore runtime" where
  "put_entry fk e w = w\<lparr>rt_obj := (rt_obj w)\<lparr>fs_entries := (fs_entries (rt_obj w))(fk := e)\<rparr>\<rparr>"

definition fakeStore_lookup :: "fakeKey \<Rightarrow> fakeStore runtime \<Rightarrow> fakeEntry option \<times> fakeStore runtime" where
  "fakeStore_lookup fk w =
     (case fs_entries (rt_obj w) fk of
        None \<Rightarrow> (None, w)
      | Some e \<Rightarrow> (let (old, w) = fakeStore_reclaimable e w in if old then (None, put_entry fk None w) else (Some e, w)))"

definition fakeStore_Begin :: "gocontext \<Rightarrow> string \<Rightarrow> string \<Rightarrow> string \<Rightarrow> fakeStore runtime
    \<Rightarrow> Reservation \<times> goerr option \<times> fakeStore runtime" where
  "fakeStore_Begin ctx scope key fingerprint w =
     (case ctx_Err ctx of
        Some e \<Rightarrow> (zero_Reservation, Some (WrapErr (''idempotencytest: '' @ error_text e) e), w)
      | None \<Rightarrow>
          if scope = [] \<or> key = [] \<or> fingerprint = [] then
            (zero_Reservation,
             Some (err_of (New CodeInvalidArgument ''idempotencytest: empty scope, key, or fingerprint'')), w)
          else
            (let (found, w) = fakeStore_lookup (scope, key) w;
                 answer = zero_Reservation\<lparr>rv_Scope := scope, rv_Key := key\<rparr>
             in case found of
                  None \<Rightarrow>
                    (let n = fs_seq (rt_obj w) + 1;
                         w = w\<lparr>rt_obj := (rt_obj w)\<lparr>fs_seq := n\<rparr>\<rparr>;
                         tok = ''lease-'' @ fmt_d (sint n);
                         (now, c) = time_Now (rt_clock w);
                         w = put_entry (scope, key)
                               (Some \<lparr>fe_fingerprint = fingerprint, fe_leaseToken = tok, fe_status = idem_StatusInProgress,
                                      fe_response = None, fe_reservedAt = now\<rparr>) (w\<lparr>rt_clock := c\<rparr>)
                     in (answer\<lparr>rv_LeaseToken := tok, rv_LeaseTTL := 60 * 1000000000, rv_Status := idem_StatusNew\<rparr>, None, w))
                | Some e \<Rightarrow>
                    if fe_fingerprint e \<noteq> fingerprint then (answer\<lparr>rv_Status := idem_StatusMismatch\<rparr>, None, w)
                    else if fe_status e = idem_StatusCompleted then
                      (let (out, h) = cloneBytes (fe_response e) (rt_heap w)
                       in (answer\<lparr>rv_Status := idem_StatusCompleted, rv_Response := out\<rparr>, None, w\<lparr>rt_heap := h\<rparr>))
                    else (answer\<lparr>rv_Status := idem_StatusInProgress\<rparr>, None, w)))"

text \<open>The part \<^verbatim>\<open>Finish\<close> and \<^verbatim>\<open>Cancel\<close> begin with: the error to return, or the entry the lease owns.\<close>

definition owned_entry :: "gocontext \<Rightarrow> Reservation \<Rightarrow> fakeStore runtime \<Rightarrow> (goerr + fakeEntry) \<times> fakeStore runtime" where
  "owned_entry ctx res w =
     (case ctx_Err ctx of
        Some e \<Rightarrow> (Inl (WrapErr (''idempotencytest: '' @ error_text e) e), w)
      | None \<Rightarrow>
          if rv_Scope res = [] \<or> rv_Key res = [] \<or> rv_LeaseToken res = [] then
            (Inl (err_of (New CodeInvalidArgument ''idempotencytest: malformed reservation'')), w)
          else
            (case fakeStore_lookup (rv_Scope res, rv_Key res) w of
               (Some e, w) \<Rightarrow>
                 if fe_status e \<noteq> idem_StatusInProgress \<or> fe_leaseToken e \<noteq> rv_LeaseToken res then
                   (Inl (err_of (New CodeConflict ''idempotencytest: stale, reclaimed, or terminal reservation'')), w)
                 else (Inr e, w)
             | (None, w) \<Rightarrow>
                 (Inl (err_of (New CodeConflict ''idempotencytest: stale, reclaimed, or terminal reservation'')), w)))"

definition fakeStore_Finish :: "gocontext \<Rightarrow> Reservation \<Rightarrow> nat option \<Rightarrow> fakeStore runtime \<Rightarrow> goerr option \<times> fakeStore runtime" where
  "fakeStore_Finish ctx res response w =
     (case owned_entry ctx res w of
        (Inl err, w) \<Rightarrow> (Some err, w)
      | (Inr e, w) \<Rightarrow>
          (let (copy, h) = cloneBytes response (rt_heap w)
           in (None, put_entry (rv_Scope res, rv_Key res)
                 (Some (e\<lparr>fe_status := idem_StatusCompleted, fe_response := copy, fe_leaseToken := []\<rparr>)) (w\<lparr>rt_heap := h\<rparr>))))"

definition fakeStore_Cancel :: "gocontext \<Rightarrow> Reservation \<Rightarrow> fakeStore runtime \<Rightarrow> goerr option \<times> fakeStore runtime" where
  "fakeStore_Cancel ctx res w =
     (case owned_entry ctx res w of
        (Inl err, w) \<Rightarrow> (Some err, w)
      | (Inr e, w) \<Rightarrow> (None, put_entry (rv_Scope res, rv_Key res) None w))"

definition fakeStore_methods :: "fakeStore Store" where
  "fakeStore_methods = \<lparr>sr_Begin = fakeStore_Begin, sr_Finish = fakeStore_Finish, sr_Cancel = fakeStore_Cancel\<rparr>"

section \<open>The lease machine\<close>

text \<open>What a store knows of a key: a lease held for a fingerprint, or the finished response.\<close>

datatype lease = Held string string | Done string string

type_synonym leases = "fakeKey \<Rightarrow> lease option"

text \<open>
  What a caller observes that matters: a new reservation, an accepted \<^verbatim>\<open>Finish\<close>, an accepted \<^verbatim>\<open>Cancel\<close>,
  a replayed response.
\<close>

datatype idem_event =
    Reserved fakeKey string string
  | Finished fakeKey string string
  | Cancelled fakeKey string
  | Replayed fakeKey string string

fun ev_key :: "idem_event \<Rightarrow> fakeKey" where
  "ev_key (Reserved k fp tok) = k"
| "ev_key (Finished k tok bs) = k"
| "ev_key (Cancelled k tok) = k"
| "ev_key (Replayed k fp bs) = k"

fun lease_next :: "idem_event \<Rightarrow> leases \<Rightarrow> leases" where
  "lease_next (Reserved k fp tok) m = m(k \<mapsto> Held fp tok)"
| "lease_next (Finished k tok bs) m = m(k := map_option (\<lambda>l. case l of Held fp _ \<Rightarrow> Done fp bs | Done fp b \<Rightarrow> Done fp b) (m k))"
| "lease_next (Cancelled k tok) m = m(k := None)"
| "lease_next (Replayed k fp bs) m = m"

text \<open>An unfinished lease may lapse without an event, so a reservation may replace one.\<close>

fun lease_allows :: "leases \<Rightarrow> string set \<Rightarrow> idem_event \<Rightarrow> bool" where
  "lease_allows m used (Reserved k fp tok) \<longleftrightarrow> tok \<notin> used \<and> (case m k of Some (Done _ _) \<Rightarrow> False | _ \<Rightarrow> True)"
| "lease_allows m used (Finished k tok bs) \<longleftrightarrow> (case m k of Some (Held _ t) \<Rightarrow> t = tok | _ \<Rightarrow> False)"
| "lease_allows m used (Cancelled k tok) \<longleftrightarrow> (case m k of Some (Held _ t) \<Rightarrow> t = tok | _ \<Rightarrow> False)"
| "lease_allows m used (Replayed k fp bs) \<longleftrightarrow> m k = Some (Done fp bs)"

fun tokens :: "idem_event list \<Rightarrow> string list" where
  "tokens [] = []"
| "tokens (Reserved k fp tok # es) = tok # tokens es"
| "tokens (_ # es) = tokens es"

fun accepts :: "leases \<Rightarrow> string set \<Rightarrow> idem_event list \<Rightarrow> bool" where
  "accepts m used [] \<longleftrightarrow> True"
| "accepts m used (e # es) \<longleftrightarrow> lease_allows m used e \<and> accepts (lease_next e m) (used \<union> set (tokens [e])) es"

lemma accepts_append:
  "accepts m used (es @ es') \<longleftrightarrow> accepts m used es \<and> accepts (fold lease_next es m) (used \<union> set (tokens es)) es'"
proof (induction es arbitrary: m used)
  case (Cons e es)
  have "used \<union> set (tokens [e]) \<union> set (tokens es) = used \<union> set (tokens (e # es))" by (cases e) auto
  with Cons show ?case by simp
qed simp

lemma accepts_tokens: "accepts m used es \<Longrightarrow> distinct (tokens es) \<and> set (tokens es) \<inter> used = {}"
proof (induction es arbitrary: m used)
  case (Cons e es)
  then show ?case by (cases e) fastforce+
qed simp

lemma accepts_done:
  "accepts m used es \<Longrightarrow> m k = Some (Done fp bs) \<Longrightarrow> e \<in> set es \<Longrightarrow> ev_key e = k \<Longrightarrow> e = Replayed k fp bs"
proof (induction es arbitrary: m used)
  case (Cons x es)
  have "ev_key x = k \<Longrightarrow> x = Replayed k fp bs" using Cons.prems by (cases x) auto
  moreover have "lease_next x m k = Some (Done fp bs)" using Cons.prems by (cases x) auto
  ultimately show ?case using Cons by auto
qed simp

lemma held_reserved:
  "accepts Map.empty used es \<Longrightarrow> fold lease_next es Map.empty k = Some (Held fp tok) \<Longrightarrow>
     \<exists>es1 es2. es = es1 @ Reserved k fp tok # es2 \<and> (\<forall>e\<in>set es2. ev_key e \<noteq> k)"
proof (induction es rule: rev_induct)
  case (snoc e es)
  let ?m = "fold lease_next es Map.empty"
  have held: "lease_next e ?m k = Some (Held fp tok)" and ok: "lease_allows ?m (used \<union> set (tokens es)) e"
    and acc: "accepts Map.empty used es"
    using snoc.prems by (simp_all add: accepts_append)
  show ?case
  proof (cases "ev_key e = k")
    case True
    then have "e = Reserved k fp tok" using held ok by (cases e) (auto split: option.splits lease.splits)
    then show ?thesis by fastforce
  next
    case False
    then have "?m k = Some (Held fp tok)" using held by (cases e) auto
    from snoc.IH [OF acc this] obtain es1 es2
      where "es = es1 @ Reserved k fp tok # es2" "\<forall>e\<in>set es2. ev_key e \<noteq> k" by auto
    with False show ?thesis by (intro exI [of _ es1] exI [of _ "es2 @ [e]"]) auto
  qed
qed simp

lemma finished_once:
  assumes "accepts Map.empty used (pre @ Finished k tok bs # post)"
  shows "\<exists>fp pre1 pre2. pre = pre1 @ Reserved k fp tok # pre2 \<and> (\<forall>e\<in>set pre2. ev_key e \<noteq> k) \<and>
    (\<forall>e\<in>set post. ev_key e = k \<longrightarrow> e = Replayed k fp bs)"
proof -
  let ?m = "fold lease_next pre Map.empty"
  have pre: "accepts Map.empty used pre" and ok: "lease_allows ?m (used \<union> set (tokens pre)) (Finished k tok bs)"
    and post: "accepts (lease_next (Finished k tok bs) ?m) (used \<union> set (tokens pre)) post"
    using assms by (simp_all add: accepts_append)
  from ok obtain fp where fp: "?m k = Some (Held fp tok)" by (auto split: option.splits lease.splits)
  then have "lease_next (Finished k tok bs) ?m k = Some (Done fp bs)" by simp
  with held_reserved [OF pre fp] accepts_done [OF post] show ?thesis by blast
qed

section \<open>Callers\<close>

text \<open>
  What callers can do: build slices, overwrite bytes of slices they know, and call the store with
  any context and any reservation, forged ones included. They know the slices they built and those
  \<^verbatim>\<open>Begin\<close> returned. A response is a known slice or nil.
\<close>

datatype idem_act =
    IBuild string
  | IWrite nat nat char
  | IBegin gocontext string string string
  | IFinish gocontext Reservation "nat option"
  | ICancel gocontext Reservation

record 's idem_client =
  ic_known :: "nat list"
  ic_rt :: "'s runtime"

definition known_slice :: "'s idem_client \<Rightarrow> nat option \<Rightarrow> nat option" where
  "known_slice c n = (case n of None \<Rightarrow> None | Some i \<Rightarrow> if i < length (ic_known c) then Some (ic_known c ! i) else None)"

definition begin_events :: "string \<Rightarrow> string \<Rightarrow> string \<Rightarrow> Reservation \<Rightarrow> goerr option \<Rightarrow> bheap \<Rightarrow> idem_event list" where
  "begin_events scope key fp res err h =
     (if err = None \<and> rv_Status res = idem_StatusNew then [Reserved (scope, key) fp (rv_LeaseToken res)]
      else if err = None \<and> rv_Status res = idem_StatusCompleted then [Replayed (scope, key) fp (bytes_of (rv_Response res) h)]
      else [])"

fun idem_step :: "'s Store \<Rightarrow> idem_act \<Rightarrow> 's idem_client \<Rightarrow> idem_event list \<times> 's idem_client" where
  "idem_step st (IBuild bs) c =
     (let (a, h) = bh_alloc bs (rt_heap (ic_rt c))
      in ([], c\<lparr>ic_known := ic_known c @ [a], ic_rt := (ic_rt c)\<lparr>rt_heap := h\<rparr>\<rparr>))"
| "idem_step st (IWrite n i x) c =
     ([], if n < length (ic_known c)
          then c\<lparr>ic_rt := (ic_rt c)\<lparr>rt_heap := bh_set (ic_known c ! n) i x (rt_heap (ic_rt c))\<rparr>\<rparr> else c)"
| "idem_step st (IBegin ctx scope key fp) c =
     (let (res, err, w) = sr_Begin st ctx scope key fp (ic_rt c)
      in (begin_events scope key fp res err (rt_heap w),
          c\<lparr>ic_known := ic_known c @ (case rv_Response res of None \<Rightarrow> [] | Some a \<Rightarrow> [a]), ic_rt := w\<rparr>))"
| "idem_step st (IFinish ctx res n) c =
     (let (err, w) = sr_Finish st ctx res (known_slice c n) (ic_rt c)
      in (if err = None
          then [Finished (rv_Scope res, rv_Key res) (rv_LeaseToken res) (bytes_of (known_slice c n) (rt_heap (ic_rt c)))]
          else [], c\<lparr>ic_rt := w\<rparr>))"
| "idem_step st (ICancel ctx res) c =
     (let (err, w) = sr_Cancel st ctx res (ic_rt c)
      in (if err = None then [Cancelled (rv_Scope res, rv_Key res) (rv_LeaseToken res)] else [], c\<lparr>ic_rt := w\<rparr>))"

fun idem_log :: "'s Store \<Rightarrow> idem_act list \<Rightarrow> 's idem_client \<Rightarrow> idem_event list" where
  "idem_log st [] c = []"
| "idem_log st (x # xs) c = (let (es, c') = idem_step st x c in es @ idem_log st xs c')"

section \<open>The contract\<close>

text \<open>Leases may lapse, finished responses stay.\<close>

definition lapsed :: "leases \<Rightarrow> leases \<Rightarrow> bool" where
  "lapsed v v' \<longleftrightarrow> (\<forall>k. v' k = v k \<or> v' k = None \<and> (\<exists>fp tok. v k = Some (Held fp tok)))"

lemma lapsed_refl [simp]: "lapsed v v"
  by (simp add: lapsed_def)

lemma lapsed_trans: "lapsed u v \<Longrightarrow> lapsed v w \<Longrightarrow> lapsed u w"
  unfolding lapsed_def by metis

lemma lapsed_upd: "lapsed u v \<Longrightarrow> lapsed (u(k := x)) (v(k := x))"
  by (simp add: lapsed_def)

lemma lapsed_at: "lapsed v v' \<Longrightarrow> v' k = v k \<or> v' k = None \<and> (\<exists>fp tok. v k = Some (Held fp tok))"
  unfolding lapsed_def by (rule spec)

lemma lapsed_held: "lapsed m v \<Longrightarrow> v k = Some x \<Longrightarrow> m k = Some x"
  using lapsed_at [of m v k] by simp

lemma lapsed_not_done:
  assumes "lapsed m v" "\<forall>fp bs. v k \<noteq> Some (Done fp bs)"
  shows "case m k of Some (Done _ _) \<Rightarrow> False | _ \<Rightarrow> True"
  using lapsed_at [OF assms(1), of k] assms(2) by (cases "m k"; cases "the (m k)") auto

lemma apart_grow:
  assumes "A \<subseteq> {..<n} - K" "K \<subseteq> {..<n}" "n \<le> (n' :: nat)" "A' \<subseteq> A" "K' \<subseteq> K \<union> {n..<n'}"
  shows "A' \<subseteq> {..<n'} - K'" "K' \<subseteq> {..<n'}"
proof -
  show "A' \<subseteq> {..<n'} - K'"
  proof
    fix x assume "x \<in> A'"
    then have "x \<in> {..<n} - K" using assms(1,4) by blast
    then show "x \<in> {..<n'} - K'" using assms(3,5) by auto
  qed
  show "K' \<subseteq> {..<n'}"
  proof
    fix x assume "x \<in> K'"
    then have "x < n \<or> x < n'" using assms(2,5) by auto
    then show "x \<in> {..<n'}" using assms(3) by auto
  qed
qed

text \<open>
  The contract of a \<^verbatim>\<open>Store\<close>: \<open>view\<close> is what it knows, \<open>owned\<close> the slices it owns, \<open>issued\<close> the tokens it has
  given out, \<open>room\<close> how many more it can tell apart.
\<close>

locale lease_store =
  fixes st :: "'s Store" and fresh :: 's and view :: "'s runtime \<Rightarrow> leases" and owned :: "'s runtime \<Rightarrow> nat set"
    and issued :: "'s runtime \<Rightarrow> string set" and room :: "'s runtime \<Rightarrow> nat"
  assumes fresh_laws: "rt_obj w = fresh \<Longrightarrow> view w = Map.empty \<and> owned w = {} \<and> issued w = {}"
    and heap_cong: "\<forall>a\<in>owned w. bh_at h a = bh_at (rt_heap w) a \<Longrightarrow>
      view (w\<lparr>rt_heap := h\<rparr>) = view w \<and> owned (w\<lparr>rt_heap := h\<rparr>) = owned w \<and>
      issued (w\<lparr>rt_heap := h\<rparr>) = issued w \<and> room (w\<lparr>rt_heap := h\<rparr>) = room w"
    and begin_heap: "sr_Begin st ctx sc key fp w = (res, err, w') \<Longrightarrow>
      grown (rt_heap w) (rt_heap w') \<and> owned w' \<subseteq> owned w \<and> room w \<le> Suc (room w') \<and>
      (\<forall>a. rv_Response res = Some a \<longrightarrow> bh_next (rt_heap w) \<le> a \<and> a < bh_next (rt_heap w'))"
    and begin_new: "sr_Begin st ctx sc key fp w = (res, None, w') \<Longrightarrow> rv_Status res = idem_StatusNew \<Longrightarrow>
      0 < room w \<Longrightarrow> owned w \<subseteq> {..<bh_next (rt_heap w)} \<Longrightarrow>
      rv_LeaseToken res \<notin> issued w \<and> issued w' = insert (rv_LeaseToken res) (issued w) \<and>
      (\<forall>fp' bs. view w (sc, key) \<noteq> Some (Done fp' bs)) \<and>
      (\<exists>v. lapsed (view w) v \<and> view w' = v((sc, key) \<mapsto> Held fp (rv_LeaseToken res)))"
    and begin_completed: "sr_Begin st ctx sc key fp w = (res, None, w') \<Longrightarrow> rv_Status res = idem_StatusCompleted \<Longrightarrow>
      owned w \<subseteq> {..<bh_next (rt_heap w)} \<Longrightarrow>
      view w (sc, key) = Some (Done fp (bytes_of (rv_Response res) (rt_heap w')))"
    and begin_other: "sr_Begin st ctx sc key fp w = (res, err, w') \<Longrightarrow> err \<noteq> None \<or> rv_Status res \<noteq> idem_StatusNew \<Longrightarrow>
      owned w \<subseteq> {..<bh_next (rt_heap w)} \<Longrightarrow> lapsed (view w) (view w') \<and> issued w' = issued w"
    and finish_heap: "sr_Finish st ctx rv resp w = (err, w') \<Longrightarrow>
      grown (rt_heap w) (rt_heap w') \<and> owned w' \<subseteq> owned w \<union> {bh_next (rt_heap w)..<bh_next (rt_heap w')} \<and>
      issued w' = issued w \<and> room w \<le> room w'"
    and finish_view: "sr_Finish st ctx rv resp w = (err, w') \<Longrightarrow> owned w \<subseteq> {..<bh_next (rt_heap w)} \<Longrightarrow>
      (if err = None
       then \<exists>v f. lapsed (view w) v \<and> v (rv_Scope rv, rv_Key rv) = Some (Held f (rv_LeaseToken rv)) \<and>
              view w' = v((rv_Scope rv, rv_Key rv) \<mapsto> Done f (bytes_of resp (rt_heap w)))
       else lapsed (view w) (view w'))"
    and cancel_laws: "sr_Cancel st ctx rv w = (err, w') \<Longrightarrow>
      rt_heap w' = rt_heap w \<and> owned w' \<subseteq> owned w \<and> issued w' = issued w \<and> room w \<le> room w' \<and>
      (if err = None
       then \<exists>v f. lapsed (view w) v \<and> v (rv_Scope rv, rv_Key rv) = Some (Held f (rv_LeaseToken rv)) \<and>
              view w' = v((rv_Scope rv, rv_Key rv) := None)
       else lapsed (view w) (view w'))"
begin

text \<open>The caller's slices are apart from the store's, and the machine knows what the store knows, or a lease that lapsed.\<close>

definition simulates :: "leases \<Rightarrow> 's idem_client \<Rightarrow> bool" where
  "simulates m c \<longleftrightarrow>
     owned (ic_rt c) \<subseteq> {..<bh_next (rt_heap (ic_rt c))} - set (ic_known c) \<and>
     set (ic_known c) \<subseteq> {..<bh_next (rt_heap (ic_rt c))} \<and> lapsed m (view (ic_rt c))"

lemma simulates_heap:
  assumes "simulates m c" "grown (rt_heap (ic_rt c)) h \<or> bh_next h = bh_next (rt_heap (ic_rt c)) \<and>
      (\<forall>a. a \<notin> set (ic_known c) \<longrightarrow> bh_at h a = bh_at (rt_heap (ic_rt c)) a)"
    "set new \<subseteq> {bh_next (rt_heap (ic_rt c))..<bh_next h}"
  defines "w \<equiv> (ic_rt c)\<lparr>rt_heap := h\<rparr>"
  shows "simulates m (c\<lparr>ic_known := ic_known c @ new, ic_rt := w\<rparr>)" "issued w = issued (ic_rt c)" "room w = room (ic_rt c)"
proof -
  have agree: "\<forall>a\<in>owned (ic_rt c). bh_at h a = bh_at (rt_heap (ic_rt c)) a"
    and le: "bh_next (rt_heap (ic_rt c)) \<le> bh_next h"
    using assms(1,2) by (auto simp: simulates_def grown_def)
  note same = heap_cong [OF agree]
  with assms(1,3) le show "simulates m (c\<lparr>ic_known := ic_known c @ new, ic_rt := w\<rparr>)"
    by (fastforce simp: simulates_def w_def)
  from same show "issued w = issued (ic_rt c)" "room w = room (ic_rt c)" by (simp_all add: w_def)
qed

lemma step_begin:
  assumes sim: "simulates m c" and call: "sr_Begin st ctx sc key fp (ic_rt c) = (res, err, w)" and "0 < room (ic_rt c)"
  defines "es \<equiv> begin_events sc key fp res err (rt_heap w)"
    and "c' \<equiv> c\<lparr>ic_known := ic_known c @ (case rv_Response res of None \<Rightarrow> [] | Some a \<Rightarrow> [a]), ic_rt := w\<rparr>"
  shows "accepts m (issued (ic_rt c)) es \<and> simulates (fold lease_next es m) c' \<and>
    issued w = issued (ic_rt c) \<union> set (tokens es) \<and> room (ic_rt c) \<le> Suc (room w)"
proof -
  have own: "owned (ic_rt c) \<subseteq> {..<bh_next (rt_heap (ic_rt c))}" and lap: "lapsed m (view (ic_rt c))"
    using sim by (auto simp: simulates_def)
  note h = begin_heap [OF call]
  have known: "set (ic_known c') \<subseteq> set (ic_known c) \<union> {bh_next (rt_heap (ic_rt c))..<bh_next (rt_heap w)}"
    using h by (auto simp: c'_def split: option.split)
  have apart: "owned w \<subseteq> {..<bh_next (rt_heap w)} - set (ic_known c')" "set (ic_known c') \<subseteq> {..<bh_next (rt_heap w)}"
    using apart_grow [of "owned (ic_rt c)" "bh_next (rt_heap (ic_rt c))" "set (ic_known c)" "bh_next (rt_heap w)" "owned w"
        "set (ic_known c')"] sim h known by (auto simp only: simulates_def grown_def)
  consider (new) "err = None" "rv_Status res = idem_StatusNew"
    | (other) "err \<noteq> None \<or> rv_Status res \<noteq> idem_StatusNew" by blast
  then show ?thesis
  proof cases
    case new
    from call new have "sr_Begin st ctx sc key fp (ic_rt c) = (res, None, w)" by simp
    note n = begin_new [OF this new(2) assms(3) own]
    from n obtain v where v: "lapsed (view (ic_rt c)) v" "view w = v((sc, key) \<mapsto> Held fp (rv_LeaseToken res))" by blast
    then have "lapsed (m((sc, key) \<mapsto> Held fp (rv_LeaseToken res))) (view w)"
      using lapsed_upd [OF lapsed_trans [OF lap v(1)]] by simp
    with new n h apart lapsed_not_done [OF lap, of "(sc, key)"] show ?thesis
      by (simp add: es_def begin_events_def simulates_def c'_def)
  next
    case other
    have "es = [] \<or> es = [Replayed (sc, key) fp (bytes_of (rv_Response res) (rt_heap w))] \<and>
        err = None \<and> rv_Status res = idem_StatusCompleted"
      using other by (auto simp: es_def begin_events_def)
    then have "accepts m (issued (ic_rt c)) es" "fold lease_next es m = m" "tokens es = []"
      using call begin_completed [of ctx sc key fp "ic_rt c" res w] own lapsed_held [OF lap, of "(sc, key)"] by auto
    with begin_other [OF call other own] h apart lapsed_trans [OF lap] show ?thesis
      by (auto simp: simulates_def c'_def)
  qed
qed

lemma step_finish:
  assumes sim: "simulates m c" and call: "sr_Finish st ctx rv resp (ic_rt c) = (err, w)"
  defines "es \<equiv> (if err = None then [Finished (rv_Scope rv, rv_Key rv) (rv_LeaseToken rv) (bytes_of resp (rt_heap (ic_rt c)))] else [])"
  shows "accepts m (issued (ic_rt c)) es \<and> simulates (fold lease_next es m) (c\<lparr>ic_rt := w\<rparr>) \<and>
    issued w = issued (ic_rt c) \<union> set (tokens es) \<and> room (ic_rt c) \<le> Suc (room w)"
proof -
  have own: "owned (ic_rt c) \<subseteq> {..<bh_next (rt_heap (ic_rt c))}" and lap: "lapsed m (view (ic_rt c))"
    using sim by (auto simp: simulates_def)
  note h = finish_heap [OF call]
  have apart: "owned w \<subseteq> {..<bh_next (rt_heap w)} - set (ic_known c)" "set (ic_known c) \<subseteq> {..<bh_next (rt_heap w)}"
    using sim h by (fastforce simp: simulates_def grown_def)+
  show ?thesis
  proof (cases "err = None")
    case True
    with finish_view [OF call own] obtain v f where v: "lapsed (view (ic_rt c)) v"
      "v (rv_Scope rv, rv_Key rv) = Some (Held f (rv_LeaseToken rv))"
      "view w = v((rv_Scope rv, rv_Key rv) \<mapsto> Done f (bytes_of resp (rt_heap (ic_rt c))))" by auto
    note mv = lapsed_trans [OF lap v(1)]
    have "m (rv_Scope rv, rv_Key rv) = Some (Held f (rv_LeaseToken rv))" by (rule lapsed_held [OF mv v(2)])
    with True h apart v lapsed_upd [OF mv] show ?thesis by (simp add: es_def simulates_def)
  next
    case False
    with finish_view [OF call own] h apart lapsed_trans [OF lap] show ?thesis by (auto simp: es_def simulates_def)
  qed
qed

lemma step_cancel:
  assumes sim: "simulates m c" and call: "sr_Cancel st ctx rv (ic_rt c) = (err, w)"
  defines "es \<equiv> (if err = None then [Cancelled (rv_Scope rv, rv_Key rv) (rv_LeaseToken rv)] else [])"
  shows "accepts m (issued (ic_rt c)) es \<and> simulates (fold lease_next es m) (c\<lparr>ic_rt := w\<rparr>) \<and>
    issued w = issued (ic_rt c) \<union> set (tokens es) \<and> room (ic_rt c) \<le> Suc (room w)"
proof -
  have lap: "lapsed m (view (ic_rt c))" using sim by (simp add: simulates_def)
  note l = cancel_laws [OF call]
  have apart: "owned w \<subseteq> {..<bh_next (rt_heap w)} - set (ic_known c)" "set (ic_known c) \<subseteq> {..<bh_next (rt_heap w)}"
    using sim l by (auto simp: simulates_def)
  show ?thesis
  proof (cases "err = None")
    case True
    with l obtain v f where v: "lapsed (view (ic_rt c)) v"
      "v (rv_Scope rv, rv_Key rv) = Some (Held f (rv_LeaseToken rv))" "view w = v((rv_Scope rv, rv_Key rv) := None)" by auto
    note mv = lapsed_trans [OF lap v(1)]
    have "m (rv_Scope rv, rv_Key rv) = Some (Held f (rv_LeaseToken rv))" by (rule lapsed_held [OF mv v(2)])
    with True l apart v lapsed_upd [OF mv] show ?thesis by (simp add: es_def simulates_def)
  next
    case False
    with l apart lapsed_trans [OF lap] show ?thesis by (auto simp: es_def simulates_def)
  qed
qed

lemma step_simulates:
  assumes "simulates m c" "idem_step st x c = (es, c')" "0 < room (ic_rt c)"
  shows "accepts m (issued (ic_rt c)) es \<and> simulates (fold lease_next es m) c' \<and>
    issued (ic_rt c') = issued (ic_rt c) \<union> set (tokens es) \<and> room (ic_rt c) \<le> Suc (room (ic_rt c'))"
proof (cases x)
  case (IBuild bs)
  let ?h = "snd (bh_alloc bs (rt_heap (ic_rt c)))"
  have "grown (rt_heap (ic_rt c)) ?h" "set [bh_next (rt_heap (ic_rt c))] \<subseteq> {bh_next (rt_heap (ic_rt c))..<bh_next ?h}"
    by (simp_all add: bh_alloc_def grown_def)
  note s = simulates_heap [OF assms(1) disjI1 [OF this(1)] this(2)]
  have "es = []" "c' = c\<lparr>ic_known := ic_known c @ [bh_next (rt_heap (ic_rt c))], ic_rt := (ic_rt c)\<lparr>rt_heap := ?h\<rparr>\<rparr>"
    using assms(2) IBuild by (auto simp: bh_alloc_def)
  with s show ?thesis by simp
next
  case (IWrite n i y)
  let ?h = "if n < length (ic_known c) then bh_set (ic_known c ! n) i y (rt_heap (ic_rt c)) else rt_heap (ic_rt c)"
  have "bh_next ?h = bh_next (rt_heap (ic_rt c)) \<and>
      (\<forall>a. a \<notin> set (ic_known c) \<longrightarrow> bh_at ?h a = bh_at (rt_heap (ic_rt c)) a)"
    by (auto simp: bh_set_def)
  note s = simulates_heap [OF assms(1) disjI2 [OF this], of "[]"]
  have "es = []" "c' = c\<lparr>ic_known := ic_known c @ [], ic_rt := (ic_rt c)\<lparr>rt_heap := ?h\<rparr>\<rparr>"
    using assms(2) IWrite by auto
  with s show ?thesis by simp
next
  case (IBegin ctx sc key fp)
  obtain res err w where call: "sr_Begin st ctx sc key fp (ic_rt c) = (res, err, w)"
    by (cases "sr_Begin st ctx sc key fp (ic_rt c)")
  have "es = begin_events sc key fp res err (rt_heap w)"
    "c' = c\<lparr>ic_known := ic_known c @ (case rv_Response res of None \<Rightarrow> [] | Some a \<Rightarrow> [a]), ic_rt := w\<rparr>"
    using IBegin assms(2) call by simp_all
  with step_begin [OF assms(1) call assms(3)] show ?thesis by simp
next
  case (IFinish ctx rv n)
  obtain err w where call: "sr_Finish st ctx rv (known_slice c n) (ic_rt c) = (err, w)"
    by (cases "sr_Finish st ctx rv (known_slice c n) (ic_rt c)")
  have "es = (if err = None then [Finished (rv_Scope rv, rv_Key rv) (rv_LeaseToken rv)
        (bytes_of (known_slice c n) (rt_heap (ic_rt c)))] else [])" "c' = c\<lparr>ic_rt := w\<rparr>"
    using IFinish assms(2) call by simp_all
  with step_finish [OF assms(1) call] show ?thesis by simp
next
  case (ICancel ctx rv)
  obtain err w where call: "sr_Cancel st ctx rv (ic_rt c) = (err, w)"
    by (cases "sr_Cancel st ctx rv (ic_rt c)")
  have "es = (if err = None then [Cancelled (rv_Scope rv, rv_Key rv) (rv_LeaseToken rv)] else [])" "c' = c\<lparr>ic_rt := w\<rparr>"
    using ICancel assms(2) call by simp_all
  with step_cancel [OF assms(1) call] show ?thesis by simp
qed

text \<open>Refinement: the log of every run is a log of the lease machine.\<close>

lemma log_simulated:
  "simulates m c \<Longrightarrow> length xs \<le> room (ic_rt c) \<Longrightarrow> accepts m (issued (ic_rt c)) (idem_log st xs c)"
proof (induction xs arbitrary: m c)
  case (Cons x xs)
  obtain es c' where step: "idem_step st x c = (es, c')" by (cases "idem_step st x c")
  from Cons.prems have "0 < room (ic_rt c)" by simp
  note s = step_simulates [OF Cons.prems(1) step this]
  then have "accepts (fold lease_next es m) (issued (ic_rt c')) (idem_log st xs c')"
    using Cons.prems(2) by (intro Cons.IH) auto
  with s step show ?case by (simp add: accepts_append)
qed simp

lemma log_accepted:
  assumes "length xs \<le> room w" "rt_obj w = fresh"
  shows "accepts Map.empty {} (idem_log st xs \<lparr>ic_known = [], ic_rt = w\<rparr>)"
  using log_simulated [of Map.empty "\<lparr>ic_known = [], ic_rt = w\<rparr>" xs] fresh_laws [OF assms(2)] assms(1)
  by (simp add: simulates_def)

end

section \<open>The reference store keeps the contract\<close>

definition lease_of :: "bheap \<Rightarrow> fakeEntry \<Rightarrow> lease" where
  "lease_of h e =
     (if fe_status e = idem_StatusInProgress then Held (fe_fingerprint e) (fe_leaseToken e)
      else Done (fe_fingerprint e) (bytes_of (fe_response e) h))"

definition fake_view :: "fakeStore runtime \<Rightarrow> leases" where
  "fake_view w k = map_option (lease_of (rt_heap w)) (fs_entries (rt_obj w) k)"

definition fake_owned :: "fakeStore runtime \<Rightarrow> nat set" where
  "fake_owned w = {a. \<exists>k e. fs_entries (rt_obj w) k = Some e \<and> fe_response e = Some a}"

definition fake_issued :: "fakeStore runtime \<Rightarrow> string set" where
  "fake_issued w = (\<lambda>i. ''lease-'' @ dec_digits i) ` {0<..unat (fs_seq (rt_obj w))}"

definition fake_room :: "fakeStore runtime \<Rightarrow> nat" where
  "fake_room w = 2 ^ 63 - 1 - unat (fs_seq (rt_obj w))"

lemmas fake_abs_defs = fake_view_def fake_owned_def fake_issued_def fake_room_def

lemma fake_put:
  assumes "fs_entries (rt_obj w') = (fs_entries (rt_obj w))(k := x)" "rt_heap w' = rt_heap w"
  shows "fake_view w' = (fake_view w)(k := map_option (lease_of (rt_heap w)) x)"
    and "fake_owned w' \<subseteq> fake_owned w \<union> {a. \<exists>e. x = Some e \<and> fe_response e = Some a}"
proof -
  show "fake_view w' = (fake_view w)(k := map_option (lease_of (rt_heap w)) x)"
    by (rule ext) (simp add: fake_view_def assms)
  show "fake_owned w' \<subseteq> fake_owned w \<union> {a. \<exists>e. x = Some e \<and> fe_response e = Some a}"
    unfolding fake_owned_def assms(1) by (auto simp del: split_paired_Ex split: if_splits)
qed

text \<open>A lookup finds the entry, or drops one that lapsed.\<close>

lemma lookup_cases:
  assumes "fakeStore_lookup fk w = (r, w')"
  obtains (found) "r = fs_entries (rt_obj w) fk" "rt_obj w' = rt_obj w" "rt_heap w' = rt_heap w"
  | (dropped) e where "fs_entries (rt_obj w) fk = Some e" "fe_status e = idem_StatusInProgress" "r = None"
      "rt_obj w' = (rt_obj w)\<lparr>fs_entries := (fs_entries (rt_obj w))(fk := None)\<rparr>" "rt_heap w' = rt_heap w"
  using assms
  by (auto simp: fakeStore_lookup_def fakeStore_reclaimable_def put_entry_def time_Now_def Let_def
      split: option.splits if_splits)

lemma lookup_lapsed:
  assumes "fakeStore_lookup fk w = (r, w')"
  shows "lapsed (fake_view w) (fake_view w')" "fake_owned w' \<subseteq> fake_owned w" "rt_heap w' = rt_heap w"
    "fs_seq (rt_obj w') = fs_seq (rt_obj w)" "r = fs_entries (rt_obj w') fk"
    "r = None \<Longrightarrow> fake_view w fk \<noteq> Some (Done fp bs)"
proof -
  have "lapsed (fake_view w) (fake_view w') \<and> fake_owned w' \<subseteq> fake_owned w \<and> rt_heap w' = rt_heap w \<and>
    fs_seq (rt_obj w') = fs_seq (rt_obj w) \<and> r = fs_entries (rt_obj w') fk \<and>
    (r = None \<longrightarrow> fake_view w fk \<noteq> Some (Done fp bs))"
    using assms
  proof (cases rule: lookup_cases)
    case found
    then have "fake_view w' = fake_view w" "fake_owned w' = fake_owned w"
      by (simp_all add: fake_view_def fake_owned_def fun_eq_iff)
    with found show ?thesis by (simp add: fake_view_def)
  next
    case (dropped e)
    then have "fs_entries (rt_obj w') = (fs_entries (rt_obj w))(fk := None)" by simp
    from fake_put [OF this] dropped have "fake_view w' = (fake_view w)(fk := None)" "fake_owned w' \<subseteq> fake_owned w"
      "fake_view w fk = Some (Held (fe_fingerprint e) (fe_leaseToken e))" by (simp_all add: fake_view_def lease_of_def)
    then show ?thesis using dropped by (simp add: lapsed_def)
  qed
  then show "lapsed (fake_view w) (fake_view w')" "fake_owned w' \<subseteq> fake_owned w" "rt_heap w' = rt_heap w"
    "fs_seq (rt_obj w') = fs_seq (rt_obj w)" "r = fs_entries (rt_obj w') fk"
    "r = None \<Longrightarrow> fake_view w fk \<noteq> Some (Done fp bs)" by simp_all
qed

lemma owned_entry_cases:
  assumes "owned_entry ctx res w = (r, w')"
  shows "lapsed (fake_view w) (fake_view w') \<and> fake_owned w' \<subseteq> fake_owned w \<and> rt_heap w' = rt_heap w \<and>
    fs_seq (rt_obj w') = fs_seq (rt_obj w) \<and>
    (\<forall>e. r = Inr e \<longrightarrow> fs_entries (rt_obj w') (rv_Scope res, rv_Key res) = Some e \<and>
       fe_status e = idem_StatusInProgress \<and> fe_leaseToken e = rv_LeaseToken res)"
proof (cases "ctx_Err ctx = None \<and> rv_Scope res \<noteq> [] \<and> rv_Key res \<noteq> [] \<and> rv_LeaseToken res \<noteq> []")
  case True
  obtain found w1 where l: "fakeStore_lookup (rv_Scope res, rv_Key res) w = (found, w1)"
    by (cases "fakeStore_lookup (rv_Scope res, rv_Key res) w")
  have "w' = w1 \<and> (\<forall>e. r = Inr e \<longrightarrow>
      found = Some e \<and> fe_status e = idem_StatusInProgress \<and> fe_leaseToken e = rv_LeaseToken res)"
    using assms True l by (cases found) (auto simp: owned_entry_def split: if_splits)
  with lookup_lapsed(1-5) [OF l] show ?thesis by simp
next
  case False
  then have "w' = w \<and> (\<exists>e. r = Inl e)"
    using assms by (cases "ctx_Err ctx") (auto simp: owned_entry_def split: if_splits)
  then show ?thesis by auto
qed

lemma cloneBytes_grown:
  assumes "cloneBytes b h = (out, h')"
  shows "grown h h'" "bytes_of out h' = bytes_of b h" "out = Some a \<Longrightarrow> bh_next h \<le> a \<and> a < bh_next h'"
  using assms by (auto simp: cloneBytes_def bh_alloc_def grown_def split: option.splits)

lemma fake_ownedI: "fs_entries (rt_obj w) k = Some e \<Longrightarrow> fe_response e = Some a \<Longrightarrow> a \<in> fake_owned w"
  unfolding fake_owned_def by blast

text \<open>A grown heap shows the same leases.\<close>

lemma fake_view_heap:
  assumes "\<forall>a\<in>fake_owned w. bh_at h a = bh_at (rt_heap w) a"
  shows "fake_view (w\<lparr>rt_heap := h\<rparr>) = fake_view w"
proof
  fix k
  show "fake_view (w\<lparr>rt_heap := h\<rparr>) k = fake_view w k"
  proof (cases "fs_entries (rt_obj w) k")
    case (Some e)
    then have "bytes_of (fe_response e) h = bytes_of (fe_response e) (rt_heap w)"
      using assms fake_ownedI [OF Some] by (cases "fe_response e") simp_all
    with Some show ?thesis by (simp add: fake_view_def lease_of_def)
  qed (simp add: fake_view_def)
qed

lemma fake_owned_grown:
  "fake_owned w \<subseteq> {..<bh_next (rt_heap w)} \<Longrightarrow> grown (rt_heap w) h \<Longrightarrow>
     fake_view (w\<lparr>rt_heap := h\<rparr>) = fake_view w"
  by (rule fake_view_heap) (auto simp: grown_def)

lemma fake_issue:
  assumes "0 < fake_room w"
  shows "''lease-'' @ fmt_d (sint (fs_seq (rt_obj w) + 1)) \<notin> fake_issued w"
    "fs_seq (rt_obj w') = fs_seq (rt_obj w) + 1 \<Longrightarrow>
       fake_issued w' = insert (''lease-'' @ fmt_d (sint (fs_seq (rt_obj w) + 1))) (fake_issued w)"
proof -
  let ?n = "fs_seq (rt_obj w)"
  have lt: "unat ?n < 2 ^ 63 - 1" using assms by (simp add: fake_room_def)
  then have step: "unat (?n + 1) = Suc (unat ?n)" by (rule i64_Suc)
  have upto: "{0<..Suc m} = insert (Suc m) {0<..m}" for m by auto
  have tok: "fmt_d (sint (?n + 1)) = dec_digits (Suc (unat ?n))" unfolding i64_Suc(2) [OF lt] by (rule fmt_d_int)
  show "''lease-'' @ fmt_d (sint (?n + 1)) \<notin> fake_issued w"
    by (auto simp: fake_issued_def tok dest: dec_digits_inj)
  show "fs_seq (rt_obj w') = ?n + 1 \<Longrightarrow> fake_issued w' = insert (''lease-'' @ fmt_d (sint (?n + 1))) (fake_issued w)"
    by (simp add: fake_issued_def tok step upto)
qed

lemma fake_room_step: "fs_seq (rt_obj w') = fs_seq (rt_obj w) + 1 \<Longrightarrow> fake_room w \<le> Suc (fake_room w')"
  using unat_word_ariths(1) [of "fs_seq (rt_obj w)" 1] by (simp add: fake_room_def le_diff_conv)

lemma lookup_settled:
  "fs_entries (rt_obj w) fk = Some e \<Longrightarrow> fe_status e \<noteq> idem_StatusInProgress \<Longrightarrow> fakeStore_lookup fk w = (Some e, w)"
  by (simp add: fakeStore_lookup_def fakeStore_reclaimable_def)

text \<open>What \<^verbatim>\<open>Begin\<close> does, case by case.\<close>

definition begin_refused :: "Reservation \<Rightarrow> goerr option \<Rightarrow> fakeStore runtime \<Rightarrow> fakeStore runtime \<Rightarrow> bool" where
  "begin_refused res err w w' \<longleftrightarrow> err \<noteq> None \<and> w' = w \<and> rv_Response res = None"

definition begin_reserved :: "fakeKey \<Rightarrow> string \<Rightarrow> Reservation \<Rightarrow> goerr option \<Rightarrow> fakeStore runtime \<Rightarrow> fakeStore runtime \<Rightarrow> bool" where
  "begin_reserved k fp res err w w' \<longleftrightarrow>
     err = None \<and> rv_Status res = idem_StatusNew \<and> rv_Response res = None \<and>
     rv_LeaseToken res = ''lease-'' @ fmt_d (sint (fs_seq (rt_obj w) + 1)) \<and>
     fs_seq (rt_obj w') = fs_seq (rt_obj w) + 1 \<and> rt_heap w' = rt_heap w \<and> fake_owned w' \<subseteq> fake_owned w \<and>
     (\<forall>fp' bs. fake_view w k \<noteq> Some (Done fp' bs)) \<and>
     (\<exists>v. lapsed (fake_view w) v \<and> fake_view w' = v(k \<mapsto> Held fp (rv_LeaseToken res)))"

definition begin_replayed :: "fakeKey \<Rightarrow> string \<Rightarrow> Reservation \<Rightarrow> goerr option \<Rightarrow> fakeStore runtime \<Rightarrow> fakeStore runtime \<Rightarrow> bool" where
  "begin_replayed k fp res err w w' \<longleftrightarrow>
     err = None \<and> rv_Status res = idem_StatusCompleted \<and>
     (\<exists>e h. fs_entries (rt_obj w) k = Some e \<and> fe_fingerprint e = fp \<and> fe_status e = idem_StatusCompleted \<and>
        cloneBytes (fe_response e) (rt_heap w) = (rv_Response res, h) \<and> w' = w\<lparr>rt_heap := h\<rparr>)"

definition begin_busy :: "fakeKey \<Rightarrow> Reservation \<Rightarrow> goerr option \<Rightarrow> fakeStore runtime \<Rightarrow> fakeStore runtime \<Rightarrow> bool" where
  "begin_busy k res err w w' \<longleftrightarrow>
     err = None \<and> (rv_Status res = idem_StatusMismatch \<or> rv_Status res = idem_StatusInProgress) \<and> rv_Response res = None \<and>
     (\<exists>found. fakeStore_lookup k w = (found, w'))"

lemma fake_Begin_cases:
  assumes call: "fakeStore_Begin ctx sc key fp w = (res, err, w')"
  shows "begin_refused res err w w' \<or> begin_reserved (sc, key) fp res err w w' \<or>
    begin_replayed (sc, key) fp res err w w' \<or> begin_busy (sc, key) res err w w'"
proof (cases "ctx_Err ctx = None \<and> sc \<noteq> [] \<and> key \<noteq> [] \<and> fp \<noteq> []")
  case True
  obtain found w1 where l: "fakeStore_lookup (sc, key) w = (found, w1)" by (cases "fakeStore_lookup (sc, key) w")
  note lk = lookup_lapsed [OF l]
  show ?thesis
  proof (cases found)
    case None
    then obtain e where e: "fs_entries (rt_obj w') = (fs_entries (rt_obj w1))((sc, key) := Some e)" "rt_heap w' = rt_heap w1"
      "lease_of (rt_heap w') e = Held fp (rv_LeaseToken res)" "fe_response e = None"
      using call True l by (auto simp: fakeStore_Begin_def put_entry_def time_Now_def Let_def lease_of_def)
    have "fake_view w' = (fake_view w1)((sc, key) \<mapsto> Held fp (rv_LeaseToken res))" "fake_owned w' \<subseteq> fake_owned w1"
      using fake_put [OF e(1,2)] e(2-4) by simp_all
    moreover have "begin_reserved (sc, key) fp res err w w' \<longleftrightarrow> fake_owned w' \<subseteq> fake_owned w \<and>
        (\<exists>v. lapsed (fake_view w) v \<and> fake_view w' = v((sc, key) \<mapsto> Held fp (rv_LeaseToken res)))"
      using call True l None lk
      by (auto simp: begin_reserved_def fakeStore_Begin_def put_entry_def time_Now_def Let_def zero_Reservation_def)
    ultimately show ?thesis using lk by blast
  next
    case (Some e)
    have e: "fs_entries (rt_obj w) (sc, key) = Some e" using l Some by (cases rule: lookup_cases) auto
    show ?thesis
    proof (cases "fe_fingerprint e = fp \<and> fe_status e = idem_StatusCompleted")
      case True
      then have "fe_status e \<noteq> idem_StatusInProgress" by (simp add: status_defs)
      from lookup_settled [OF e this] l have "w1 = w" by simp
      with call \<open>ctx_Err ctx = None \<and> _\<close> l Some True e show ?thesis
        by (auto simp: fakeStore_Begin_def begin_replayed_def split: prod.splits)
    next
      case False
      with call \<open>ctx_Err ctx = None \<and> _\<close> l Some have "begin_busy (sc, key) res err w w'"
        by (auto simp: fakeStore_Begin_def begin_busy_def zero_Reservation_def Let_def split: if_splits)
      then show ?thesis by simp
    qed
  qed
next
  case False
  with call have "begin_refused res err w w'"
    by (cases "ctx_Err ctx") (auto simp: fakeStore_Begin_def begin_refused_def zero_Reservation_def split: if_splits)
  then show ?thesis by simp
qed

lemma fake_same_seq: "fs_seq (rt_obj w') = fs_seq (rt_obj w) \<Longrightarrow> fake_issued w' = fake_issued w \<and> fake_room w' = fake_room w"
  by (simp add: fake_issued_def fake_room_def)

lemma fake_begin_heap:
  assumes "fakeStore_Begin ctx sc key fp w = (res, err, w')"
  shows "grown (rt_heap w) (rt_heap w') \<and> fake_owned w' \<subseteq> fake_owned w \<and> fake_room w \<le> Suc (fake_room w') \<and>
    (\<forall>a. rv_Response res = Some a \<longrightarrow> bh_next (rt_heap w) \<le> a \<and> a < bh_next (rt_heap w'))"
  using fake_Begin_cases [OF assms]
proof (elim disjE)
  assume "begin_reserved (sc, key) fp res err w w'"
  then show ?thesis by (auto simp: begin_reserved_def grown_def intro: fake_room_step)
next
  assume "begin_replayed (sc, key) fp res err w w'"
  then obtain e :: fakeEntry and h
    where e: "cloneBytes (fe_response e) (rt_heap w) = (rv_Response res, h)" "w' = w\<lparr>rt_heap := h\<rparr>"
    unfolding begin_replayed_def by blast
  then have "fake_owned w' = fake_owned w" "fake_room w' = fake_room w" by (simp_all add: fake_owned_def fake_room_def)
  with cloneBytes_grown [OF e(1)] e(2) show ?thesis by simp
next
  assume "begin_busy (sc, key) res err w w'"
  then show ?thesis using lookup_lapsed fake_same_seq [of w' w] by (fastforce simp: begin_busy_def grown_def)
qed (simp add: begin_refused_def grown_def)

lemma fake_begin_view:
  assumes "fakeStore_Begin ctx sc key fp w = (res, err, w')" "fake_owned w \<subseteq> {..<bh_next (rt_heap w)}"
  shows "begin_reserved (sc, key) fp res err w w' \<or>
    (err \<noteq> None \<or> rv_Status res \<noteq> idem_StatusNew) \<and> lapsed (fake_view w) (fake_view w') \<and> fake_issued w' = fake_issued w \<and>
    (err = None \<and> rv_Status res = idem_StatusCompleted \<longrightarrow>
       fake_view w (sc, key) = Some (Done fp (bytes_of (rv_Response res) (rt_heap w'))))"
  using fake_Begin_cases [OF assms(1)]
proof (elim disjE)
  assume "begin_replayed (sc, key) fp res err w w'"
  then obtain e h where e: "cloneBytes (fe_response e) (rt_heap w) = (rv_Response res, h)" "w' = w\<lparr>rt_heap := h\<rparr>"
    "fs_entries (rt_obj w) (sc, key) = Some e" "fe_fingerprint e = fp" "fe_status e = idem_StatusCompleted"
    "err = None" "rv_Status res = idem_StatusCompleted" unfolding begin_replayed_def by blast
  from fake_owned_grown [OF assms(2) cloneBytes_grown(1) [OF e(1)]] e(2) have "fake_view w' = fake_view w" by simp
  moreover have "fake_issued w' = fake_issued w" using e(2) by (simp add: fake_issued_def)
  ultimately show ?thesis using e cloneBytes_grown(2) [OF e(1)] by (simp add: fake_view_def lease_of_def status_defs)
next
  assume "begin_busy (sc, key) res err w w'"
  then show ?thesis using lookup_lapsed fake_same_seq [of w' w] by (fastforce simp: begin_busy_def status_defs)
qed (auto simp: begin_refused_def)

lemma fake_finish:
  assumes "fakeStore_Finish ctx res resp w = (err, w')"
  shows "grown (rt_heap w) (rt_heap w') \<and> fs_seq (rt_obj w') = fs_seq (rt_obj w) \<and>
    fake_owned w' \<subseteq> fake_owned w \<union> {bh_next (rt_heap w)..<bh_next (rt_heap w')}" (is ?heap)
    and "fake_owned w \<subseteq> {..<bh_next (rt_heap w)} \<Longrightarrow>
      (if err = None
       then \<exists>v f. lapsed (fake_view w) v \<and> v (rv_Scope res, rv_Key res) = Some (Held f (rv_LeaseToken res)) \<and>
              fake_view w' = v((rv_Scope res, rv_Key res) \<mapsto> Done f (bytes_of resp (rt_heap w)))
       else lapsed (fake_view w) (fake_view w'))" (is "_ \<Longrightarrow> ?view")
proof -
  obtain r w1 where own: "owned_entry ctx res w = (r, w1)" by (cases "owned_entry ctx res w")
  note o = owned_entry_cases [OF own]
  obtain copy h where cp: "cloneBytes resp (rt_heap w1) = (copy, h)" by (cases "cloneBytes resp (rt_heap w1)")
  note g = cloneBytes_grown [OF cp]
  have "?heap \<and> (fake_owned w \<subseteq> {..<bh_next (rt_heap w)} \<longrightarrow> ?view)"
  proof (cases r)
    case (Inl e)
    then have "err = Some e" "w' = w1" using assms own by (simp_all add: fakeStore_Finish_def)
    with o show ?thesis by (auto simp: grown_def)
  next
    case (Inr e)
    let ?w = "w1\<lparr>rt_heap := h\<rparr>" and ?k = "(rv_Scope res, rv_Key res)"
    let ?e = "e\<lparr>fe_status := idem_StatusCompleted, fe_response := copy, fe_leaseToken := []\<rparr>"
    have w': "err = None" "w' = put_entry ?k (Some ?e) ?w"
      using assms own cp Inr by (simp_all add: fakeStore_Finish_def)
    then have p: "fs_entries (rt_obj w') = (fs_entries (rt_obj ?w))(?k := Some ?e)" "rt_heap w' = rt_heap ?w"
      by (simp_all add: put_entry_def)
    have "fake_owned ?w = fake_owned w1" by (simp add: fake_owned_def)
    then have "fake_owned w' \<subseteq> fake_owned w1 \<union> {a. copy = Some a}" using fake_put(2) [OF p] by auto
    moreover have "{a. copy = Some a} \<subseteq> {bh_next (rt_heap w)..<bh_next h}" using g(3) o by auto
    ultimately have heap: ?heap using o g(1) w' by (auto simp: put_entry_def)
    have "?view" if "fake_owned w \<subseteq> {..<bh_next (rt_heap w)}"
    proof -
      have "fake_view ?w = fake_view w1" using o g(1) that by (intro fake_owned_grown) auto
      then have "fake_view w' = (fake_view w1)(?k \<mapsto> Done (fe_fingerprint e) (bytes_of resp (rt_heap w)))"
        using fake_put(1) [OF p] g(2) o by (simp add: lease_of_def status_defs)
      moreover have "fake_view w1 ?k = Some (Held (fe_fingerprint e) (rv_LeaseToken res))"
        using o Inr by (simp add: fake_view_def lease_of_def)
      ultimately show ?thesis using o w' by auto
    qed
    with heap show ?thesis by blast
  qed
  then show ?heap "fake_owned w \<subseteq> {..<bh_next (rt_heap w)} \<Longrightarrow> ?view" by blast+
qed

lemma fake_cancel:
  assumes "fakeStore_Cancel ctx res w = (err, w')"
  shows "rt_heap w' = rt_heap w \<and> fake_owned w' \<subseteq> fake_owned w \<and> fs_seq (rt_obj w') = fs_seq (rt_obj w) \<and>
    (if err = None
     then \<exists>v f. lapsed (fake_view w) v \<and> v (rv_Scope res, rv_Key res) = Some (Held f (rv_LeaseToken res)) \<and>
            fake_view w' = v((rv_Scope res, rv_Key res) := None)
     else lapsed (fake_view w) (fake_view w'))"
proof -
  obtain r w1 where own: "owned_entry ctx res w = (r, w1)" by (cases "owned_entry ctx res w")
  note o = owned_entry_cases [OF own]
  show ?thesis
  proof (cases r)
    case (Inl e)
    with assms own o show ?thesis by (auto simp: fakeStore_Cancel_def)
  next
    case (Inr e)
    let ?k = "(rv_Scope res, rv_Key res)"
    have w': "err = None" "w' = put_entry ?k None w1" using assms own Inr by (simp_all add: fakeStore_Cancel_def)
    then have p: "fs_entries (rt_obj w') = (fs_entries (rt_obj w1))(?k := None)" "rt_heap w' = rt_heap w1"
      by (simp_all add: put_entry_def)
    have "fake_view w1 ?k = Some (Held (fe_fingerprint e) (rv_LeaseToken res))"
      using o Inr by (simp add: fake_view_def lease_of_def)
    with o w' p fake_put [OF p] show ?thesis by (auto simp: put_entry_def)
  qed
qed

interpretation fakelease: lease_store fakeStore_methods "newFakeStore r" fake_view fake_owned fake_issued fake_room for r
proof unfold_locales
  fix w :: "fakeStore runtime" and h
  show "rt_obj w = newFakeStore r \<Longrightarrow> fake_view w = Map.empty \<and> fake_owned w = {} \<and> fake_issued w = {}"
    by (simp add: fake_abs_defs newFakeStore_def fun_eq_iff)
  show "\<forall>a\<in>fake_owned w. bh_at h a = bh_at (rt_heap w) a \<Longrightarrow>
      fake_view (w\<lparr>rt_heap := h\<rparr>) = fake_view w \<and> fake_owned (w\<lparr>rt_heap := h\<rparr>) = fake_owned w \<and>
      fake_issued (w\<lparr>rt_heap := h\<rparr>) = fake_issued w \<and> fake_room (w\<lparr>rt_heap := h\<rparr>) = fake_room w"
    using fake_view_heap by (simp add: fake_owned_def fake_issued_def fake_room_def)
next
  fix ctx sc key fp and w w' :: "fakeStore runtime" and res err
  assume "sr_Begin fakeStore_methods ctx sc key fp w = (res, err, w')"
  then have call: "fakeStore_Begin ctx sc key fp w = (res, err, w')" by (simp add: fakeStore_methods_def)
  from fake_begin_heap [OF call]
  show "grown (rt_heap w) (rt_heap w') \<and> fake_owned w' \<subseteq> fake_owned w \<and> fake_room w \<le> Suc (fake_room w') \<and>
      (\<forall>a. rv_Response res = Some a \<longrightarrow> bh_next (rt_heap w) \<le> a \<and> a < bh_next (rt_heap w'))" .
  assume own: "fake_owned w \<subseteq> {..<bh_next (rt_heap w)}"
  from fake_begin_view [OF call own]
  show "err \<noteq> None \<or> rv_Status res \<noteq> idem_StatusNew \<Longrightarrow> lapsed (fake_view w) (fake_view w') \<and> fake_issued w' = fake_issued w"
    by (auto simp: begin_reserved_def)
next
  fix ctx sc key fp and w w' :: "fakeStore runtime" and res
  assume "sr_Begin fakeStore_methods ctx sc key fp w = (res, None, w')" and own: "fake_owned w \<subseteq> {..<bh_next (rt_heap w)}"
  then have call: "fakeStore_Begin ctx sc key fp w = (res, None, w')" by (simp add: fakeStore_methods_def)
  note v = fake_begin_view [OF call own]
  show "fake_view w (sc, key) = Some (Done fp (bytes_of (rv_Response res) (rt_heap w')))"
    if "rv_Status res = idem_StatusCompleted"
    using v that by (auto simp: begin_reserved_def status_defs)
  show "rv_LeaseToken res \<notin> fake_issued w \<and> fake_issued w' = insert (rv_LeaseToken res) (fake_issued w) \<and>
      (\<forall>fp' bs. fake_view w (sc, key) \<noteq> Some (Done fp' bs)) \<and>
      (\<exists>v. lapsed (fake_view w) v \<and> fake_view w' = v((sc, key) \<mapsto> Held fp (rv_LeaseToken res)))"
    if "rv_Status res = idem_StatusNew" "0 < fake_room w"
    using v that fake_issue(1) [OF that(2)] fake_issue(2) [OF that(2), of w'] by (auto simp: begin_reserved_def)
next
  fix ctx rv resp and w w' :: "fakeStore runtime" and err
  assume "sr_Finish fakeStore_methods ctx rv resp w = (err, w')"
  then have call: "fakeStore_Finish ctx rv resp w = (err, w')" by (simp add: fakeStore_methods_def)
  from fake_finish(1) [OF call] fake_same_seq [of w' w]
  show "grown (rt_heap w) (rt_heap w') \<and> fake_owned w' \<subseteq> fake_owned w \<union> {bh_next (rt_heap w)..<bh_next (rt_heap w')} \<and>
      fake_issued w' = fake_issued w \<and> fake_room w \<le> fake_room w'" by simp
  assume "fake_owned w \<subseteq> {..<bh_next (rt_heap w)}"
  from fake_finish(2) [OF call this]
  show "if err = None
       then \<exists>v f. lapsed (fake_view w) v \<and> v (rv_Scope rv, rv_Key rv) = Some (Held f (rv_LeaseToken rv)) \<and>
              fake_view w' = v((rv_Scope rv, rv_Key rv) \<mapsto> Done f (bytes_of resp (rt_heap w)))
       else lapsed (fake_view w) (fake_view w')" .
next
  fix ctx rv and w w' :: "fakeStore runtime" and err
  assume "sr_Cancel fakeStore_methods ctx rv w = (err, w')"
  then have "fakeStore_Cancel ctx rv w = (err, w')" by (simp add: fakeStore_methods_def)
  from fake_cancel [OF this] fake_same_seq [of w' w]
  show "rt_heap w' = rt_heap w \<and> fake_owned w' \<subseteq> fake_owned w \<and> fake_issued w' = fake_issued w \<and> fake_room w \<le> fake_room w' \<and>
      (if err = None
       then \<exists>v f. lapsed (fake_view w) v \<and> v (rv_Scope rv, rv_Key rv) = Some (Held f (rv_LeaseToken rv)) \<and>
              fake_view w' = v((rv_Scope rv, rv_Key rv) := None)
       else lapsed (fake_view w) (fake_view w'))" by (cases "err = None") auto
qed

text \<open>A run: reserve, finish, overwrite the buffer, begin again.\<close>

definition demo_runtime :: "int \<Rightarrow> fakeStore runtime" where
  "demo_runtime r =
     \<lparr>rt_obj = newFakeStore r, rt_heap = \<lparr>bh_at = \<lambda>_. [], bh_next = 0\<rparr>,
      rt_clock = \<lparr>ck_time = 0, ck_gap = \<lambda>_. 1, ck_reads = 0\<rparr>\<rparr>"

definition demo_acts :: "idem_act list" where
  "demo_acts =
     [IBuild ''hi'', IBegin context_Background ''s'' ''k'' ''f'',
      IFinish context_Background (zero_Reservation\<lparr>rv_Scope := ''s'', rv_Key := ''k'', rv_LeaseToken := ''lease-1''\<rparr>) (Some 0),
      IWrite 0 0 (CHR ''X''), IBegin context_Background ''s'' ''k'' ''f'']"

lemmas fake_call_defs = fakeStore_methods_def fakeStore_Begin_def fakeStore_Finish_def fakeStore_Cancel_def owned_entry_def
  fakeStore_lookup_def fakeStore_reclaimable_def put_entry_def newFakeStore_def zero_Reservation_def cloneBytes_def
  bh_alloc_def bh_set_def time_Now_def status_defs Let_def

lemma demo_log:
  "idem_log fakeStore_methods demo_acts \<lparr>ic_known = [], ic_rt = demo_runtime 5\<rparr> =
     [Reserved (''s'', ''k'') ''f'' ''lease-1''] @ Finished (''s'', ''k'') ''lease-1'' ''hi'' # [Replayed (''s'', ''k'') ''f'' ''hi'']"
  by (simp add: demo_acts_def demo_runtime_def fake_call_defs begin_events_def known_slice_def)

text \<open>
  C5. One execution per key: whatever callers do with a fresh reference store (any contexts, any
  reservations, forged or stale, any reuse of their buffers, any passage of time with any reclaim
  delay) within \<open>2^63\<close> actions, an accepted \<^verbatim>\<open>Finish\<close> carries the token of the last reservation of its
  key, with nothing accepted for the key in between, and afterwards the key is only ever replayed,
  with exactly the bytes of that \<^verbatim>\<open>Finish\<close> and only for the fingerprint of that reservation. Lease
  tokens are never given out twice.
\<close>

theorem idempotency_once:
  assumes "length xs < 2 ^ 63"
    and "idem_log fakeStore_methods xs \<lparr>ic_known = [], ic_rt = \<lparr>rt_obj = newFakeStore r, rt_heap = h, rt_clock = c\<rparr>\<rparr> =
      pre @ Finished k tok bs # post"
  shows "(\<exists>fp pre1 pre2. pre = pre1 @ Reserved k fp tok # pre2 \<and> (\<forall>e\<in>set pre2. ev_key e \<noteq> k) \<and>
      (\<forall>e\<in>set post. ev_key e = k \<longrightarrow> e = Replayed k fp bs)) \<and> distinct (tokens (pre @ Finished k tok bs # post))"
proof -
  have "accepts Map.empty {} (pre @ Finished k tok bs # post)"
    using fakelease.log_accepted [of xs "\<lparr>rt_obj = newFakeStore r, rt_heap = h, rt_clock = c\<rparr>" r] assms
    by (simp add: fake_room_def newFakeStore_def)
  then show ?thesis using finished_once accepts_tokens by blast
qed

theorem idempotency_once_witness:
  "\<exists>fp pre1 pre2. [Reserved (''s'', ''k'') ''f'' ''lease-1''] = pre1 @ Reserved (''s'', ''k'') fp ''lease-1'' # pre2"
  using idempotency_once [OF _ demo_log [unfolded demo_runtime_def]] by (fastforce simp: demo_acts_def)

end
