(* ===== verification/Idempotency_Suite.thy ===== *)
theory Idempotency_Suite
  imports Idempotency
begin

text \<open>
  \<^verbatim>\<open>ports/idempotency/idempotencytest\<close>: the deterministic suite, the time-based reclaim suite, and the
  proofs that the reference store passes both. The concurrent subtest runs under an arbitrary order
  of its goroutines; the reclaim suite under an arbitrary clock whose readings are at most some
  gap apart.
\<close>

section \<open>Helpers of the suite\<close>

definition testFingerprint :: string where "testFingerprint = ''fp-v1''"

definition slice_lit :: "string \<Rightarrow> 's runtime \<Rightarrow> nat option \<times> 's runtime" where
  "slice_lit bs w = (let (a, h) = bh_alloc bs (rt_heap w) in (Some a, w\<lparr>rt_heap := h\<rparr>))"

definition fields_ok :: "Reservation \<Rightarrow> bool" where
  "fields_ok res \<longleftrightarrow>
     (if rv_Status res = idem_StatusNew then rv_Response res = None
      else if rv_Status res = idem_StatusInProgress \<or> rv_Status res = idem_StatusMismatch then
        rv_LeaseToken res = [] \<and> rv_LeaseTTL res = 0 \<and> rv_Response res = None
      else if rv_Status res = idem_StatusCompleted then rv_LeaseToken res = [] \<and> rv_LeaseTTL res = 0
      else False)"

definition beginChecked :: "'s Store \<Rightarrow> string \<Rightarrow> string \<Rightarrow> string \<Rightarrow> 's runtime \<Rightarrow> (Reservation \<times> 's runtime) option" where
  "beginChecked st scope key fingerprint w =
     (let (res, err, w) = sr_Begin st context_Background scope key fingerprint w
      in if err = None \<and> rv_Scope res = scope \<and> rv_Key res = key \<and> fields_ok res then Some (res, w) else None)"

definition beginErr :: "'s Store \<Rightarrow> gocontext \<Rightarrow> string \<Rightarrow> string \<Rightarrow> string \<Rightarrow> 's runtime \<Rightarrow> goerr option \<times> 's runtime" where
  "beginErr st ctx scope key fingerprint w =
     (let (_, err, w) = sr_Begin st ctx scope key fingerprint w in (err, w))"

definition requireStatus :: "Reservation \<Rightarrow> Status \<Rightarrow> unit option" where
  "requireStatus res want = require (rv_Status res = want)"

definition requireResponse :: "Reservation \<Rightarrow> string \<Rightarrow> 's runtime \<Rightarrow> unit option" where
  "requireResponse res want w = require (bytes_of (rv_Response res) (rt_heap w) = want)"

text \<open>The result of a call whose error must have a code; the runtime it leaves.\<close>

definition requireCode :: "goerr option \<times> 's runtime \<Rightarrow> string \<Rightarrow> 's runtime option" where
  "requireCode r want = (if CodeOf (fst r) = want then Some (snd r) else None)"

text \<open>\<^verbatim>\<open>if err != nil { t.Fatalf(...) }\<close>\<close>

definition requireNil :: "goerr option \<times> 's runtime \<Rightarrow> 's runtime option" where
  "requireNil r = (if fst r = None then Some (snd r) else None)"

definition requireIs :: "goerr option \<times> 's runtime \<Rightarrow> goerr \<Rightarrow> 's runtime option" where
  "requireIs r target = (if errors_Is (fst r) target then Some (snd r) else None)"

definition finish_lit :: "'s Store \<Rightarrow> gocontext \<Rightarrow> Reservation \<Rightarrow> string \<Rightarrow> 's runtime \<Rightarrow> goerr option \<times> 's runtime" where
  "finish_lit st ctx res bs w = (let (a, w) = slice_lit bs w in sr_Finish st ctx res a w)"

lemmas suite_helper_defs = testFingerprint_def slice_lit_def fields_ok_def beginChecked_def beginErr_def requireStatus_def
  requireResponse_def requireCode_def requireNil_def requireIs_def finish_lit_def

section \<open>RunStoreContract\<close>

type_synonym 's subtest = "'s Store \<Rightarrow> 's runtime \<Rightarrow> unit option"

definition it_FirstBeginReservesNew :: "'s subtest" where
  "it_FirstBeginReservesNew st w = do {
     (res, w) \<leftarrow> beginChecked st ''tenant:op'' ''k'' testFingerprint w;
     requireStatus res idem_StatusNew;
     require (rv_LeaseToken res \<noteq> [])
   }"

definition it_CrossScopeIsolation :: "'s subtest" where
  "it_CrossScopeIsolation st w = do {
     (resA, w) \<leftarrow> beginChecked st ''tenantA:create'' ''k'' testFingerprint w;
     (resB, w) \<leftarrow> beginChecked st ''tenantB:create'' ''k'' testFingerprint w;
     requireStatus resA idem_StatusNew;
     requireStatus resB idem_StatusNew;
     require (rv_LeaseToken resA \<noteq> rv_LeaseToken resB);
     w \<leftarrow> requireNil (finish_lit st context_Background resA ''response-A'' w);
     (doneA, w) \<leftarrow> beginChecked st ''tenantA:create'' ''k'' testFingerprint w;
     requireStatus doneA idem_StatusCompleted;
     requireResponse doneA ''response-A'' w;
     (stillB, w) \<leftarrow> beginChecked st ''tenantB:create'' ''k'' testFingerprint w;
     requireStatus stillB idem_StatusInProgress;
     w \<leftarrow> requireNil (finish_lit st context_Background resB ''response-B'' w);
     (doneB, w) \<leftarrow> beginChecked st ''tenantB:create'' ''k'' testFingerprint w;
     requireStatus doneB idem_StatusCompleted;
     requireResponse doneB ''response-B'' w
   }"

definition it_TupleSeparationSafety :: "'s subtest" where
  "it_TupleSeparationSafety st w = do {
     (res1, w) \<leftarrow> beginChecked st ''tenant:op'' ''k'' testFingerprint w;
     requireStatus res1 idem_StatusNew;
     w \<leftarrow> requireNil (finish_lit st context_Background res1 ''first'' w);
     (res2, w) \<leftarrow> beginChecked st ''tenant'' ''op:k'' testFingerprint w;
     requireStatus res2 idem_StatusNew;
     require (rv_LeaseToken res1 \<noteq> rv_LeaseToken res2);
     (b1, w) \<leftarrow> beginChecked st ''tenant:op'' ''k'' testFingerprint w;
     requireStatus b1 idem_StatusCompleted;
     (b2, w) \<leftarrow> beginChecked st ''tenant'' ''op:k'' testFingerprint w;
     requireStatus b2 idem_StatusInProgress
   }"

definition addToken :: "string \<Rightarrow> string set \<Rightarrow> string set option" where
  "addToken tok seen = (if tok = [] \<or> tok \<in> seen then None else Some (insert tok seen))"

fun reserve_all :: "'s Store \<Rightarrow> string list \<Rightarrow> string set \<Rightarrow> 's runtime \<Rightarrow> (string set \<times> 's runtime) option" where
  "reserve_all st [] seen w = Some (seen, w)"
| "reserve_all st (key # keys) seen w = do {
     (res, w) \<leftarrow> beginChecked st ''tenant:op'' key testFingerprint w;
     seen \<leftarrow> addToken (rv_LeaseToken res) seen;
     reserve_all st keys seen w
   }"

definition it_LeaseTokenUniqueness :: "'s subtest" where
  "it_LeaseTokenUniqueness st w = do {
     (seen, w) \<leftarrow> reserve_all st [''a'', ''b'', ''c'', ''d'', ''e''] {} w;
     (r1, w) \<leftarrow> beginChecked st ''tenant:op'' ''reuse'' testFingerprint w;
     seen \<leftarrow> addToken (rv_LeaseToken r1) seen;
     w \<leftarrow> requireNil (sr_Cancel st context_Background r1 w);
     (r2, w) \<leftarrow> beginChecked st ''tenant:op'' ''reuse'' testFingerprint w;
     seen \<leftarrow> addToken (rv_LeaseToken r2) seen;
     w \<leftarrow> requireCode (finish_lit st context_Background r1 ''x'' w) CodeConflict;
     w \<leftarrow> requireCode (sr_Cancel st context_Background r1 w) CodeConflict;
     w \<leftarrow> requireNil (finish_lit st context_Background r2 ''y'' w);
     Some ()
   }"

definition it_InProgressOnDuplicateBegin :: "'s subtest" where
  "it_InProgressOnDuplicateBegin st w = do {
     (_, w) \<leftarrow> beginChecked st ''tenant:op'' ''k'' testFingerprint w;
     (res, w) \<leftarrow> beginChecked st ''tenant:op'' ''k'' testFingerprint w;
     requireStatus res idem_StatusInProgress;
     require (rv_LeaseToken res = [] \<and> rv_LeaseTTL res = 0)
   }"

definition it_CompletedReplaysResponse :: "'s subtest" where
  "it_CompletedReplaysResponse st w = do {
     (res, w) \<leftarrow> beginChecked st ''tenant:op'' ''k'' testFingerprint w;
     w \<leftarrow> requireNil (finish_lit st context_Background res ''the-stored-response'' w);
     (got, w) \<leftarrow> beginChecked st ''tenant:op'' ''k'' testFingerprint w;
     requireStatus got idem_StatusCompleted;
     requireResponse got ''the-stored-response'' w
   }"

definition it_CompletedEmptyResponseIsValid :: "'s subtest" where
  "it_CompletedEmptyResponseIsValid st w = do {
     (res, w) \<leftarrow> beginChecked st ''tenant:op'' ''k'' testFingerprint w;
     w \<leftarrow> requireNil (sr_Finish st context_Background res None w);
     (got, w) \<leftarrow> beginChecked st ''tenant:op'' ''k'' testFingerprint w;
     requireStatus got idem_StatusCompleted;
     require (length (bytes_of (rv_Response got) (rt_heap w)) = 0)
   }"

definition it_FingerprintMismatchInProgress :: "'s subtest" where
  "it_FingerprintMismatchInProgress st w = do {
     (_, w) \<leftarrow> beginChecked st ''tenant:op'' ''k'' ''fp-A'' w;
     (got, w) \<leftarrow> beginChecked st ''tenant:op'' ''k'' ''fp-B'' w;
     requireStatus got idem_StatusMismatch;
     require (rv_Response got = None)
   }"

definition it_FingerprintMismatchCompleted :: "'s subtest" where
  "it_FingerprintMismatchCompleted st w = do {
     (res, w) \<leftarrow> beginChecked st ''tenant:op'' ''k'' ''fp-A'' w;
     w \<leftarrow> requireNil (finish_lit st context_Background res ''secret-A'' w);
     (got, w) \<leftarrow> beginChecked st ''tenant:op'' ''k'' ''fp-B'' w;
     requireStatus got idem_StatusMismatch;
     require (rv_Response got = None)
   }"

definition it_CancelThenBeginIsNew :: "'s subtest" where
  "it_CancelThenBeginIsNew st w = do {
     (res, w) \<leftarrow> beginChecked st ''tenant:op'' ''k'' testFingerprint w;
     w \<leftarrow> requireNil (sr_Cancel st context_Background res w);
     (again, w) \<leftarrow> beginChecked st ''tenant:op'' ''k'' testFingerprint w;
     requireStatus again idem_StatusNew
   }"

definition it_CancelDoesNotDeleteCompleted :: "'s subtest" where
  "it_CancelDoesNotDeleteCompleted st w = do {
     (res, w) \<leftarrow> beginChecked st ''tenant:op'' ''k'' testFingerprint w;
     w \<leftarrow> requireNil (finish_lit st context_Background res ''kept'' w);
     w \<leftarrow> requireCode (sr_Cancel st context_Background res w) CodeConflict;
     (got, w) \<leftarrow> beginChecked st ''tenant:op'' ''k'' testFingerprint w;
     requireStatus got idem_StatusCompleted;
     requireResponse got ''kept'' w
   }"

definition forge :: "Reservation \<Rightarrow> Reservation" where
  "forge res = res\<lparr>rv_LeaseToken := rv_LeaseToken res @ ''-forged''\<rparr>"

definition it_ForgedFinishDoesNotOverwrite :: "'s subtest" where
  "it_ForgedFinishDoesNotOverwrite st w = do {
     (res, w) \<leftarrow> beginChecked st ''tenant:op'' ''k'' testFingerprint w;
     w \<leftarrow> requireCode (finish_lit st context_Background (forge res) ''evil'' w) CodeConflict;
     (mid, w) \<leftarrow> beginChecked st ''tenant:op'' ''k'' testFingerprint w;
     requireStatus mid idem_StatusInProgress;
     w \<leftarrow> requireNil (finish_lit st context_Background res ''real'' w);
     (got, w) \<leftarrow> beginChecked st ''tenant:op'' ''k'' testFingerprint w;
     requireResponse got ''real'' w
   }"

definition it_ForgedCancelDoesNotRelease :: "'s subtest" where
  "it_ForgedCancelDoesNotRelease st w = do {
     (res, w) \<leftarrow> beginChecked st ''tenant:op'' ''k'' testFingerprint w;
     w \<leftarrow> requireCode (sr_Cancel st context_Background (forge res) w) CodeConflict;
     (mid, w) \<leftarrow> beginChecked st ''tenant:op'' ''k'' testFingerprint w;
     requireStatus mid idem_StatusInProgress;
     w \<leftarrow> requireNil (sr_Cancel st context_Background res w);
     Some ()
   }"

fun reject_all :: "'s Store \<Rightarrow> Reservation list \<Rightarrow> 's runtime \<Rightarrow> 's runtime option" where
  "reject_all st [] w = Some w"
| "reject_all st (res # cases) w = do {
     w \<leftarrow> requireCode (finish_lit st context_Background res ''x'' w) CodeInvalidArgument;
     w \<leftarrow> requireCode (sr_Cancel st context_Background res w) CodeInvalidArgument;
     reject_all st cases w
   }"

definition it_MalformedReservationRejected :: "'s subtest" where
  "it_MalformedReservationRejected st w = do {
     (live, w) \<leftarrow> beginChecked st ''tenant:op'' ''k'' testFingerprint w;
     w \<leftarrow> reject_all st
       [zero_Reservation,
        zero_Reservation\<lparr>rv_Scope := ''tenant:op'', rv_Key := ''k''\<rparr>,
        zero_Reservation\<lparr>rv_Key := ''k'', rv_LeaseToken := ''tok''\<rparr>,
        zero_Reservation\<lparr>rv_Scope := ''tenant:op'', rv_LeaseToken := ''tok''\<rparr>] w;
     w \<leftarrow> requireNil (finish_lit st context_Background live ''ok'' w);
     Some ()
   }"

text \<open>A second store made during a subtest shares the heap and the clock: \<open>w0\<close> is where the first one started.\<close>

definition it_MutableFieldsAreNotTrusted :: "'s subtest" where
  "it_MutableFieldsAreNotTrusted st w0 = do {
     (res, w) \<leftarrow> beginChecked st ''tenant:op'' ''k'' testFingerprint w0;
     let (garbage, w) = slice_lit ''garbage'' w;
     let tampered = res\<lparr>rv_LeaseTTL := rv_LeaseTTL res + 3600 * 1000000000, rv_Status := idem_StatusCompleted, rv_Response := garbage\<rparr>;
     w \<leftarrow> requireNil (finish_lit st context_Background tampered ''authoritative'' w);
     (got, w) \<leftarrow> beginChecked st ''tenant:op'' ''k'' testFingerprint w;
     requireStatus got idem_StatusCompleted;
     requireResponse got ''authoritative'' w;
     (valid, w) \<leftarrow> beginChecked st ''tenant:op'' ''k'' testFingerprint (w\<lparr>rt_obj := rt_obj w0\<rparr>);
     w \<leftarrow> requireCode (finish_lit st context_Background (forge valid) ''authoritative'' w) CodeConflict;
     Some ()
   }"

definition it_PerStatusFieldInvariants :: "'s subtest" where
  "it_PerStatusFieldInvariants st w = do {
     (newRes, w) \<leftarrow> beginChecked st ''tenant:op'' ''k'' testFingerprint w;
     requireStatus newRes idem_StatusNew;
     (inprog, w) \<leftarrow> beginChecked st ''tenant:op'' ''k'' testFingerprint w;
     requireStatus inprog idem_StatusInProgress;
     (mismatch, w) \<leftarrow> beginChecked st ''tenant:op'' ''k'' ''other-fp'' w;
     requireStatus mismatch idem_StatusMismatch;
     w \<leftarrow> requireNil (finish_lit st context_Background newRes ''done'' w);
     (completed, w) \<leftarrow> beginChecked st ''tenant:op'' ''k'' testFingerprint w;
     requireStatus completed idem_StatusCompleted
   }"

definition it_DuplicateFinishDoesNotOverwrite :: "'s subtest" where
  "it_DuplicateFinishDoesNotOverwrite st w = do {
     (res, w) \<leftarrow> beginChecked st ''tenant:op'' ''k'' testFingerprint w;
     w \<leftarrow> requireNil (finish_lit st context_Background res ''first'' w);
     w \<leftarrow> requireCode (finish_lit st context_Background res ''second'' w) CodeConflict;
     (got, w) \<leftarrow> beginChecked st ''tenant:op'' ''k'' testFingerprint w;
     requireResponse got ''first'' w
   }"

text \<open>\<^verbatim>\<open>s[0] = c\<close>; a nil slice has no element 0, the assignment panics.\<close>

definition set_first :: "nat option \<Rightarrow> char \<Rightarrow> 's runtime \<Rightarrow> 's runtime option" where
  "set_first s c w =
     (case s of
        None \<Rightarrow> None
      | Some a \<Rightarrow> if bh_at (rt_heap w) a = [] then None else Some (w\<lparr>rt_heap := bh_set a 0 c (rt_heap w)\<rparr>))"

definition it_CopySemantics :: "'s subtest" where
  "it_CopySemantics st w = do {
     (res, w) \<leftarrow> beginChecked st ''tenant:op'' ''k'' testFingerprint w;
     let (buf, w) = slice_lit ''original'' w;
     w \<leftarrow> requireNil (sr_Finish st context_Background res buf w);
     w \<leftarrow> set_first buf (CHR ''X'') w;
     (got, w) \<leftarrow> beginChecked st ''tenant:op'' ''k'' testFingerprint w;
     requireResponse got ''original'' w;
     w \<leftarrow> set_first (rv_Response got) (CHR ''Y'') w;
     (again, w) \<leftarrow> beginChecked st ''tenant:op'' ''k'' testFingerprint w;
     requireResponse again ''original'' w
   }"

definition it_MalformedBeginRejected :: "'s subtest" where
  "it_MalformedBeginRejected st w = do {
     w \<leftarrow> requireCode (beginErr st context_Background [] ''k'' testFingerprint w) CodeInvalidArgument;
     w \<leftarrow> requireCode (beginErr st context_Background ''tenant:op'' [] testFingerprint w) CodeInvalidArgument;
     w \<leftarrow> requireCode (beginErr st context_Background ''tenant:op'' ''k'' [] w) CodeInvalidArgument;
     Some ()
   }"

text \<open>
  The goroutines call \<^verbatim>\<open>Begin\<close> in the order \<open>sched\<close>; \<^verbatim>\<open>results\<close> and \<^verbatim>\<open>errs\<close> are indexed by goroutine.
\<close>

fun begin_in_order :: "'s Store \<Rightarrow> nat list \<Rightarrow> 's runtime \<Rightarrow> (nat \<times> Reservation \<times> goerr option) list" where
  "begin_in_order st [] w = []"
| "begin_in_order st (i # sched) w =
     (let (res, err, w) = sr_Begin st context_Background ''tenant:op'' ''k'' testFingerprint w
      in (i, res, err) # begin_in_order st sched w)"

fun claim_loop :: "(nat \<Rightarrow> (Reservation \<times> goerr option) option) \<Rightarrow> nat list \<Rightarrow> nat \<Rightarrow> string \<Rightarrow> (nat \<times> string) option" where
  "claim_loop results [] newCount newToken = Some (newCount, newToken)"
| "claim_loop results (i # is) newCount newToken = do {
     (res, err) \<leftarrow> results i;
     require (err = None);
     (if rv_Status res = idem_StatusNew then claim_loop results is (Suc newCount) (rv_LeaseToken res)
      else if rv_Status res = idem_StatusInProgress then claim_loop results is newCount newToken
      else None)
   }"

definition it_ConcurrentBeginClaimsOnce :: "nat list \<Rightarrow> 's subtest" where
  "it_ConcurrentBeginClaimsOnce sched st w = do {
     (newCount, newToken) \<leftarrow> claim_loop (map_of (begin_in_order st sched w)) [0..<8] 0 [];
     require (newCount = 1);
     require (newToken \<noteq> [])
   }"

definition it_ContextCancellationIsDeterministic :: "'s subtest" where
  "it_ContextCancellationIsDeterministic st w = do {
     (res, w) \<leftarrow> beginChecked st ''tenant:op'' ''k'' testFingerprint w;
     w \<leftarrow> requireIs (beginErr st cancelled_Background ''tenant:op'' ''other'' testFingerprint w) context_Canceled;
     w \<leftarrow> requireIs (finish_lit st cancelled_Background res ''x'' w) context_Canceled;
     w \<leftarrow> requireIs (sr_Cancel st cancelled_Background res w) context_Canceled;
     w \<leftarrow> requireIs (beginErr st expired_Background ''tenant:op'' ''other'' testFingerprint w) context_DeadlineExceeded;
     Some ()
   }"

definition RunStoreContract :: "nat list \<Rightarrow> 's Store \<Rightarrow> 's runtime \<Rightarrow> bool list" where
  "RunStoreContract sched st w0 =
     map (\<lambda>subtest. subtest st w0 = Some ())
       [it_FirstBeginReservesNew, it_CrossScopeIsolation, it_TupleSeparationSafety, it_LeaseTokenUniqueness,
        it_InProgressOnDuplicateBegin, it_CompletedReplaysResponse, it_CompletedEmptyResponseIsValid,
        it_FingerprintMismatchInProgress, it_FingerprintMismatchCompleted, it_CancelThenBeginIsNew,
        it_CancelDoesNotDeleteCompleted, it_ForgedFinishDoesNotOverwrite, it_ForgedCancelDoesNotRelease,
        it_MalformedReservationRejected, it_MutableFieldsAreNotTrusted, it_PerStatusFieldInvariants,
        it_DuplicateFinishDoesNotOverwrite, it_CopySemantics, it_MalformedBeginRejected,
        it_ConcurrentBeginClaimsOnce sched, it_ContextCancellationIsDeterministic]"

section \<open>RunReclaimContract\<close>

record ReclaimOptions =
  ro_ReclaimWithin :: int

text \<open>
  The polling loop may in principle run for ever, so its result is optional. Within it, \<^term>\<open>None\<close> is a
  failed subtest.
\<close>

partial_function (option) reclaim_poll :: "'s Store \<Rightarrow> int \<Rightarrow> int \<Rightarrow> 's runtime \<Rightarrow> (Reservation \<times> 's runtime) option option" where
  "reclaim_poll st deadline poll w =
     (case beginChecked st ''tenant:op'' ''k'' testFingerprint w of
        None \<Rightarrow> Some None
      | Some (r, w) \<Rightarrow>
          if rv_Status r = idem_StatusNew then Some (Some (r, w))
          else if rv_Status r \<noteq> idem_StatusInProgress then Some None
          else
            (let (now, c) = time_Now (rt_clock w);
                 remaining = deadline - now
             in if remaining \<le> 0 then Some None
                else reclaim_poll st deadline poll (w\<lparr>rt_clock := time_Sleep (min remaining poll) c\<rparr>)))"

definition stale_rejected :: "'s Store \<Rightarrow> Reservation \<Rightarrow> Reservation \<Rightarrow> 's runtime \<Rightarrow> unit option" where
  "stale_rejected st res1 res2 w = do {
     require (rv_LeaseToken res2 \<noteq> rv_LeaseToken res1);
     w \<leftarrow> requireCode (finish_lit st context_Background res1 ''x'' w) CodeConflict;
     w \<leftarrow> requireCode (sr_Cancel st context_Background res1 w) CodeConflict;
     w \<leftarrow> requireNil (finish_lit st context_Background res2 ''y'' w);
     Some ()
   }"

definition RunReclaimContract :: "'s Store \<Rightarrow> ReclaimOptions \<Rightarrow> 's runtime \<Rightarrow> unit option option" where
  "RunReclaimContract st opts w =
     (if ro_ReclaimWithin opts \<le> 0 then Some None
      else
        (let (start, c) = time_Now (rt_clock w)
         in case beginChecked st ''tenant:op'' ''k'' testFingerprint (w\<lparr>rt_clock := c\<rparr>) of
              None \<Rightarrow> Some None
            | Some (res1, w) \<Rightarrow>
                if rv_Status res1 \<noteq> idem_StatusNew then Some None
                else
                  (let deadline = start + ro_ReclaimWithin opts;
                       poll = max (ro_ReclaimWithin opts div 10) (2 * 1000000)
                   in case reclaim_poll st deadline poll w of
                        None \<Rightarrow> None
                      | Some None \<Rightarrow> Some None
                      | Some (Some (res2, w)) \<Rightarrow> Some (stale_rejected st res1 res2 w))))"

section \<open>The reference store passes the deterministic suite\<close>

lemmas run_suite = fake_call_defs suite_helper_defs addToken_def forge_def set_first_def

definition fresh_runtime :: "int \<Rightarrow> bheap \<Rightarrow> clock \<Rightarrow> fakeStore runtime" where
  "fresh_runtime r h c = \<lparr>rt_obj = newFakeStore r, rt_heap = h, rt_clock = c\<rparr>"

lemma pass_FirstBeginReservesNew: "it_FirstBeginReservesNew fakeStore_methods (fresh_runtime 0 h c) = Some ()"
  by (simp add: it_FirstBeginReservesNew_def fresh_runtime_def run_suite)

lemma pass_CrossScopeIsolation: "it_CrossScopeIsolation fakeStore_methods (fresh_runtime 0 h c) = Some ()"
  by (simp add: it_CrossScopeIsolation_def fresh_runtime_def run_suite)

lemma pass_TupleSeparationSafety: "it_TupleSeparationSafety fakeStore_methods (fresh_runtime 0 h c) = Some ()"
  by (simp add: it_TupleSeparationSafety_def fresh_runtime_def run_suite)

lemma pass_LeaseTokenUniqueness: "it_LeaseTokenUniqueness fakeStore_methods (fresh_runtime 0 h c) = Some ()"
  by (simp add: it_LeaseTokenUniqueness_def fresh_runtime_def run_suite)

lemma pass_InProgressOnDuplicateBegin: "it_InProgressOnDuplicateBegin fakeStore_methods (fresh_runtime 0 h c) = Some ()"
  by (simp add: it_InProgressOnDuplicateBegin_def fresh_runtime_def run_suite)

lemma pass_CompletedReplaysResponse: "it_CompletedReplaysResponse fakeStore_methods (fresh_runtime 0 h c) = Some ()"
  by (simp add: it_CompletedReplaysResponse_def fresh_runtime_def run_suite)

lemma pass_CompletedEmptyResponseIsValid: "it_CompletedEmptyResponseIsValid fakeStore_methods (fresh_runtime 0 h c) = Some ()"
  by (simp add: it_CompletedEmptyResponseIsValid_def fresh_runtime_def run_suite)

lemma pass_FingerprintMismatchInProgress: "it_FingerprintMismatchInProgress fakeStore_methods (fresh_runtime 0 h c) = Some ()"
  by (simp add: it_FingerprintMismatchInProgress_def fresh_runtime_def run_suite)

lemma pass_FingerprintMismatchCompleted: "it_FingerprintMismatchCompleted fakeStore_methods (fresh_runtime 0 h c) = Some ()"
  by (simp add: it_FingerprintMismatchCompleted_def fresh_runtime_def run_suite)

lemma pass_CancelThenBeginIsNew: "it_CancelThenBeginIsNew fakeStore_methods (fresh_runtime 0 h c) = Some ()"
  by (simp add: it_CancelThenBeginIsNew_def fresh_runtime_def run_suite)

lemma pass_CancelDoesNotDeleteCompleted: "it_CancelDoesNotDeleteCompleted fakeStore_methods (fresh_runtime 0 h c) = Some ()"
  by (simp add: it_CancelDoesNotDeleteCompleted_def fresh_runtime_def run_suite)

lemma pass_ForgedFinishDoesNotOverwrite: "it_ForgedFinishDoesNotOverwrite fakeStore_methods (fresh_runtime 0 h c) = Some ()"
  by (simp add: it_ForgedFinishDoesNotOverwrite_def fresh_runtime_def run_suite)

lemma pass_ForgedCancelDoesNotRelease: "it_ForgedCancelDoesNotRelease fakeStore_methods (fresh_runtime 0 h c) = Some ()"
  by (simp add: it_ForgedCancelDoesNotRelease_def fresh_runtime_def run_suite)

lemma pass_MalformedReservationRejected: "it_MalformedReservationRejected fakeStore_methods (fresh_runtime 0 h c) = Some ()"
  by (simp add: it_MalformedReservationRejected_def fresh_runtime_def run_suite)

lemma pass_MutableFieldsAreNotTrusted: "it_MutableFieldsAreNotTrusted fakeStore_methods (fresh_runtime 0 h c) = Some ()"
  by (simp add: it_MutableFieldsAreNotTrusted_def fresh_runtime_def run_suite)

lemma pass_PerStatusFieldInvariants: "it_PerStatusFieldInvariants fakeStore_methods (fresh_runtime 0 h c) = Some ()"
  by (simp add: it_PerStatusFieldInvariants_def fresh_runtime_def run_suite)

lemma pass_DuplicateFinishDoesNotOverwrite: "it_DuplicateFinishDoesNotOverwrite fakeStore_methods (fresh_runtime 0 h c) = Some ()"
  by (simp add: it_DuplicateFinishDoesNotOverwrite_def fresh_runtime_def run_suite)

lemma pass_CopySemantics: "it_CopySemantics fakeStore_methods (fresh_runtime 0 h c) = Some ()"
  by (simp add: it_CopySemantics_def fresh_runtime_def run_suite)

lemma pass_MalformedBeginRejected: "it_MalformedBeginRejected fakeStore_methods (fresh_runtime 0 h c) = Some ()"
  by (simp add: it_MalformedBeginRejected_def fresh_runtime_def run_suite)

lemma pass_ContextCancellationIsDeterministic: "it_ContextCancellationIsDeterministic fakeStore_methods (fresh_runtime 0 h c) = Some ()"
  by (simp add: it_ContextCancellationIsDeterministic_def fresh_runtime_def run_suite context_Canceled_def
      context_DeadlineExceeded_def)

text \<open>Goroutines: whoever comes first gets the lease, everybody else sees it in progress.\<close>

lemma later_begins:
  assumes "sr_Begin st context_Background ''tenant:op'' ''k'' testFingerprint w = (busy, None, w)"
  shows "begin_in_order st sched w = map (\<lambda>i. (i, busy, None)) sched"
  by (induction sched) (simp_all add: assms)

lemma claim_loop_one:
  assumes "rv_Status new = idem_StatusNew" "rv_Status busy = idem_StatusInProgress"
    "\<And>i. i \<in> set is \<Longrightarrow> results i = Some (if i = i0 then (new, None) else (busy, None))"
  shows "claim_loop results is n tok =
    Some (n + count_list is i0, if i0 \<in> set is then rv_LeaseToken new else tok)"
  using assms(3)
  by (induction "is" arbitrary: n tok) (auto simp: assms(1,2) status_defs)

lemma map_of_schedule:
  "distinct (i0 # sched) \<Longrightarrow> i \<in> set (i0 # sched) \<Longrightarrow>
     map_of ((i0, x) # map (\<lambda>i. (i, y)) sched) i = Some (if i = i0 then x else y)"
  by (auto simp: map_of_map_restrict)

lemma pass_ConcurrentBeginClaimsOnce:
  assumes perm: "distinct sched" "set sched = {0..<8}"
  shows "it_ConcurrentBeginClaimsOnce sched fakeStore_methods (fresh_runtime 0 h c) = Some ()"
proof -
  from perm obtain i0 rest where sched: "sched = i0 # rest" by (cases sched) auto
  obtain new w1 where first: "sr_Begin fakeStore_methods context_Background ''tenant:op'' ''k'' testFingerprint (fresh_runtime 0 h c) =
      (new, None, w1)" "rv_Status new = idem_StatusNew" "rv_LeaseToken new = ''lease-1''"
    and later: "\<exists>busy. rv_Status busy = idem_StatusInProgress \<and>
      sr_Begin fakeStore_methods context_Background ''tenant:op'' ''k'' testFingerprint w1 = (busy, None, w1)"
    by (simp add: fake_call_defs fresh_runtime_def testFingerprint_def)
  from later obtain busy where busy: "rv_Status busy = idem_StatusInProgress"
    "sr_Begin fakeStore_methods context_Background ''tenant:op'' ''k'' testFingerprint w1 = (busy, None, w1)" by blast
  have order: "begin_in_order fakeStore_methods sched (fresh_runtime 0 h c) = (i0, new, None) # map (\<lambda>i. (i, busy, None)) rest"
    by (simp add: sched first later_begins [OF busy(2)])
  have "map_of (begin_in_order fakeStore_methods sched (fresh_runtime 0 h c)) i = Some (if i = i0 then (new, None) else (busy, None))"
    if "i \<in> set [0..<8]" for i
  proof -
    have "distinct (i0 # rest)" "i \<in> set (i0 # rest)" using that perm sched by simp_all
    then show ?thesis unfolding order by (rule map_of_schedule)
  qed
  then have loop: "claim_loop (map_of (begin_in_order fakeStore_methods sched (fresh_runtime 0 h c))) [0..<8] 0 [] =
      Some (0 + count_list [0..<8] i0, if i0 \<in> set [0..<8] then rv_LeaseToken new else [])"
    by (rule claim_loop_one [OF first(2) busy(1)])
  have i0: "i0 \<in> set [0..<8]" using perm sched by auto
  then have "count_list [0..<8] i0 = 1" by (auto simp: upt_rec)
  with loop i0 show ?thesis by (simp add: it_ConcurrentBeginClaimsOnce_def first(3))
qed

text \<open>
  The reference store passes all 21 subtests of the deterministic suite, whatever the clock
  does and in whatever order the eight concurrent goroutines reach the store.
\<close>

theorem idempotency_suite_passes:
  assumes "distinct sched" "set sched = {0..<8}"
  shows "RunStoreContract sched fakeStore_methods (fresh_runtime 0 h c) = replicate 21 True"
  by (simp add: RunStoreContract_def numeral_eq_Suc pass_ConcurrentBeginClaimsOnce [OF assms] pass_FirstBeginReservesNew
      pass_CrossScopeIsolation
      pass_TupleSeparationSafety
      pass_LeaseTokenUniqueness
      pass_InProgressOnDuplicateBegin
      pass_CompletedReplaysResponse
      pass_CompletedEmptyResponseIsValid
      pass_FingerprintMismatchInProgress
      pass_FingerprintMismatchCompleted
      pass_CancelThenBeginIsNew
      pass_CancelDoesNotDeleteCompleted
      pass_ForgedFinishDoesNotOverwrite
      pass_ForgedCancelDoesNotRelease
      pass_MalformedReservationRejected
      pass_MutableFieldsAreNotTrusted
      pass_PerStatusFieldInvariants
      pass_DuplicateFinishDoesNotOverwrite
      pass_CopySemantics
      pass_MalformedBeginRejected
      pass_ContextCancellationIsDeterministic)

theorem idempotency_suite_passes_witness:
  "RunStoreContract [3, 0, 7, 1, 2, 6, 5, 4] fakeStore_methods (demo_runtime 0) = replicate 21 True"
  unfolding demo_runtime_def fresh_runtime_def [symmetric] by (rule idempotency_suite_passes) auto

section \<open>The polling loop\<close>

text \<open>The clock only moves forward, and the loop sleeps until the deadline at the latest.\<close>

lemma time_Now_props:
  assumes "time_Now c = (t, c')"
  shows "t = ck_time c + int (ck_gap c (ck_reads c))" "ck_time c' = t" "ck_gap c' = ck_gap c"
  using assms by (auto simp: time_Now_def Let_def)

lemma reclaim_poll_returns:
  assumes forward: "\<And>w res err w'. sr_Begin st context_Background ''tenant:op'' ''k'' testFingerprint w = (res, err, w') \<Longrightarrow>
      ck_time (rt_clock w) \<le> ck_time (rt_clock w')"
    and "0 < poll"
  shows "\<exists>v. reclaim_poll st deadline poll w = Some v"
proof (induction "nat (deadline - ck_time (rt_clock w))" arbitrary: w rule: less_induct)
  case less
  show ?case
  proof (cases "beginChecked st ''tenant:op'' ''k'' testFingerprint w")
    case None
    then show ?thesis by (simp add: reclaim_poll.simps)
  next
    case (Some rw)
    obtain r w1 where rw: "rw = (r, w1)" by (cases rw)
    obtain now c where t: "time_Now (rt_clock w1) = (now, c)" by (cases "time_Now (rt_clock w1)")
    let ?next = "w1\<lparr>rt_clock := time_Sleep (min (deadline - now) poll) c\<rparr>"
    have "ck_time (rt_clock w) \<le> ck_time (rt_clock w1)"
      using Some rw forward by (auto simp: beginChecked_def split: prod.splits if_splits)
    then have "nat (deadline - ck_time (rt_clock ?next)) < nat (deadline - ck_time (rt_clock w))" if "0 < deadline - now"
      using that time_Now_props [OF t] assms(2) by (simp add: time_Sleep_def)
    from less [OF this] show ?thesis
      using Some rw t by (subst reclaim_poll.simps) (auto simp: Let_def)
  qed
qed

text \<open>
  C25. The reclaim suite always ends: for every store whose \<^verbatim>\<open>Begin\<close> does not turn the clock back, every
  declared bound and every clock, the polling loop returns, with a verdict.
\<close>

theorem reclaim_suite_terminates:
  assumes "\<And>w res err w'. sr_Begin st context_Background ''tenant:op'' ''k'' testFingerprint w = (res, err, w') \<Longrightarrow>
      ck_time (rt_clock w) \<le> ck_time (rt_clock w')"
  shows "\<exists>v. RunReclaimContract st opts w = Some v"
proof -
  have "\<exists>v. reclaim_poll st d (max (ro_ReclaimWithin opts div 10) (2 * 1000000)) w = Some v" for d w
    using assms by (rule reclaim_poll_returns) simp_all
  then show ?thesis
    unfolding RunReclaimContract_def Let_def
    by (auto split: prod.splits option.splits) (metis option.distinct(1))+
qed

lemma fake_begin_forward:
  "fakeStore_Begin ctx sc key fp w = (res, err, w') \<Longrightarrow> ck_time (rt_clock w) \<le> ck_time (rt_clock w')"
  by (auto simp: fakeStore_Begin_def fakeStore_lookup_def fakeStore_reclaimable_def put_entry_def time_Now_def Let_def
      split: option.splits if_splits prod.splits)

theorem reclaim_suite_terminates_witness:
  "\<exists>v. RunReclaimContract fakeStore_methods \<lparr>ro_ReclaimWithin = 80\<rparr> (demo_runtime 0) = Some v"
  by (rule reclaim_suite_terminates) (simp add: fakeStore_methods_def fake_begin_forward)

section \<open>The reference store is reclaimed in time\<close>

text \<open>The store after a reservation made at time \<open>t\<close> and never finished.\<close>

definition held_store :: "int \<Rightarrow> string \<Rightarrow> i64 \<Rightarrow> int \<Rightarrow> fakeStore" where
  "held_store r tok n t =
     \<lparr>fs_entries = [(''tenant:op'', ''k'') \<mapsto>
        \<lparr>fe_fingerprint = testFingerprint, fe_leaseToken = tok, fe_status = idem_StatusInProgress, fe_response = None,
         fe_reservedAt = t\<rparr>], fs_seq = n, fs_reclaimAfter = r\<rparr>"

definition reserved_as :: "string \<Rightarrow> Reservation" where
  "reserved_as tok =
     \<lparr>rv_Scope = ''tenant:op'', rv_Key = ''k'', rv_LeaseToken = tok, rv_LeaseTTL = 60 * 1000000000,
      rv_Status = idem_StatusNew, rv_Response = None\<rparr>"

lemma begin_fresh:
  "time_Now c = (t, c1) \<Longrightarrow> beginChecked fakeStore_methods ''tenant:op'' ''k'' testFingerprint \<lparr>rt_obj = newFakeStore r, rt_heap = h, rt_clock = c\<rparr> =
     Some (reserved_as ''lease-1'', \<lparr>rt_obj = held_store r ''lease-1'' 1 t, rt_heap = h, rt_clock = c1\<rparr>)"
  by (simp add: fakeStore_methods_def fakeStore_Begin_def fakeStore_lookup_def newFakeStore_def put_entry_def
      zero_Reservation_def beginChecked_def fields_ok_def held_store_def reserved_as_def testFingerprint_def status_defs Let_def)

lemma begin_held:
  fixes t0 :: int and h :: bheap
  assumes "0 < r" "time_Now c = (t, c1)" "time_Now c1 = (t2, c2)"
  defines "w \<equiv> \<lparr>rt_obj = held_store r ''lease-1'' 1 t0, rt_heap = h, rt_clock = c\<rparr>"
  shows "t - t0 < r \<Longrightarrow> beginChecked fakeStore_methods ''tenant:op'' ''k'' testFingerprint w =
      Some (zero_Reservation\<lparr>rv_Scope := ''tenant:op'', rv_Key := ''k'', rv_Status := idem_StatusInProgress\<rparr>, w\<lparr>rt_clock := c1\<rparr>)"
    and "\<not> t - t0 < r \<Longrightarrow> beginChecked fakeStore_methods ''tenant:op'' ''k'' testFingerprint w =
      Some (reserved_as ''lease-2'', \<lparr>rt_obj = held_store r ''lease-2'' 2 t2, rt_heap = h, rt_clock = c2\<rparr>)"
  using assms
  by (simp_all add: fakeStore_methods_def fakeStore_Begin_def fakeStore_lookup_def fakeStore_reclaimable_def put_entry_def
      zero_Reservation_def beginChecked_def fields_ok_def held_store_def reserved_as_def testFingerprint_def status_defs Let_def)

lemma reclaim_poll_reclaims:
  assumes "0 < r" "0 < poll" "t0 + r + int J \<le> deadline" "\<forall>n. ck_gap c n \<le> J"
  shows "\<exists>t2 c2. reclaim_poll fakeStore_methods deadline poll \<lparr>rt_obj = held_store r ''lease-1'' 1 t0, rt_heap = h, rt_clock = c\<rparr> =
      Some (Some (reserved_as ''lease-2'', \<lparr>rt_obj = held_store r ''lease-2'' 2 t2, rt_heap = h, rt_clock = c2\<rparr>)) \<and>
    ck_time c2 = t2 \<and> ck_gap c2 = ck_gap c"
  using assms(4)
proof (induction "nat (t0 + r - ck_time c)" arbitrary: c rule: less_induct)
  case less
  obtain t c1 where n1: "time_Now c = (t, c1)" by (cases "time_Now c")
  obtain t2 c2 where n2: "time_Now c1 = (t2, c2)" by (cases "time_Now c1")
  note p1 = time_Now_props [OF n1] and p2 = time_Now_props [OF n2]
  note b = begin_held [OF assms(1) n1 n2, of t0 h]
  show ?case
  proof (cases "t - t0 < r")
    case False
    with b p1 p2 show ?thesis by (subst reclaim_poll.simps) (auto simp: reserved_as_def)
  next
    case True
    let ?c = "time_Sleep (min (deadline - t2) poll) c2"
    have "int (ck_gap c1 (ck_reads c1)) \<le> int J" using less.prems p1 by simp
    then have left: "0 < deadline - t2" using True p2 assms(3) p1 by linarith
    have "nat (t0 + r - ck_time ?c) < nat (t0 + r - ck_time c)"
      using True left p1 p2 assms(2) by (simp add: time_Sleep_def)
    moreover have "\<forall>n. ck_gap ?c n \<le> J" using less.prems p1 p2 by (simp add: time_Sleep_def)
    moreover have "ck_gap ?c = ck_gap c" using p1 p2 by (simp add: time_Sleep_def)
    ultimately show ?thesis
      using b True left n2 less.hyps [of ?c] by (subst reclaim_poll.simps) (auto simp: status_defs Let_def)
  qed
qed

lemma stale_is_rejected:
  assumes "0 < r" "3 * int J < r" "\<forall>n. ck_gap c n \<le> J" "ck_time c = t"
  shows "stale_rejected fakeStore_methods (reserved_as ''lease-1'') (reserved_as ''lease-2'')
    \<lparr>rt_obj = held_store r ''lease-2'' 2 t, rt_heap = h, rt_clock = c\<rparr> = Some ()"
proof -
  obtain t1 c1 where n1: "time_Now c = (t1, c1)" by (cases "time_Now c")
  obtain t2 c2 where n2: "time_Now c1 = (t2, c2)" by (cases "time_Now c1")
  obtain t3 c3 where n3: "time_Now c2 = (t3, c3)" by (cases "time_Now c2")
  have gap: "int (ck_gap c n) \<le> int J" for n using assms(3) by simp
  have "\<not> r \<le> t1 - t" "\<not> r \<le> t2 - t" "\<not> r \<le> t3 - t"
    using time_Now_props [OF n1] time_Now_props [OF n2] time_Now_props [OF n3] assms(2,4)
      gap [of "ck_reads c"] gap [of "ck_reads c1"] gap [of "ck_reads c2"] by simp_all
  with n1 n2 n3 assms(1) show ?thesis
    by (simp add: stale_rejected_def run_suite held_store_def reserved_as_def del: time_Now_def)
qed

text \<open>
  C24. An abandoned reservation is reclaimed in time: the reference store with reclaim delay \<open>r\<close>
  passes the reclaim suite with declared bound \<open>w\<close> whenever consecutive clock readings are at most
  \<open>J\<close> apart, with \<open>3 J < r\<close> and \<open>r + 2 J \<le> w\<close>: the loop returns, the key can be reserved again under a
  new token, the stale reservation is refused and the new one can be finished.
\<close>

theorem reclaim_suite_passes:
  assumes "3 * int J < r" "r + 2 * int J \<le> within" "\<forall>n. ck_gap c n \<le> J"
  shows "RunReclaimContract fakeStore_methods \<lparr>ro_ReclaimWithin = within\<rparr> (fresh_runtime r h c) = Some (Some ())"
proof -
  obtain start c1 where n1: "time_Now c = (start, c1)" by (cases "time_Now c")
  obtain t0 c2 where n2: "time_Now c1 = (t0, c2)" by (cases "time_Now c1")
  note p1 = time_Now_props [OF n1] and p2 = time_Now_props [OF n2]
  let ?poll = "max (within div 10) (2 * 1000000)"
  have r: "0 < r" "0 < within" using assms(1,2) by linarith+
  have pos: "0 < ?poll" by (simp add: less_max_iff_disj)
  have "int (ck_gap c1 (ck_reads c1)) \<le> int J" using assms(3) p1 by simp
  then have "t0 + r + int J \<le> start + within" using p1 p2 assms(2) by linarith
  moreover have "\<forall>n. ck_gap c2 n \<le> J" using assms(3) p1 p2 by simp
  ultimately obtain t3 c3 where poll: "reclaim_poll fakeStore_methods (start + within) ?poll
      \<lparr>rt_obj = held_store r ''lease-1'' 1 t0, rt_heap = h, rt_clock = c2\<rparr> =
      Some (Some (reserved_as ''lease-2'', \<lparr>rt_obj = held_store r ''lease-2'' 2 t3, rt_heap = h, rt_clock = c3\<rparr>))"
      "ck_time c3 = t3" "ck_gap c3 = ck_gap c2"
    using reclaim_poll_reclaims [OF r(1) pos, of t0 J "start + within" c2 h] by blast
  have "stale_rejected fakeStore_methods (reserved_as ''lease-1'') (reserved_as ''lease-2'')
      \<lparr>rt_obj = held_store r ''lease-2'' 2 t3, rt_heap = h, rt_clock = c3\<rparr> = Some ()"
    using poll assms p1 p2 r by (intro stale_is_rejected) simp_all
  with poll r n1 begin_fresh [OF n2] show ?thesis
    by (simp add: RunReclaimContract_def fresh_runtime_def reserved_as_def)
qed

theorem reclaim_suite_passes_witness:
  "RunReclaimContract fakeStore_methods \<lparr>ro_ReclaimWithin = 80000000\<rparr> (demo_runtime 20000000) = Some (Some ())"
  unfolding demo_runtime_def fresh_runtime_def [symmetric]
  by (rule reclaim_suite_passes [where J = 1000000]) simp_all

end
