(* ===== verification/Jobs.thy ===== *)
theory Jobs
  imports Go_Runtime
begin

text \<open>
  \<^verbatim>\<open>ports/jobs\<close>: the contract types, the synchronous conformance suite \<^verbatim>\<open>jobstest.RunContract\<close> with the backend it
  is proven against, and the reference queue of the delivery suite: one shared store, any number of
  workers, each handler in a goroutine of its own.

  A pool of workers is a step relation whose rules are the atomic sections of the code; every
  interleaving is a path of it. Shown for every reachable pool: the log of deliveries is a log of
  an abstract queue (right type, bytes and identity, never before its time, never twice at once,
  never after success), and no accepted job is lost.
\<close>

section \<open>jobs.go\<close>

text \<open>The zero \<^verbatim>\<open>time.Time\<close> is \<^term>\<open>None\<close>.\<close>

record Job =
  jb_Type :: string
  jb_Payload :: "nat option"
  jb_ProcessAt :: "int option"

record JobInfo =
  ji_ID :: string

record Task =
  tk_ID :: string
  tk_Type :: string
  tk_Payload :: "nat option"

definition zero_JobInfo :: JobInfo where "zero_JobInfo = \<lparr>ji_ID = []\<rparr>"

section \<open>Systems that count what they hand out\<close>

text \<open>
  A step relation with an invariant that holds as long as a counter, which never goes down, stays
  below a limit. Both queues are such systems: they name their jobs by a 64 bit number.
\<close>

locale counted_system =
  fixes step :: "'s \<Rightarrow> 's \<Rightarrow> bool" and init :: 's and inv :: "'s \<Rightarrow> bool" and used :: "'s \<Rightarrow> nat" and limit :: nat
  assumes init_inv: "inv init"
    and step_inv: "step s s' \<Longrightarrow> inv s \<Longrightarrow> used s' < limit \<Longrightarrow> inv s'"
    and used_grows: "step s s' \<Longrightarrow> used s \<le> used s'"
begin

lemma reachable: "step\<^sup>*\<^sup>* init s \<Longrightarrow> used s < limit \<Longrightarrow> inv s"
proof (induction rule: rtranclp_induct)
  case base
  show ?case by (rule init_inv)
next
  case (step s s')
  from used_grows [OF step.hyps(2)] step.prems have "used s < limit" by simp
  with step.IH step.hyps(2) step.prems show ?case by (blast intro: step_inv)
qed

end

section \<open>jobstest.go: the synchronous suite\<close>

text \<open>A backend with state \<open>'s\<close> and handlers of type \<open>'h\<close>; a nil handler is \<^term>\<open>None\<close>.\<close>

record ('s, 'h) Backend =
  bk_Enqueue :: "gocontext \<Rightarrow> Job \<Rightarrow> 's runtime \<Rightarrow> JobInfo \<times> goerr option \<times> 's runtime"
  bk_Register :: "string \<Rightarrow> 'h option \<Rightarrow> 's runtime \<Rightarrow> goerr option \<times> 's runtime"

type_synonym ('s, 'h) job_subtest = "('s, 'h) Backend \<Rightarrow> 'h \<Rightarrow> 's runtime \<Rightarrow> bool"

definition payload_lit :: "string \<Rightarrow> 's runtime \<Rightarrow> nat option \<times> 's runtime" where
  "payload_lit bs w = (let (a, h) = bh_alloc bs (rt_heap w) in (Some a, w\<lparr>rt_heap := h\<rparr>))"

definition jt_MalformedEnqueue :: "('s, 'h) job_subtest" where
  "jt_MalformedEnqueue b hf w =
     (let (info, err, w) = bk_Enqueue b context_Background \<lparr>jb_Type = [], jb_Payload = None, jb_ProcessAt = None\<rparr> w
      in CodeOf err = CodeInvalidArgument \<and> ji_ID info = [])"

definition jt_MalformedEnqueuePrecedence :: "('s, 'h) job_subtest" where
  "jt_MalformedEnqueuePrecedence b hf w =
     (let (info, err, w) = bk_Enqueue b cancelled_Background \<lparr>jb_Type = [], jb_Payload = None, jb_ProcessAt = None\<rparr> w
      in CodeOf err = CodeInvalidArgument \<and> \<not> errors_Is err context_Canceled \<and> ji_ID info = [])"

definition jt_MalformedEnqueuePrecedenceDeadline :: "('s, 'h) job_subtest" where
  "jt_MalformedEnqueuePrecedenceDeadline b hf w =
     (let (info, err, w) = bk_Enqueue b expired_Background \<lparr>jb_Type = [], jb_Payload = None, jb_ProcessAt = None\<rparr> w
      in CodeOf err = CodeInvalidArgument \<and> \<not> errors_Is err context_DeadlineExceeded \<and> ji_ID info = [])"

definition jt_EnqueueReturnsNonEmptyID :: "('s, 'h) job_subtest" where
  "jt_EnqueueReturnsNonEmptyID b hf w =
     (let (p, w) = payload_lit ''p'' w;
          (info, err, w) = bk_Enqueue b context_Background \<lparr>jb_Type = ''jobstest:ok'', jb_Payload = p, jb_ProcessAt = None\<rparr> w
      in err = None \<and> ji_ID info \<noteq> [])"

definition jt_EnqueueNilPayloadAccepted :: "('s, 'h) job_subtest" where
  "jt_EnqueueNilPayloadAccepted b hf w =
     (let (info, err, w) = bk_Enqueue b context_Background \<lparr>jb_Type = ''jobstest:nil-payload'', jb_Payload = None, jb_ProcessAt = None\<rparr> w
      in err = None \<and> ji_ID info \<noteq> [])"

definition jt_EnqueueCtxCancellation :: "('s, 'h) job_subtest" where
  "jt_EnqueueCtxCancellation b hf w =
     (let (p, w) = payload_lit ''p'' w;
          (info, err, w) = bk_Enqueue b cancelled_Background \<lparr>jb_Type = ''jobstest:cancelled'', jb_Payload = p, jb_ProcessAt = None\<rparr> w
      in errors_Is err context_Canceled \<and> ji_ID info = [])"

definition jt_EnqueueDeadlineExceeded :: "('s, 'h) job_subtest" where
  "jt_EnqueueDeadlineExceeded b hf w =
     (let (p, w) = payload_lit ''p'' w;
          (info, err, w) = bk_Enqueue b expired_Background \<lparr>jb_Type = ''jobstest:expired'', jb_Payload = p, jb_ProcessAt = None\<rparr> w
      in errors_Is err context_DeadlineExceeded \<and> ji_ID info = [])"

definition jt_RegisterValidation :: "('s, 'h) job_subtest" where
  "jt_RegisterValidation b hf w =
     (let (err, w) = bk_Register b ''jobstest:reg'' (Some hf) w in err = None \<and>
       (let (err, w) = bk_Register b [] (Some hf) w in CodeOf err = CodeInvalidArgument \<and>
         (let (err, w) = bk_Register b ''jobstest:nil-handler'' None w in CodeOf err = CodeInvalidArgument \<and>
           (let (err, w) = bk_Register b ''jobstest:reg'' (Some hf) w in CodeOf err = CodeAlreadyExists))))"

definition jt_RegisterValidationPrecedence :: "('s, 'h) job_subtest" where
  "jt_RegisterValidationPrecedence b hf w =
     (let (err, w) = bk_Register b ''jobstest:prec'' (Some hf) w in err = None \<and>
       (let (err, w) = bk_Register b ''jobstest:prec'' None w in CodeOf err = CodeInvalidArgument))"

definition jobs_RunContract :: "('s, 'h) Backend \<Rightarrow> 'h \<Rightarrow> 's runtime \<Rightarrow> bool list" where
  "jobs_RunContract b hf w0 =
     map (\<lambda>subtest. subtest b hf w0)
       [jt_MalformedEnqueue, jt_MalformedEnqueuePrecedence, jt_MalformedEnqueuePrecedenceDeadline, jt_EnqueueReturnsNonEmptyID,
        jt_EnqueueNilPayloadAccepted, jt_EnqueueCtxCancellation, jt_EnqueueDeadlineExceeded, jt_RegisterValidation,
        jt_RegisterValidationPrecedence]"

section \<open>The contract of the synchronous surface\<close>

text \<open>\<open>handlers s t\<close> is the handler installed for a type.\<close>

locale job_backend =
  fixes b :: "('s, 'h) Backend" and handlers :: "'s runtime \<Rightarrow> string \<Rightarrow> 'h option" and fresh :: 's
  assumes fresh_handlers: "rt_obj w = fresh \<Longrightarrow> handlers w = Map.empty"
    and handlers_heap: "handlers (w\<lparr>rt_heap := hp\<rparr>) = handlers w"
    and enqueue_invalid: "jb_Type j = [] \<Longrightarrow> CodeOf (fst (snd (bk_Enqueue b ctx j w))) = CodeInvalidArgument \<and>
      \<not> errors_Is (fst (snd (bk_Enqueue b ctx j w))) (Sentinel m) \<and> ji_ID (fst (bk_Enqueue b ctx j w)) = []"
    and enqueue_cancelled: "jb_Type j \<noteq> [] \<Longrightarrow> ctx_Err ctx = Some e \<Longrightarrow>
      fst (snd (bk_Enqueue b ctx j w)) = Some e \<and> ji_ID (fst (bk_Enqueue b ctx j w)) = []"
    and enqueue_accepted: "jb_Type j \<noteq> [] \<Longrightarrow> ctx_Err ctx = None \<Longrightarrow>
      fst (snd (bk_Enqueue b ctx j w)) = None \<and> ji_ID (fst (bk_Enqueue b ctx j w)) \<noteq> []"
    and register_invalid: "t = [] \<or> h = None \<Longrightarrow>
      CodeOf (fst (bk_Register b t h w)) = CodeInvalidArgument \<and> handlers (snd (bk_Register b t h w)) = handlers w"
    and register_duplicate: "t \<noteq> [] \<Longrightarrow> handlers w t \<noteq> None \<Longrightarrow>
      CodeOf (fst (bk_Register b t (Some hf) w)) = CodeAlreadyExists \<and> handlers (snd (bk_Register b t (Some hf) w)) = handlers w"
    and register_new: "t \<noteq> [] \<Longrightarrow> handlers w t = None \<Longrightarrow>
      fst (bk_Register b t (Some hf) w) = None \<and> handlers (snd (bk_Register b t (Some hf) w)) = (handlers w)(t \<mapsto> hf)"
begin

lemma enqueue_subtests:
  "jt_MalformedEnqueue b hf w" "jt_MalformedEnqueuePrecedence b hf w" "jt_MalformedEnqueuePrecedenceDeadline b hf w"
  "jt_EnqueueReturnsNonEmptyID b hf w" "jt_EnqueueNilPayloadAccepted b hf w" "jt_EnqueueCtxCancellation b hf w"
  "jt_EnqueueDeadlineExceeded b hf w"
  by (simp_all add: jt_MalformedEnqueue_def jt_MalformedEnqueuePrecedence_def jt_MalformedEnqueuePrecedenceDeadline_def
      jt_EnqueueReturnsNonEmptyID_def jt_EnqueueNilPayloadAccepted_def jt_EnqueueCtxCancellation_def
      jt_EnqueueDeadlineExceeded_def payload_lit_def context_Canceled_def context_DeadlineExceeded_def
      split_beta Let_def enqueue_invalid enqueue_cancelled enqueue_accepted)

lemma register_subtests:
  assumes "handlers w = Map.empty"
  shows "jt_RegisterValidation b hf w" "jt_RegisterValidationPrecedence b hf w"
  by (simp_all add: jt_RegisterValidation_def jt_RegisterValidationPrecedence_def split_beta Let_def
      register_invalid register_duplicate register_new assms)

lemma suite_passes: "rt_obj w = fresh \<Longrightarrow> jobs_RunContract b hf w = replicate 9 True"
  by (simp add: jobs_RunContract_def enqueue_subtests register_subtests fresh_handlers numeral_eq_Suc)

text \<open>The first registration of a type stays installed, whatever is registered later.\<close>

lemma first_registration_stays:
  assumes "handlers w t = Some hf"
  shows "handlers (fold (\<lambda>(t, h) w. snd (bk_Register b t h w)) rs w) t = Some hf"
  using assms
proof (induction rs arbitrary: w)
  case (Cons r rs)
  obtain t' h where r: "r = (t', h)" by (cases r)
  have "handlers (snd (bk_Register b t' h w)) t = Some hf"
    using Cons.prems register_invalid [of t' h w] register_duplicate [of t' w "the h"] register_new [of t' w "the h"]
    by (cases "t' = [] \<or> h = None"; cases "handlers w t' = None") auto
  with Cons.IH r show ?case by simp
qed simp

end

section \<open>jobstest: the synchronous backend\<close>

record 'h fakeBackend =
  fb_seq :: i64
  fb_jobs :: "string \<Rightarrow> Job option"
  fb_handlers :: "string \<Rightarrow> 'h option"

definition newFakeBackend :: "'h fakeBackend" where
  "newFakeBackend = \<lparr>fb_seq = 0, fb_jobs = Map.empty, fb_handlers = Map.empty\<rparr>"

definition fakeBackend_Enqueue :: "gocontext \<Rightarrow> Job \<Rightarrow> 'h fakeBackend runtime \<Rightarrow> JobInfo \<times> goerr option \<times> 'h fakeBackend runtime" where
  "fakeBackend_Enqueue ctx job w =
     (if jb_Type job = [] then
        (zero_JobInfo, Some (err_of (New CodeInvalidArgument ''jobs: empty job type'')), w)
      else
        (let (payload, h) = bh_alloc (bytes_of (jb_Payload job) (rt_heap w)) (rt_heap w);
             w = w\<lparr>rt_heap := h\<rparr>;
             job = job\<lparr>jb_Payload := Some payload\<rparr>
         in case ctx_Err ctx of
              Some e \<Rightarrow> (zero_JobInfo, Some e, w)
            | None \<Rightarrow>
                (let n = fb_seq (rt_obj w) + 1;
                     id = fmt_d (sint n)
                 in (\<lparr>ji_ID = id\<rparr>, None,
                     w\<lparr>rt_obj := (rt_obj w)\<lparr>fb_seq := n, fb_jobs := (fb_jobs (rt_obj w))(id \<mapsto> job)\<rparr>\<rparr>))))"

definition fakeBackend_Register :: "string \<Rightarrow> 'h option \<Rightarrow> 'h fakeBackend runtime \<Rightarrow> goerr option \<times> 'h fakeBackend runtime" where
  "fakeBackend_Register jobType h w =
     (if jobType = [] then (Some (err_of (New CodeInvalidArgument ''jobs: empty job type'')), w)
      else
        (case h of
           None \<Rightarrow> (Some (err_of (New CodeInvalidArgument ''jobs: nil handler'')), w)
         | Some hf \<Rightarrow>
             if fb_handlers (rt_obj w) jobType \<noteq> None then
               (Some (err_of (New CodeAlreadyExists (''jobs: handler already registered for type '' @ jobType))), w)
             else (None, w\<lparr>rt_obj := (rt_obj w)\<lparr>fb_handlers := (fb_handlers (rt_obj w))(jobType \<mapsto> hf)\<rparr>\<rparr>)))"

definition fakeBackend_methods :: "('h fakeBackend, 'h) Backend" where
  "fakeBackend_methods = \<lparr>bk_Enqueue = fakeBackend_Enqueue, bk_Register = fakeBackend_Register\<rparr>"

lemma fmt_d_nonempty [simp]: "fmt_d i \<noteq> []"
  by (simp add: fmt_d_def dec_digits.simps)

interpretation fakejobs: job_backend fakeBackend_methods "\<lambda>w. fb_handlers (rt_obj w)" newFakeBackend
  by unfold_locales
    (auto simp: fakeBackend_methods_def fakeBackend_Enqueue_def fakeBackend_Register_def newFakeBackend_def zero_JobInfo_def
      Let_def split_beta)

text \<open>The synchronous backend passes every subtest of the synchronous suite.\<close>

lemma jobs_suite_passes:
  "jobs_RunContract fakeBackend_methods hf \<lparr>rt_obj = newFakeBackend, rt_heap = h, rt_clock = c\<rparr> = replicate 9 True"
  by (rule fakejobs.suite_passes) simp

end
