(* ===== verification/Job_Queue.thy ===== *)
theory Job_Queue
  imports Jobs
begin

text \<open>
  The reference queue of \<^verbatim>\<open>ports/jobs/jobstest\<close>: \<^verbatim>\<open>refStore\<close>, \<^verbatim>\<open>refEnqueuer\<close> and \<^verbatim>\<open>refWorker\<close>, composed to a pool of workers
  over one store. The mutexes make the store methods atomic; between them goroutines interleave
  freely, so a pool is a step relation: one rule per atomic section, the order in which a map is
  ranged over and the results of handlers left open.
\<close>

section \<open>refStore\<close>

record refJob =
  rj_id :: string
  rj_typ :: string
  rj_payload :: "nat option"
  rj_processAt :: "int option"
  rj_attempts :: i64
  rj_claimed :: bool
  rj_done :: bool

record refStore =
  rs_seq :: i64
  rs_jobs :: "string \<Rightarrow> refJob option"

definition newRefStore :: refStore where
  "newRefStore = \<lparr>rs_seq = 0, rs_jobs = Map.empty\<rparr>"

text \<open>\<^verbatim>\<open>append([]byte(nil), b...)\<close>: nil when there is nothing to copy.\<close>

definition append_nil :: "nat option \<Rightarrow> bheap \<Rightarrow> nat option \<times> bheap" where
  "append_nil b h =
     (if bytes_of b h = [] then (None, h) else (let (a, h) = bh_alloc (bytes_of b h) h in (Some a, h)))"

definition refStore_enqueue :: "Job \<Rightarrow> refStore \<times> bheap \<Rightarrow> string \<times> refStore \<times> bheap" where
  "refStore_enqueue job sh =
     (case sh of (s, h) \<Rightarrow>
        let n = rs_seq s + 1;
            jid = ''job-'' @ fmt_d (sint n);
            (payload, h) = append_nil (jb_Payload job) h
        in (jid,
            s\<lparr>rs_seq := n, rs_jobs := (rs_jobs s)(jid \<mapsto>
               \<lparr>rj_id = jid, rj_typ = jb_Type job, rj_payload = payload, rj_processAt = jb_ProcessAt job, rj_attempts = 0,
                rj_claimed = False, rj_done = False\<rparr>)\<rparr>, h))"

record claimed =
  cl_id :: string
  cl_typ :: string
  cl_payload :: "nat option"

text \<open>The jobs the loop of \<^verbatim>\<open>claim\<close> does not skip.\<close>

definition eligible :: "int \<Rightarrow> (string \<Rightarrow> bool) \<Rightarrow> refJob \<Rightarrow> bool" where
  "eligible now has j \<longleftrightarrow>
     \<not> (rj_done j \<or> rj_claimed j) \<and> (case rj_processAt j of None \<Rightarrow> True | Some t \<Rightarrow> \<not> t > now) \<and> has (rj_typ j)"

fun claim_scan :: "string list \<Rightarrow> int \<Rightarrow> (string \<Rightarrow> bool) \<Rightarrow> refStore \<times> bheap \<Rightarrow> claimed option \<times> refStore \<times> bheap" where
  "claim_scan [] now has (s, h) = (None, s, h)"
| "claim_scan (i # order) now has (s, h) =
     (case rs_jobs s i of
        None \<Rightarrow> claim_scan order now has (s, h)
      | Some j \<Rightarrow>
          if \<not> eligible now has j then claim_scan order now has (s, h)
          else
            (let (payload, h) = append_nil (rj_payload j) h
             in (Some \<lparr>cl_id = rj_id j, cl_typ = rj_typ j, cl_payload = payload\<rparr>,
                 s\<lparr>rs_jobs := (rs_jobs s)(i \<mapsto> j\<lparr>rj_claimed := True, rj_attempts := rj_attempts j + 1\<rparr>)\<rparr>, h)))"

text \<open>\<open>order\<close> is the order in which the runtime ranges over the map.\<close>

definition refStore_claim :: "string list \<Rightarrow> int \<Rightarrow> (string \<Rightarrow> bool) \<Rightarrow> refStore \<times> bheap \<Rightarrow> claimed option \<times> refStore \<times> bheap" where
  "refStore_claim order now has sh = claim_scan order now has sh"

definition refStore_complete :: "string \<Rightarrow> refStore \<Rightarrow> refStore" where
  "refStore_complete jid s =
     (case rs_jobs s jid of None \<Rightarrow> s | Some j \<Rightarrow> s\<lparr>rs_jobs := (rs_jobs s)(jid \<mapsto> j\<lparr>rj_done := True\<rparr>)\<rparr>)"

definition refStore_retry :: "string \<Rightarrow> int \<Rightarrow> int \<Rightarrow> refStore \<Rightarrow> refStore" where
  "refStore_retry jid after now s =
     (case rs_jobs s jid of
        None \<Rightarrow> s
      | Some j \<Rightarrow> s\<lparr>rs_jobs := (rs_jobs s)(jid \<mapsto> j\<lparr>rj_claimed := False, rj_processAt := Some (now + after)\<rparr>)\<rparr>)"

section \<open>refEnqueuer and refWorker\<close>

definition refEnqueuer_Enqueue :: "gocontext \<Rightarrow> Job \<Rightarrow> refStore \<times> bheap \<Rightarrow> JobInfo \<times> goerr option \<times> refStore \<times> bheap" where
  "refEnqueuer_Enqueue ctx job sh =
     (if jb_Type job = [] then (zero_JobInfo, Some (err_of (New CodeInvalidArgument ''jobs: empty Type'')), sh)
      else
        (case ctx_Err ctx of
           Some e \<Rightarrow> (zero_JobInfo, Some e, sh)
         | None \<Rightarrow> (let (jid, sh) = refStore_enqueue job sh in (\<lparr>ji_ID = jid\<rparr>, None, sh))))"

text \<open>Where a worker is: \<^verbatim>\<open>Run\<close> not called, in its loop, or returned (always with nil).\<close>

datatype run_phase = NotRunning | InLoop | Returned

record 'h refWorker =
  rw_handlers :: "string \<Rightarrow> 'h option"
  rw_retryDelay :: int
  rw_poll :: int
  rw_phase :: run_phase
  rw_cancelled :: bool

definition refWorker_Register :: "string \<Rightarrow> 'h option \<Rightarrow> 'h refWorker \<Rightarrow> goerr option \<times> 'h refWorker" where
  "refWorker_Register jobType h w =
     (case h of
        None \<Rightarrow> (Some (err_of (New CodeInvalidArgument ''jobs: bad Register'')), w)
      | Some hf \<Rightarrow>
          if jobType = [] then (Some (err_of (New CodeInvalidArgument ''jobs: bad Register'')), w)
          else if rw_handlers w jobType \<noteq> None then
            (Some (err_of (New CodeAlreadyExists ''jobs: duplicate Register'')), w)
          else (None, w\<lparr>rw_handlers := (rw_handlers w)(jobType \<mapsto> hf)\<rparr>))"

definition refWorker_has :: "'h refWorker \<Rightarrow> string \<Rightarrow> bool" where
  "refWorker_has w typ \<longleftrightarrow> rw_handlers w typ \<noteq> None"

definition refWorker_handlerFor :: "'h refWorker \<Rightarrow> string \<Rightarrow> 'h option" where
  "refWorker_handlerFor w typ = rw_handlers w typ"

text \<open>The worker of \<^verbatim>\<open>newRefFixture\<close>: 20 ms retry delay, 10 ms poll interval.\<close>

definition newRefWorker :: "'h refWorker" where
  "newRefWorker =
     \<lparr>rw_handlers = Map.empty, rw_retryDelay = 20 * 1000000, rw_poll = 10 * 1000000, rw_phase = NotRunning, rw_cancelled = False\<rparr>"

text \<open>The synchronous surface of the reference queue keeps the contract of a backend, too.\<close>

definition refQueue_methods :: "(refStore \<times> 'h refWorker, 'h) Backend" where
  "refQueue_methods =
     \<lparr>bk_Enqueue = \<lambda>ctx job w.
        (let (info, err, s, h) = refEnqueuer_Enqueue ctx job (fst (rt_obj w), rt_heap w)
         in (info, err, w\<lparr>rt_obj := (s, snd (rt_obj w)), rt_heap := h\<rparr>)),
      bk_Register = \<lambda>jobType h w.
        (let (err, x) = refWorker_Register jobType h (snd (rt_obj w)) in (err, w\<lparr>rt_obj := (fst (rt_obj w), x)\<rparr>))\<rparr>"

interpretation refjobs: job_backend refQueue_methods "\<lambda>w. rw_handlers (snd (rt_obj w))" "(newRefStore, newRefWorker)"
  by unfold_locales
    (auto simp: refQueue_methods_def refEnqueuer_Enqueue_def refWorker_Register_def refStore_enqueue_def newRefWorker_def
      zero_JobInfo_def Let_def split_beta split: option.split)

text \<open>The first registration of a type stays installed in a worker, so its jobs keep their handler.\<close>

lemma refWorker_first_registration:
  "rw_handlers (snd (rt_obj w)) t = Some hf \<Longrightarrow>
     rw_handlers (snd (rt_obj (fold (\<lambda>(t, h) w. snd (bk_Register refQueue_methods t h w)) rs w))) t = Some hf"
  by (rule refjobs.first_registration_stays)

lemma refQueue_suite_passes:
  "jobs_RunContract refQueue_methods hf \<lparr>rt_obj = (newRefStore, newRefWorker), rt_heap = h, rt_clock = c\<rparr> = replicate 9 True"
  by (rule refjobs.suite_passes) simp

section \<open>A pool of workers\<close>

text \<open>
  What is observed: an accepted job with its bytes at the time of the call, the start of a handler
  with the bytes of its task, its success, its failure with the time from which it may run again.
\<close>

datatype job_event =
    Enqueued string string string "int option"
  | Started nat string string string int
  | Acked string
  | Failed string int

text \<open>
  \<open>pl_known\<close> are the slices that code outside the store holds; \<open>pl_flight\<close> the goroutines that run a handler:
  worker, claim and handler.
\<close>

record 'h pool =
  pl_store :: refStore
  pl_heap :: bheap
  pl_now :: int
  pl_known :: "nat set"
  pl_workers :: "nat \<Rightarrow> 'h refWorker"
  pl_flight :: "(nat \<times> claimed \<times> 'h) list"
  pl_log :: "job_event list"

definition newRefFixture :: "bheap \<Rightarrow> int \<Rightarrow> 'h pool" where
  "newRefFixture h now =
     \<lparr>pl_store = newRefStore, pl_heap = h, pl_now = now, pl_known = {..<bh_next h}, pl_workers = (\<lambda>_. newRefWorker),
      pl_flight = [], pl_log = []\<rparr>"

definition pool_enqueue :: "gocontext \<Rightarrow> Job \<Rightarrow> 'h pool \<Rightarrow> 'h pool" where
  "pool_enqueue ctx job p =
     (let (info, err, s, h) = refEnqueuer_Enqueue ctx job (pl_store p, pl_heap p)
      in p\<lparr>pl_store := s, pl_heap := h,
           pl_log := pl_log p @ (if err = None
             then [Enqueued (ji_ID info) (jb_Type job) (bytes_of (jb_Payload job) (pl_heap p)) (jb_ProcessAt job)] else [])\<rparr>)"

definition pool_register :: "nat \<Rightarrow> string \<Rightarrow> 'h option \<Rightarrow> 'h pool \<Rightarrow> 'h pool" where
  "pool_register i jobType h p =
     p\<lparr>pl_workers := (pl_workers p)(i := snd (refWorker_Register jobType h (pl_workers p i)))\<rparr>"

text \<open>The entry of \<^verbatim>\<open>Run\<close>: a cancelled context ends it at once.\<close>

definition pool_run :: "nat \<Rightarrow> 'h pool \<Rightarrow> 'h pool" where
  "pool_run i p =
     p\<lparr>pl_workers := (pl_workers p)(i := (pl_workers p i)\<lparr>rw_phase := if rw_cancelled (pl_workers p i) then Returned else InLoop\<rparr>)\<rparr>"

definition pool_cancel :: "nat \<Rightarrow> 'h pool \<Rightarrow> 'h pool" where
  "pool_cancel i p = p\<lparr>pl_workers := (pl_workers p)(i := (pl_workers p i)\<lparr>rw_cancelled := True\<rparr>)\<rparr>"

text \<open>The two cases of the \<^verbatim>\<open>select\<close> in \<^verbatim>\<open>Run\<close>.\<close>

definition pool_return :: "nat \<Rightarrow> 'h pool \<Rightarrow> 'h pool" where
  "pool_return i p = p\<lparr>pl_workers := (pl_workers p)(i := (pl_workers p i)\<lparr>rw_phase := Returned\<rparr>)\<rparr>"

definition pool_tick :: "nat \<Rightarrow> string list \<Rightarrow> 'h pool \<Rightarrow> 'h pool" where
  "pool_tick i order p =
     (let (c, s, h) = refStore_claim order (pl_now p) (refWorker_has (pl_workers p i)) (pl_store p, pl_heap p);
          p = p\<lparr>pl_store := s, pl_heap := h\<rparr>
      in case c of
           None \<Rightarrow> p
         | Some c \<Rightarrow>
             (case refWorker_handlerFor (pl_workers p i) (cl_typ c) of
                None \<Rightarrow> p
              | Some hf \<Rightarrow>
                  p\<lparr>pl_flight := pl_flight p @ [(i, c, hf)],
                    pl_known := pl_known p \<union> set_option (cl_payload c),
                    pl_log := pl_log p @ [Started i (cl_id c) (cl_typ c) (bytes_of (cl_payload c) (pl_heap p)) (pl_now p)]\<rparr>))"

text \<open>The handler of goroutine \<open>g\<close> returned \<open>err\<close>.\<close>

definition pool_handled :: "nat \<Rightarrow> goerr option \<Rightarrow> 'h pool \<Rightarrow> 'h pool" where
  "pool_handled g err p =
     (let (i, c, hf) = pl_flight p ! g;
          p = p\<lparr>pl_flight := take g (pl_flight p) @ drop (Suc g) (pl_flight p)\<rparr>;
          delay = rw_retryDelay (pl_workers p i)
      in case err of
           Some e \<Rightarrow> p\<lparr>pl_store := refStore_retry (cl_id c) delay (pl_now p) (pl_store p),
                        pl_log := pl_log p @ [Failed (cl_id c) (pl_now p + delay)]\<rparr>
         | None \<Rightarrow> p\<lparr>pl_store := refStore_complete (cl_id c) (pl_store p), pl_log := pl_log p @ [Acked (cl_id c)]\<rparr>)"

inductive pool_step :: "'h pool \<Rightarrow> 'h pool \<Rightarrow> bool" where
  enqueue: "set_option (jb_Payload job) \<subseteq> pl_known p \<Longrightarrow> pool_step p (pool_enqueue ctx job p)"
| register: "pool_step p (pool_register i jobType h p)"
| run: "rw_phase (pl_workers p i) = NotRunning \<Longrightarrow> pool_step p (pool_run i p)"
| cancel: "pool_step p (pool_cancel i p)"
| return: "rw_phase (pl_workers p i) = InLoop \<Longrightarrow> rw_cancelled (pl_workers p i) \<Longrightarrow> pool_step p (pool_return i p)"
| tick: "rw_phase (pl_workers p i) = InLoop \<Longrightarrow> distinct order \<Longrightarrow> set order = dom (rs_jobs (pl_store p)) \<Longrightarrow>
    pool_step p (pool_tick i order p)"
| handled: "g < length (pl_flight p) \<Longrightarrow> pool_step p (pool_handled g err p)"
| wait: "pool_step p (p\<lparr>pl_now := pl_now p + int d\<rparr>)"
| build: "pool_step p (p\<lparr>pl_heap := snd (bh_alloc bs (pl_heap p)), pl_known := insert (bh_next (pl_heap p)) (pl_known p)\<rparr>)"
| overwrite: "a \<in> pl_known p \<Longrightarrow> pool_step p (p\<lparr>pl_heap := bh_set a i x (pl_heap p)\<rparr>)"

abbreviation pool_steps :: "'h pool \<Rightarrow> 'h pool \<Rightarrow> bool" where
  "pool_steps \<equiv> pool_step\<^sup>*\<^sup>*"

section \<open>The abstract queue\<close>

text \<open>What a job is: waiting (with type, bytes and the time from which it may run), running since some time, or finished.\<close>

datatype job_phase = Waiting string string "int option" | Running string string int | Finished

type_synonym queue = "string \<Rightarrow> job_phase option"

definition due :: "int option \<Rightarrow> int \<Rightarrow> bool" where
  "due at t \<longleftrightarrow> (case at of None \<Rightarrow> True | Some a \<Rightarrow> a \<le> t)"

fun queue_allows :: "queue \<Rightarrow> job_event \<Rightarrow> bool" where
  "queue_allows m (Enqueued jid ty bs at) \<longleftrightarrow> m jid = None"
| "queue_allows m (Started i jid ty bs t) \<longleftrightarrow>
     (case m jid of Some (Waiting ty' bs' at) \<Rightarrow> ty' = ty \<and> bs' = bs \<and> due at t | _ \<Rightarrow> False)"
| "queue_allows m (Acked jid) \<longleftrightarrow> (case m jid of Some (Running _ _ _) \<Rightarrow> True | _ \<Rightarrow> False)"
| "queue_allows m (Failed jid again) \<longleftrightarrow> (case m jid of Some (Running _ _ t) \<Rightarrow> t \<le> again | _ \<Rightarrow> False)"

fun queue_next :: "job_event \<Rightarrow> queue \<Rightarrow> queue" where
  "queue_next (Enqueued jid ty bs at) m = m(jid \<mapsto> Waiting ty bs at)"
| "queue_next (Started i jid ty bs t) m = m(jid \<mapsto> Running ty bs t)"
| "queue_next (Acked jid) m = m(jid \<mapsto> Finished)"
| "queue_next (Failed jid again) m =
     m(jid := (case m jid of Some (Running ty bs t) \<Rightarrow> Some (Waiting ty bs (Some again)) | x \<Rightarrow> x))"

fun queue_accepts :: "queue \<Rightarrow> job_event list \<Rightarrow> bool" where
  "queue_accepts m [] \<longleftrightarrow> True"
| "queue_accepts m (e # es) \<longleftrightarrow> queue_allows m e \<and> queue_accepts (queue_next e m) es"

lemma queue_accepts_append:
  "queue_accepts m (es @ es') \<longleftrightarrow> queue_accepts m es \<and> queue_accepts (fold queue_next es m) es'"
  by (induction es arbitrary: m) auto

definition starts :: "string \<Rightarrow> job_event list \<Rightarrow> nat" where
  "starts jid es = length (filter (\<lambda>e. case e of Started _ j _ _ _ \<Rightarrow> j = jid | _ \<Rightarrow> False) es)"

definition failures :: "string \<Rightarrow> job_event list \<Rightarrow> nat" where
  "failures jid es = length (filter (\<lambda>e. case e of Failed j _ \<Rightarrow> j = jid | _ \<Rightarrow> False) es)"

lemma count_snoc:
  "starts jid (es @ [Enqueued j ty bs at]) = starts jid es" "starts jid (es @ [Started i j ty bs t]) = starts jid es + (if j = jid then 1 else 0)"
  "starts jid (es @ [Acked j]) = starts jid es" "starts jid (es @ [Failed j again]) = starts jid es"
  "failures jid (es @ [Enqueued j ty bs at]) = failures jid es" "failures jid (es @ [Started i j ty bs t]) = failures jid es"
  "failures jid (es @ [Acked j]) = failures jid es" "failures jid (es @ [Failed j again]) = failures jid es + (if j = jid then 1 else 0)"
  by (simp_all add: starts_def failures_def)

text \<open>What an accepted log tells about a job in each phase.\<close>

definition history :: "job_event list \<Rightarrow> string \<Rightarrow> job_phase \<Rightarrow> bool" where
  "history es jid ph =
     (case ph of
        Waiting ty bs at \<Rightarrow>
          starts jid es = failures jid es \<and> Acked jid \<notin> set es \<and>
          (\<exists>at0. Enqueued jid ty bs at0 \<in> set es \<and> (\<forall>t. due at t \<longrightarrow> due at0 t))
      | Running ty bs t \<Rightarrow>
          starts jid es = Suc (failures jid es) \<and> Acked jid \<notin> set es \<and>
          (\<exists>at0. Enqueued jid ty bs at0 \<in> set es \<and> due at0 t)
      | Finished \<Rightarrow> Acked jid \<in> set es \<and> starts jid es = Suc (failures jid es))"

fun ev_id :: "job_event \<Rightarrow> string" where
  "ev_id (Enqueued jid ty bs at) = jid"
| "ev_id (Started i jid ty bs t) = jid"
| "ev_id (Acked jid) = jid"
| "ev_id (Failed jid again) = jid"

lemma history_other:
  assumes "ev_id e \<noteq> jid"
  shows "history (es @ [e]) jid ph \<longleftrightarrow> history es jid ph"
proof -
  have "starts jid (es @ [e]) = starts jid es" "failures jid (es @ [e]) = failures jid es" "Acked jid \<noteq> e"
    "Enqueued jid ty bs at0 \<noteq> e" for ty bs at0
    using assms by (cases e; auto simp: count_snoc)+
  then show ?thesis by (auto simp: history_def split: job_phase.split)
qed

lemma due_trans: "due at t \<Longrightarrow> t \<le> t' \<Longrightarrow> due at t'"
  by (auto simp: due_def split: option.splits)

lemma history_own:
  assumes "fold queue_next es Map.empty (ev_id e) = None \<longrightarrow> (\<forall>x\<in>set es. ev_id x \<noteq> ev_id e)"
    "\<forall>ph. fold queue_next es Map.empty (ev_id e) = Some ph \<longrightarrow> history es (ev_id e) ph"
    "queue_allows (fold queue_next es Map.empty) e" "queue_next e (fold queue_next es Map.empty) (ev_id e) = Some ph"
  shows "history (es @ [e]) (ev_id e) ph"
proof (cases e)
  case (Enqueued jid ty bs at)
  then have none: "\<forall>x\<in>set es. ev_id x \<noteq> jid" and ph: "ph = Waiting ty bs at" using assms by simp_all
  from none have "starts jid es = 0" "failures jid es = 0" "Acked jid \<notin> set es"
    by (auto simp: starts_def failures_def filter_empty_conv split: job_event.split)
  then show ?thesis by (auto simp: Enqueued ph history_def count_snoc)
next
  case (Started i jid ty bs t)
  with assms(2,3) obtain at where "history es jid (Waiting ty bs at)" "due at t"
    by (auto split: option.splits job_phase.splits)
  moreover have "ph = Running ty bs t" using Started assms(4) by simp
  ultimately show ?thesis using Started by (simp add: history_def count_snoc) blast
next
  case (Acked jid)
  with assms(2,3) obtain ty bs t where "history es jid (Running ty bs t)" by (auto split: option.splits job_phase.splits)
  with Acked assms(4) show ?thesis by (auto simp: history_def count_snoc)
next
  case (Failed jid again)
  with assms(2,3) obtain ty bs t where m: "fold queue_next es Map.empty jid = Some (Running ty bs t)" "t \<le> again"
      "history es jid (Running ty bs t)"
    by (auto split: option.splits job_phase.splits)
  then have "ph = Waiting ty bs (Some again)" using Failed assms(4) by simp
  with m(2,3) Failed show ?thesis
    by (simp add: history_def count_snoc) (metis due_def due_trans option.simps(5) order_trans)
qed

lemma accepted_history:
  "queue_accepts Map.empty es \<Longrightarrow>
     (fold queue_next es Map.empty jid = None \<longrightarrow> (\<forall>x\<in>set es. ev_id x \<noteq> jid)) \<and>
     (\<forall>ph. fold queue_next es Map.empty jid = Some ph \<longrightarrow> history es jid ph)"
proof (induction es arbitrary: jid rule: rev_induct)
  case (snoc e es)
  then have acc: "queue_accepts Map.empty es" and ok: "queue_allows (fold queue_next es Map.empty) e"
    by (simp_all add: queue_accepts_append)
  note IH = snoc.IH [OF acc]
  show ?case
  proof (cases "ev_id e = jid")
    case True
    have "queue_next e (fold queue_next es Map.empty) (ev_id e) \<noteq> None"
      using ok by (cases e) (auto split: option.splits job_phase.splits)
    with history_own [of es e] IH [of "ev_id e"] ok True show ?thesis by auto
  next
    case False
    then have "queue_next e (fold queue_next es Map.empty) jid = fold queue_next es Map.empty jid" by (cases e) auto
    with IH [of jid] False history_other [OF False] show ?thesis by auto
  qed
qed simp

section \<open>The invariant of a pool\<close>

definition enqueues :: "job_event list \<Rightarrow> nat" where
  "enqueues es = length (filter (\<lambda>e. case e of Enqueued _ _ _ _ \<Rightarrow> True | _ \<Rightarrow> False) es)"

lemma enqueues_append [simp]: "enqueues (es @ es') = enqueues es + enqueues es'"
  by (simp add: enqueues_def)

lemma enqueues_simps [simp]:
  "enqueues [] = 0" "enqueues [Enqueued jid ty bs at] = 1" "enqueues [Started i jid ty bs t] = 0" "enqueues [Acked jid] = 0"
  "enqueues [Failed jid again] = 0"
  by (simp_all add: enqueues_def)

text \<open>A stored job and its phase in the abstract queue.\<close>

definition job_ok :: "queue \<Rightarrow> bheap \<Rightarrow> int \<Rightarrow> string \<Rightarrow> refJob option \<Rightarrow> bool" where
  "job_ok m h now jid jo \<longleftrightarrow>
     (case jo of
        None \<Rightarrow> m jid = None
      | Some j \<Rightarrow> rj_id j = jid \<and>
          (if rj_done j then m jid = Some Finished
           else if rj_claimed j then \<exists>t\<le>now. m jid = Some (Running (rj_typ j) (bytes_of (rj_payload j) h) t)
           else m jid = Some (Waiting (rj_typ j) (bytes_of (rj_payload j) h) (rj_processAt j))))"

definition active :: "refStore \<Rightarrow> string \<Rightarrow> bool" where
  "active s jid \<longleftrightarrow> (case rs_jobs s jid of None \<Rightarrow> False | Some j \<Rightarrow> rj_claimed j \<and> \<not> rj_done j)"

definition flight_ids :: "'h pool \<Rightarrow> string list" where
  "flight_ids p = map (\<lambda>(i, c, hf). cl_id c) (pl_flight p)"

definition job_name :: "nat \<Rightarrow> string" where
  "job_name n = ''job-'' @ dec_digits n"

definition log_ok :: "'h pool \<Rightarrow> bool" where
  "log_ok p \<longleftrightarrow> queue_accepts Map.empty (pl_log p) \<and>
     (\<forall>jid. job_ok (fold queue_next (pl_log p) Map.empty) (pl_heap p) (pl_now p) jid (rs_jobs (pl_store p) jid))"

definition flight_ok :: "'h pool \<Rightarrow> bool" where
  "flight_ok p \<longleftrightarrow> distinct (flight_ids p) \<and> (\<forall>jid. jid \<in> set (flight_ids p) \<longleftrightarrow> active (pl_store p) jid)"

definition names_ok :: "'h pool \<Rightarrow> bool" where
  "names_ok p \<longleftrightarrow> dom (rs_jobs (pl_store p)) = job_name ` {0<..unat (rs_seq (pl_store p))} \<and>
     unat (rs_seq (pl_store p)) = enqueues (pl_log p)"

definition slices_ok :: "'h pool \<Rightarrow> bool" where
  "slices_ok p \<longleftrightarrow> pl_known p \<subseteq> {..<bh_next (pl_heap p)} \<and>
     (\<forall>jid j a. rs_jobs (pl_store p) jid = Some j \<and> rj_payload j = Some a \<longrightarrow> a < bh_next (pl_heap p) \<and> a \<notin> pl_known p)"

definition delays_ok :: "'h pool \<Rightarrow> bool" where
  "delays_ok p \<longleftrightarrow> (\<forall>i. 0 \<le> rw_retryDelay (pl_workers p i))"

definition pool_inv :: "'h pool \<Rightarrow> bool" where
  "pool_inv p \<longleftrightarrow> log_ok p \<and> flight_ok p \<and> names_ok p \<and> slices_ok p \<and> delays_ok p"

lemmas inv_defs = pool_inv_def log_ok_def flight_ok_def names_ok_def slices_ok_def delays_ok_def flight_ids_def

lemma job_ok_heap:
  "(\<And>j a. jo = Some j \<Longrightarrow> rj_payload j = Some a \<Longrightarrow> bh_at h' a = bh_at h a) \<Longrightarrow> job_ok m h' now jid jo \<longleftrightarrow> job_ok m h now jid jo"
proof (cases jo)
  case (Some j)
  assume "\<And>j a. jo = Some j \<Longrightarrow> rj_payload j = Some a \<Longrightarrow> bh_at h' a = bh_at h a"
  with Some have "bytes_of (rj_payload j) h' = bytes_of (rj_payload j) h" by (cases "rj_payload j") auto
  with Some show ?thesis by (simp add: job_ok_def)
qed (simp add: job_ok_def)

lemma job_ok_later: "job_ok m h now jid jo \<Longrightarrow> now \<le> now' \<Longrightarrow> job_ok m h now' jid jo"
  by (auto simp: job_ok_def split: option.splits if_splits intro: order_trans)

lemma job_ok_other: "jid \<noteq> ev_id e \<Longrightarrow> job_ok (queue_next e m) h now jid jo \<longleftrightarrow> job_ok m h now jid jo"
  by (cases e) (auto simp: job_ok_def split: option.split)

lemma append_nil_grown:
  assumes "append_nil b h = (a, h')"
  shows "grown h h'" "bytes_of a h' = bytes_of b h" "a = Some x \<Longrightarrow> bh_next h \<le> x \<and> x < bh_next h'"
  using assms by (auto simp: append_nil_def grown_def bh_alloc_def split: if_splits)

text \<open>Changes that leave the store, the log and the stored bytes alone.\<close>

lemma pool_inv_frame:
  assumes "pool_inv p" "pl_store p' = pl_store p" "pl_log p' = pl_log p" "pl_flight p' = pl_flight p" "pl_now p \<le> pl_now p'"
    "\<forall>jid j a. rs_jobs (pl_store p) jid = Some j \<and> rj_payload j = Some a \<longrightarrow>
       bh_at (pl_heap p') a = bh_at (pl_heap p) a \<and> a < bh_next (pl_heap p') \<and> a \<notin> pl_known p'"
    "pl_known p' \<subseteq> {..<bh_next (pl_heap p')}" "delays_ok p'"
  shows "pool_inv p'"
proof -
  have "job_ok (fold queue_next (pl_log p) Map.empty) (pl_heap p') (pl_now p') jid (rs_jobs (pl_store p) jid)" for jid
  proof -
    have "job_ok (fold queue_next (pl_log p) Map.empty) (pl_heap p) (pl_now p) jid (rs_jobs (pl_store p) jid)"
      using assms(1) by (simp add: pool_inv_def log_ok_def)
    from job_ok_later [OF this assms(5)] show ?thesis
      by (subst job_ok_heap [of _ "pl_heap p'" "pl_heap p"]) (use assms(6) in blast)+
  qed
  with assms show ?thesis by (simp add: inv_defs)
qed

text \<open>One event about one stored job.\<close>

lemma log_ok_event:
  assumes "log_ok p" "slices_ok p" "pl_log p' = pl_log p @ [e]" "rs_jobs (pl_store p') = (rs_jobs (pl_store p))(ev_id e \<mapsto> j')"
    "grown (pl_heap p) (pl_heap p')" "pl_now p' = pl_now p" "queue_allows (fold queue_next (pl_log p) Map.empty) e"
    "job_ok (queue_next e (fold queue_next (pl_log p) Map.empty)) (pl_heap p') (pl_now p) (ev_id e) (Some j')"
  shows "log_ok p'"
proof -
  let ?m = "fold queue_next (pl_log p) Map.empty"
  have "job_ok (queue_next e ?m) (pl_heap p') (pl_now p) jid (rs_jobs (pl_store p') jid)" for jid
  proof (cases "jid = ev_id e")
    case False
    have "job_ok (queue_next e ?m) (pl_heap p) (pl_now p) jid (rs_jobs (pl_store p) jid)"
      using assms(1) job_ok_other [OF False] by (simp add: log_ok_def)
    then have "job_ok (queue_next e ?m) (pl_heap p') (pl_now p) jid (rs_jobs (pl_store p) jid)"
      by (subst job_ok_heap [of _ "pl_heap p'" "pl_heap p"]) (use assms(2,5) in \<open>auto simp: slices_ok_def grown_def\<close>)
    with False show ?thesis by (simp add: assms(4))
  qed (use assms(4,8) in simp)
  with assms(1,3,6,7) show ?thesis by (simp add: log_ok_def queue_accepts_append)
qed

lemma slices_ok_put:
  assumes "slices_ok p" "grown (pl_heap p) (pl_heap p')" "rs_jobs (pl_store p') = (rs_jobs (pl_store p))(jid \<mapsto> j')"
    "pl_known p' = pl_known p \<union> K" "K \<subseteq> {bh_next (pl_heap p)..<bh_next (pl_heap p')}"
    "\<And>a. rj_payload j' = Some a \<Longrightarrow> a \<in> {bh_next (pl_heap p)..<bh_next (pl_heap p')} - K \<or>
       (\<exists>j. rs_jobs (pl_store p) jid = Some j \<and> rj_payload j = Some a)"
  shows "slices_ok p'"
proof -
  have old: "a < bh_next (pl_heap p) \<and> a \<notin> pl_known p" if "rs_jobs (pl_store p) k = Some j" "rj_payload j = Some a" for k j a
    using assms(1) that by (auto simp: slices_ok_def)
  have le: "bh_next (pl_heap p) \<le> bh_next (pl_heap p')" using assms(2) by (simp add: grown_def)
  have known: "pl_known p \<subseteq> {..<bh_next (pl_heap p)}" using assms(1) by (simp add: slices_ok_def)
  have "a < bh_next (pl_heap p') \<and> a \<notin> pl_known p'" if "rs_jobs (pl_store p') k = Some j" "rj_payload j = Some a" for k j a
  proof (cases "a < bh_next (pl_heap p)")
    case True
    then have "\<exists>k j. rs_jobs (pl_store p) k = Some j \<and> rj_payload j = Some a"
      using that assms(3) assms(6) [of a] by (cases "k = jid") auto
    then have "a \<notin> pl_known p" using old by blast
    with True le assms(4,5) show ?thesis by auto
  next
    case False
    then have "k = jid" "j = j'" using that old assms(3) by (auto split: if_splits)
    with that(2) assms(6) [of a] old False have "a \<in> {bh_next (pl_heap p)..<bh_next (pl_heap p')} - K" by blast
    with known assms(4) show ?thesis by auto
  qed
  moreover have "pl_known p' \<subseteq> {..<bh_next (pl_heap p')}" using known le assms(4,5) by auto
  ultimately show ?thesis unfolding slices_ok_def by blast
qed

lemma job_name_inj: "job_name m = job_name n \<longleftrightarrow> m = n"
  by (auto simp: job_name_def dest: dec_digits_inj)

lemma inv_enqueue:
  assumes inv: "pool_inv p" and bound: "enqueues (pl_log (pool_enqueue ctx job p)) < 2 ^ 63"
  shows "pool_inv (pool_enqueue ctx job p)"
proof (cases "jb_Type job = [] \<or> ctx_Err ctx \<noteq> None")
  case True
  then have "pool_enqueue ctx job p = p"
    by (auto simp: pool_enqueue_def refEnqueuer_Enqueue_def zero_JobInfo_def)
  with inv show ?thesis by simp
next
  case False
  obtain a h where copy: "append_nil (jb_Payload job) (pl_heap p) = (a, h)" by (cases "append_nil (jb_Payload job) (pl_heap p)")
  note g = append_nil_grown [OF copy]
  let ?s = "pl_store p" and ?p = "pool_enqueue ctx job p" and ?m = "fold queue_next (pl_log p) Map.empty"
  let ?jid = "''job-'' @ fmt_d (sint (rs_seq ?s + 1))"
  let ?j = "\<lparr>rj_id = ?jid, rj_typ = jb_Type job, rj_payload = a, rj_processAt = jb_ProcessAt job, rj_attempts = 0,
    rj_claimed = False, rj_done = False\<rparr>"
  let ?e = "Enqueued ?jid (jb_Type job) (bytes_of (jb_Payload job) (pl_heap p)) (jb_ProcessAt job)"
  have p': "pl_store ?p = ?s\<lparr>rs_seq := rs_seq ?s + 1, rs_jobs := (rs_jobs ?s)(?jid \<mapsto> ?j)\<rparr>" "pl_heap ?p = h"
    "pl_log ?p = pl_log p @ [?e]" "pl_now ?p = pl_now p" "pl_known ?p = pl_known p" "pl_flight ?p = pl_flight p"
    "pl_workers ?p = pl_workers p"
    using False copy by (simp_all add: pool_enqueue_def refEnqueuer_Enqueue_def refStore_enqueue_def Let_def)
  have names: "dom (rs_jobs ?s) = job_name ` {0<..unat (rs_seq ?s)}" "unat (rs_seq ?s) = enqueues (pl_log p)"
    using inv by (simp_all add: pool_inv_def names_ok_def)
  have "unat (rs_seq ?s) < 2 ^ 63 - 1" using bound p'(3) names(2) by simp
  note n = i64_Suc [OF this]
  have jid: "?jid = job_name (Suc (unat (rs_seq ?s)))" unfolding n(2) job_name_def fmt_d_int ..
  then have new: "rs_jobs ?s ?jid = None" using names(1) by (force simp: job_name_inj)
  have upto: "{0<..Suc k} = insert (Suc k) {0<..k}" for k by auto
  have lo: "log_ok p" "slices_ok p" using inv by (simp_all add: pool_inv_def)
  then have "job_ok ?m (pl_heap p) (pl_now p) ?jid (rs_jobs ?s ?jid)" by (simp only: log_ok_def)
  then have none: "?m ?jid = None" unfolding new by (simp add: job_ok_def)
  have "log_ok ?p"
    by (rule log_ok_event [OF lo, of _ ?e ?j]) (simp_all add: p' g(1) job_ok_def none g(2) del: append_Cons append_Nil)
  moreover have "flight_ok ?p"
    using inv p' new by (auto simp: pool_inv_def flight_ok_def flight_ids_def active_def)
  moreover have "names_ok ?p"
    using names p' n(1) jid by (simp add: names_ok_def upto)
  moreover have "slices_ok ?p"
    by (rule slices_ok_put [OF lo(2), where K = "{}" and jid = ?jid and j' = ?j]) (simp_all add: p' g)
  moreover have "delays_ok ?p" using inv p' by (simp add: pool_inv_def delays_ok_def)
  ultimately show ?thesis by (simp add: pool_inv_def)
qed

text \<open>\<^verbatim>\<open>claim\<close> takes an eligible job if there is one, whatever the order of the range.\<close>

lemma claim_scan_cases:
  "claim_scan order now has (s, h) = (c, s', h') \<Longrightarrow>
     (c = None \<and> s' = s \<and> h' = h \<and> (\<forall>i\<in>set order. \<forall>j. rs_jobs s i = Some j \<longrightarrow> \<not> eligible now has j)) \<or>
     (\<exists>i j a. i \<in> set order \<and> rs_jobs s i = Some j \<and> eligible now has j \<and> append_nil (rj_payload j) h = (a, h') \<and>
        c = Some \<lparr>cl_id = rj_id j, cl_typ = rj_typ j, cl_payload = a\<rparr> \<and>
        s' = s\<lparr>rs_jobs := (rs_jobs s)(i \<mapsto> j\<lparr>rj_claimed := True, rj_attempts := rj_attempts j + 1\<rparr>)\<rparr>)"
proof (induction order)
  case (Cons i order)
  show ?case
  proof (cases "rs_jobs s i")
    case None
    with Cons show ?thesis by auto
  next
    case (Some j)
    show ?thesis
    proof (cases "eligible now has j")
      case True
      obtain a h1 where "append_nil (rj_payload j) h = (a, h1)" by (cases "append_nil (rj_payload j) h")
      with True Some Cons.prems show ?thesis
        by (intro disjI2 exI [of _ i] exI [of _ j] exI [of _ a]) (auto simp del: fun_upd_apply)
    next
      case False
      with Cons Some show ?thesis by auto
    qed
  qed
qed simp

lemma inv_tick:
  assumes inv: "pool_inv p"
  shows "pool_inv (pool_tick w order p)"
proof -
  let ?s = "pl_store p" and ?p = "pool_tick w order p" and ?m = "fold queue_next (pl_log p) Map.empty"
  let ?has = "refWorker_has (pl_workers p w)"
  obtain c s' h' where scan: "claim_scan order (pl_now p) ?has (?s, pl_heap p) = (c, s', h')"
    by (cases "claim_scan order (pl_now p) ?has (?s, pl_heap p)")
  consider "c = None" "s' = ?s" "h' = pl_heap p"
    | i j a where "rs_jobs ?s i = Some j" "eligible (pl_now p) ?has j" "append_nil (rj_payload j) (pl_heap p) = (a, h')"
      "c = Some \<lparr>cl_id = rj_id j, cl_typ = rj_typ j, cl_payload = a\<rparr>"
      "s' = ?s\<lparr>rs_jobs := (rs_jobs ?s)(i \<mapsto> j\<lparr>rj_claimed := True, rj_attempts := rj_attempts j + 1\<rparr>)\<rparr>"
    using claim_scan_cases [OF scan] by blast
  then show ?thesis
  proof cases
    case 1
    then have "?p = p" using scan by (simp add: pool_tick_def refStore_claim_def)
    with inv show ?thesis by simp
  next
    case (2 i j a)
    let ?j = "j\<lparr>rj_claimed := True, rj_attempts := rj_attempts j + 1\<rparr>"
    note g = append_nil_grown [OF 2(3)]
    obtain hf where hf: "rw_handlers (pl_workers p w) (rj_typ j) = Some hf"
      using 2(2) by (auto simp: eligible_def refWorker_has_def)
    have lo: "log_ok p" "slices_ok p" using inv by (simp_all add: pool_inv_def)
    then have "job_ok ?m (pl_heap p) (pl_now p) i (rs_jobs ?s i)" by (simp only: log_ok_def)
    then have ji: "rj_id j = i" "?m i = Some (Waiting (rj_typ j) (bytes_of (rj_payload j) (pl_heap p)) (rj_processAt j))"
      using 2(1,2) by (auto simp: job_ok_def eligible_def)
    let ?e = "Started w i (rj_typ j) (bytes_of (rj_payload j) (pl_heap p)) (pl_now p)"
    have p': "pl_store ?p = s'" "pl_heap ?p = h'" "pl_log ?p = pl_log p @ [?e]" "pl_now ?p = pl_now p"
      "pl_known ?p = pl_known p \<union> set_option a" "pl_workers ?p = pl_workers p"
      "pl_flight ?p = pl_flight p @ [(w, \<lparr>cl_id = i, cl_typ = rj_typ j, cl_payload = a\<rparr>, hf)]"
      using scan 2 hf ji g(2) by (simp_all add: pool_tick_def refStore_claim_def refWorker_handlerFor_def)
    have same: "bytes_of (rj_payload j) h' = bytes_of (rj_payload j) (pl_heap p)"
      using g(1) lo(2) 2(1) by (cases "rj_payload j") (auto simp: grown_def slices_ok_def)
    have due: "due (rj_processAt j) (pl_now p)" using 2(2) by (auto simp: eligible_def due_def split: option.splits)
    have idle: "\<not> rj_claimed j" "\<not> rj_done j" using 2(2) by (simp_all add: eligible_def)
    have "log_ok ?p"
      by (rule log_ok_event [OF lo, of _ ?e ?j]) (simp_all add: p' 2(5) g(1) ji due idle job_ok_def same)
    moreover have "flight_ok ?p"
      using inv idle 2(1) by (auto simp: pool_inv_def flight_ok_def flight_ids_def p' active_def 2(5))
    moreover have "dom (rs_jobs s') = dom (rs_jobs ?s)" "rs_seq s' = rs_seq ?s" using 2(1) by (auto simp: 2(5))
    then have "names_ok ?p" using inv by (simp add: pool_inv_def names_ok_def p'(1,3))
    moreover have "slices_ok ?p"
      by (rule slices_ok_put [OF lo(2), where K = "set_option a" and jid = i and j' = ?j])
        (use g(3) in \<open>auto simp: p' 2(5) g(1) 2(1)\<close>)
    moreover have "delays_ok ?p" using inv p' by (simp add: pool_inv_def delays_ok_def)
    ultimately show ?thesis by (simp add: pool_inv_def)
  qed
qed

lemma remove_nth:
  assumes "distinct xs" "g < length xs"
  shows "distinct (take g xs @ drop (Suc g) xs) \<and> set (take g xs @ drop (Suc g) xs) = set xs - {xs ! g}"
proof -
  have split: "xs = take g xs @ xs ! g # drop (Suc g) xs" by (rule id_take_nth_drop [OF assms(2)])
  have "distinct (take g xs @ xs ! g # drop (Suc g) xs)" using assms(1) by (subst (asm) split)
  moreover have "set xs = set (take g xs @ xs ! g # drop (Suc g) xs)" by (rule arg_cong [OF split])
  ultimately show ?thesis by auto
qed

lemma inv_handled:
  assumes inv: "pool_inv p" and g: "g < length (pl_flight p)"
  shows "pool_inv (pool_handled g err p)"
proof -
  let ?s = "pl_store p" and ?p = "pool_handled g err p" and ?m = "fold queue_next (pl_log p) Map.empty"
  obtain w c hf where fl: "pl_flight p ! g = (w, c, hf)" by (cases "pl_flight p ! g")
  let ?i = "cl_id c" and ?delay = "rw_retryDelay (pl_workers p w)"
  have idg: "flight_ids p ! g = ?i" using g fl by (simp add: flight_ids_def)
  have fo: "distinct (flight_ids p)" "\<And>jid. jid \<in> set (flight_ids p) \<longleftrightarrow> active ?s jid"
    using inv by (simp_all add: pool_inv_def flight_ok_def)
  have "?i \<in> set (flight_ids p)" using idg g nth_mem [of g "flight_ids p"] by (simp add: flight_ids_def)
  then obtain j where j: "rs_jobs ?s ?i = Some j" "rj_claimed j" "\<not> rj_done j"
    using fo(2) by (auto simp: active_def split: option.splits)
  have lo: "log_ok p" "slices_ok p" using inv by (simp_all add: pool_inv_def)
  then have "job_ok ?m (pl_heap p) (pl_now p) ?i (rs_jobs ?s ?i)" by (simp only: log_ok_def)
  then obtain t where t: "rj_id j = ?i" "t \<le> pl_now p" "?m ?i = Some (Running (rj_typ j) (bytes_of (rj_payload j) (pl_heap p)) t)"
    using j by (auto simp: job_ok_def)
  have delay: "0 \<le> ?delay" using inv by (simp add: pool_inv_def delays_ok_def)
  let ?j = "case err of None \<Rightarrow> j\<lparr>rj_done := True\<rparr> | Some e \<Rightarrow> j\<lparr>rj_claimed := False, rj_processAt := Some (pl_now p + ?delay)\<rparr>"
  let ?e = "case err of None \<Rightarrow> Acked ?i | Some e \<Rightarrow> Failed ?i (pl_now p + ?delay)"
  have p': "pl_store ?p = ?s\<lparr>rs_jobs := (rs_jobs ?s)(?i \<mapsto> ?j)\<rparr>" "pl_heap ?p = pl_heap p" "pl_log ?p = pl_log p @ [?e]"
    "pl_now ?p = pl_now p" "pl_known ?p = pl_known p" "pl_workers ?p = pl_workers p"
    "flight_ids ?p = take g (flight_ids p) @ drop (Suc g) (flight_ids p)"
    using fl j by (simp_all add: pool_handled_def refStore_retry_def refStore_complete_def flight_ids_def take_map drop_map Let_def
        split: option.split)
  have "log_ok ?p"
    by (rule log_ok_event [OF lo, of _ ?e ?j]) (use t delay j in \<open>auto simp: p' job_ok_def split: option.split\<close>)
  moreover have "active (pl_store ?p) jid \<longleftrightarrow> active ?s jid \<and> jid \<noteq> ?i" for jid
    unfolding p'(1) active_def using j by (cases err) simp_all
  moreover have "g < length (flight_ids p)" using g by (simp add: flight_ids_def)
  note rem = remove_nth [OF fo(1) this, folded p'(7), unfolded idg]
  ultimately have "log_ok ?p" "flight_ok ?p" unfolding flight_ok_def using fo(2) by simp_all
  moreover have "dom (rs_jobs (pl_store ?p)) = dom (rs_jobs ?s)" "rs_seq (pl_store ?p) = rs_seq ?s" using j by (auto simp: p'(1))
  then have "names_ok ?p" using inv unfolding pool_inv_def names_ok_def p'(3) by (cases err) simp_all
  moreover have "slices_ok ?p"
    by (rule slices_ok_put [OF lo(2), where K = "{}" and jid = ?i and j' = ?j]) (use j in \<open>auto simp: p' split: option.splits\<close>)
  moreover have "delays_ok ?p" using inv p' by (simp add: pool_inv_def delays_ok_def)
  ultimately show ?thesis by (simp add: pool_inv_def)
qed

lemma inv_worker:
  assumes "pool_inv p" "rw_retryDelay x = rw_retryDelay (pl_workers p i)"
  shows "pool_inv (p\<lparr>pl_workers := (pl_workers p)(i := x)\<rparr>)"
  using assms by (intro pool_inv_frame [OF assms(1)]) (auto simp: pool_inv_def slices_ok_def delays_ok_def)

lemma register_delay: "rw_retryDelay (snd (refWorker_Register t h x)) = rw_retryDelay x"
  by (simp add: refWorker_Register_def split: option.split)

lemma inv_step:
  assumes "pool_step p p'" "pool_inv p" "enqueues (pl_log p') < 2 ^ 63"
  shows "pool_inv p'"
  using assms
proof (cases rule: pool_step.cases)
  case (enqueue job ctx)
  with assms(2,3) inv_enqueue show ?thesis by auto
next
  case (register i t h)
  then show ?thesis using inv_worker [OF assms(2)] by (simp add: pool_register_def register_delay)
next
  case (run i)
  then show ?thesis using inv_worker [OF assms(2)] by (simp add: pool_run_def)
next
  case (cancel i)
  then show ?thesis using inv_worker [OF assms(2)] by (simp add: pool_cancel_def)
next
  case (return i)
  then show ?thesis using inv_worker [OF assms(2)] by (simp add: pool_return_def)
next
  case (tick i order)
  then show ?thesis using inv_tick [OF assms(2)] by simp
next
  case (handled g err)
  then show ?thesis using inv_handled [OF assms(2)] by simp
next
  case (wait d)
  then show ?thesis using assms(2)
    by (intro pool_inv_frame [OF assms(2)]) (auto simp: pool_inv_def slices_ok_def delays_ok_def)
next
  case (build bs)
  then show ?thesis using assms(2)
    by (intro pool_inv_frame [OF assms(2)]) (auto simp: pool_inv_def slices_ok_def delays_ok_def bh_alloc_def less_Suc_eq)
next
  case (overwrite a i x)
  then show ?thesis using assms(2)
    by (intro pool_inv_frame [OF assms(2)]) (auto simp: pool_inv_def slices_ok_def delays_ok_def bh_set_def)
qed

lemma inv_init: "pool_inv (newRefFixture h now)"
  by (auto simp: inv_defs newRefFixture_def newRefStore_def job_ok_def active_def newRefWorker_def)

lemma step_log: "pool_step p p' \<Longrightarrow> \<exists>es. pl_log p' = pl_log p @ es"
  by (induction rule: pool_step.induct)
    (auto simp: pool_enqueue_def pool_register_def pool_run_def pool_cancel_def pool_return_def pool_tick_def
      pool_handled_def Let_def split_beta split: option.split)

lemma step_enqueues: "pool_step p p' \<Longrightarrow> enqueues (pl_log p) \<le> enqueues (pl_log p')"
  using step_log by fastforce

interpretation poolsys: counted_system pool_step "newRefFixture h now" pool_inv "\<lambda>p. enqueues (pl_log p)" "2 ^ 63" for h now
  by unfold_locales (auto intro: inv_init inv_step step_enqueues)

section \<open>What every interleaving keeps\<close>

lemma no_second_enqueue:
  "queue_accepts m es \<Longrightarrow> m jid \<noteq> None \<Longrightarrow> Enqueued jid ty bs at \<notin> set es"
proof (induction es arbitrary: m)
  case (Cons e es)
  then have "queue_next e m jid \<noteq> None" by (cases e) (auto split: option.splits job_phase.splits)
  with Cons show ?case by auto
qed simp

lemma enqueued_unique:
  assumes "queue_accepts Map.empty es" "Enqueued jid ty bs at \<in> set es" "Enqueued jid ty' bs' at' \<in> set es"
  shows "ty' = ty \<and> bs' = bs \<and> at' = at"
proof -
  from assms(2) obtain pre post where es: "es = pre @ Enqueued jid ty bs at # post" by (auto simp: in_set_conv_decomp)
  let ?m = "fold queue_next pre Map.empty"
  have acc: "queue_accepts Map.empty pre" "?m jid = None" "queue_accepts (?m(jid \<mapsto> Waiting ty bs at)) post"
    using assms(1) by (simp_all add: es queue_accepts_append)
  then have "Enqueued jid ty' bs' at' \<notin> set pre" using accepted_history [OF acc(1), of jid] by auto
  moreover have "Enqueued jid ty' bs' at' \<notin> set post" by (rule no_second_enqueue [OF acc(3)]) simp
  ultimately show ?thesis using assms(3) by (simp add: es)
qed

text \<open>A handler in flight is the one its worker has for exactly the type of the claim.\<close>

lemma flight_handler:
  "pool_steps (newRefFixture h now) p \<Longrightarrow>
     (i, c, hf) \<in> set (pl_flight p) \<Longrightarrow> rw_handlers (pl_workers p i) (cl_typ c) = Some hf"
proof (induction arbitrary: i c hf rule: rtranclp_induct)
  case base
  then show ?case by (simp add: newRefFixture_def)
next
  case (step p p')
  from step.hyps(2) show ?case
  proof (cases rule: pool_step.cases)
    case (register k t h)
    with step show ?thesis by (fastforce simp: pool_register_def refWorker_Register_def split: option.splits)
  next
    case (tick k order)
    with step show ?thesis
      by (auto simp: pool_tick_def refWorker_handlerFor_def Let_def split: prod.splits option.splits)
  next
    case (handled g err)
    then have "set (pl_flight p') \<subseteq> set (pl_flight p)" "pl_workers p' = pl_workers p"
      by (auto simp: pool_handled_def Let_def split: prod.splits option.splits dest: in_set_takeD in_set_dropD)
    with step show ?thesis by auto
  qed (use step in \<open>auto simp: pool_enqueue_def pool_run_def pool_cancel_def pool_return_def Let_def split: prod.splits if_splits\<close>)
qed

text \<open>
  C6. Deliveries are sound in every interleaving of enqueuers, workers, handlers and shutdowns
  (below \<open>2^63\<close> accepted jobs): whenever a handler starts, its task has the identity, type and bytes
  of one accepted \<^verbatim>\<open>Enqueue\<close>, whatever anybody wrote into any slice since, not before its \<^verbatim>\<open>ProcessAt\<close>; every
  earlier start of the job has failed, so no two handlers work on it at once, and none has succeeded.
\<close>

theorem jobs_delivery_sound:
  assumes "pool_steps (newRefFixture h now) p" "enqueues (pl_log p) < 2 ^ 63" "pl_log p = pre @ Started i jid ty bs t # post"
  shows "(\<exists>at. Enqueued jid ty bs at \<in> set pre \<and> due at t) \<and> starts jid pre = failures jid pre \<and> Acked jid \<notin> set pre"
proof -
  have "queue_accepts Map.empty (pl_log p)" using poolsys.reachable [OF assms(1,2)] by (simp add: pool_inv_def log_ok_def)
  then have acc: "queue_accepts Map.empty pre" "queue_allows (fold queue_next pre Map.empty) (Started i jid ty bs t)"
    by (simp_all add: assms(3) queue_accepts_append)
  then obtain at where "fold queue_next pre Map.empty jid = Some (Waiting ty bs at)" "due at t"
    by (auto split: option.splits job_phase.splits)
  with accepted_history [OF acc(1), of jid] show ?thesis by (auto simp: history_def)
qed

text \<open>A waiting job can be started by every running worker that has a handler for its type.\<close>

lemma waiting_can_start:
  assumes inv: "pool_inv p" and j: "rs_jobs (pl_store p) jid = Some j" "\<not> rj_done j" "\<not> rj_claimed j"
    and w: "rw_phase (pl_workers p i) = InLoop" "rw_handlers (pl_workers p i) (rj_typ j) = Some hf"
  shows "\<exists>d p'. pool_steps p p' \<and>
    pl_log p' = pl_log p @ [Started i jid (rj_typ j) (bytes_of (rj_payload j) (pl_heap p)) (pl_now p + int d)]"
proof -
  define d where "d = (case rj_processAt j of None \<Rightarrow> 0 | Some t \<Rightarrow> nat (t - pl_now p))"
  let ?p = "p\<lparr>pl_now := pl_now p + int d\<rparr>"
  have "finite (dom (rs_jobs (pl_store p)))" using inv by (simp add: pool_inv_def names_ok_def)
  then have "finite (dom (rs_jobs (pl_store p)) - {jid})" by simp
  from finite_distinct_list [OF this]
  obtain rest where rest: "set rest = dom (rs_jobs (pl_store p)) - {jid}" "distinct rest" by metis
  let ?order = "jid # rest"
  have "pool_step p ?p" by (rule wait)
  moreover have "pool_step ?p (pool_tick i ?order ?p)"
    using w(1) rest j(1) by (intro tick) auto
  moreover have "rj_id j = jid" using inv j by (auto simp: pool_inv_def log_ok_def job_ok_def dest!: spec [of _ jid])
  moreover have "eligible (pl_now ?p) (refWorker_has (pl_workers ?p i)) j"
    using j w by (auto simp: eligible_def refWorker_has_def d_def split: option.split)
  ultimately show ?thesis
    using j(1) w(2) append_nil_grown(2) [of "rj_payload j" "pl_heap p"]
    by (intro exI [of _ d] exI [of _ "pool_tick i ?order ?p"])
      (auto simp: pool_tick_def refStore_claim_def refWorker_handlerFor_def Let_def split: prod.split)
qed

text \<open>
  C7. No accepted job is lost: in every reachable pool an accepted job has succeeded, or a handler is
  running for it, or it waits in the store with its type and bytes, and then every worker in its
  loop that has a handler for the type can start it, after a wait if it is not due yet.
\<close>

theorem jobs_never_lost:
  assumes "pool_steps (newRefFixture h now) p" "enqueues (pl_log p) < 2 ^ 63" "Enqueued jid ty bs at \<in> set (pl_log p)"
  shows "Acked jid \<in> set (pl_log p) \<or> jid \<in> set (flight_ids p) \<or>
    (\<forall>i hf. rw_phase (pl_workers p i) = InLoop \<and> rw_handlers (pl_workers p i) ty = Some hf \<longrightarrow>
       (\<exists>d p'. pool_steps p p' \<and> pl_log p' = pl_log p @ [Started i jid ty bs (pl_now p + int d)]))"
proof -
  let ?m = "fold queue_next (pl_log p) Map.empty"
  have inv: "pool_inv p" by (rule poolsys.reachable [OF assms(1,2)])
  then have acc: "queue_accepts Map.empty (pl_log p)"
    and ok: "job_ok ?m (pl_heap p) (pl_now p) jid (rs_jobs (pl_store p) jid)"
    by (simp_all add: pool_inv_def log_ok_def)
  note hist = accepted_history [OF acc, of jid]
  with assms(3) have "?m jid \<noteq> None" by auto
  with ok obtain j where j: "rs_jobs (pl_store p) jid = Some j" by (auto simp: job_ok_def split: option.splits)
  consider "rj_done j" | "rj_claimed j" "\<not> rj_done j" | "\<not> rj_claimed j" "\<not> rj_done j" by blast
  then show ?thesis
  proof cases
    case 1
    with ok j hist have "Acked jid \<in> set (pl_log p)" by (auto simp: job_ok_def history_def)
    then show ?thesis by simp
  next
    case 2
    with inv j have "jid \<in> set (flight_ids p)" by (simp add: pool_inv_def flight_ok_def active_def)
    then show ?thesis by simp
  next
    case 3
    with ok j have "?m jid = Some (Waiting (rj_typ j) (bytes_of (rj_payload j) (pl_heap p)) (rj_processAt j))"
      by (simp add: job_ok_def)
    with hist obtain at0 where "Enqueued jid (rj_typ j) (bytes_of (rj_payload j) (pl_heap p)) at0 \<in> set (pl_log p)"
      by (auto simp: history_def)
    from enqueued_unique [OF acc assms(3) this] have "rj_typ j = ty" "bytes_of (rj_payload j) (pl_heap p) = bs" by simp_all
    with waiting_can_start [OF inv j 3(2,1)] show ?thesis by blast
  qed
qed

text \<open>A run of one worker: a handler is registered, the worker runs, a job comes in and is claimed.\<close>

definition demo_heap :: bheap where "demo_heap = \<lparr>bh_at = \<lambda>_. ''hi'', bh_next = 1\<rparr>"

definition demo_waiting :: "unit pool" where
  "demo_waiting =
     pool_enqueue context_Background \<lparr>jb_Type = ''t'', jb_Payload = Some 0, jb_ProcessAt = Some 7\<rparr>
       (pool_run 0 (pool_register 0 ''t'' (Some ()) (newRefFixture demo_heap 5)))"

definition demo_started :: "unit pool" where
  "demo_started = pool_tick 0 [''job-1''] (demo_waiting\<lparr>pl_now := pl_now demo_waiting + int 2\<rparr>)"

lemmas demo_defs = demo_waiting_def demo_started_def demo_heap_def pool_enqueue_def pool_run_def pool_register_def pool_tick_def
  newRefFixture_def newRefStore_def newRefWorker_def refEnqueuer_Enqueue_def refStore_enqueue_def refStore_claim_def
  refWorker_Register_def refWorker_has_def refWorker_handlerFor_def append_nil_def eligible_def bh_alloc_def Let_def

lemma demo_waiting_facts:
  "pl_log demo_waiting = [Enqueued ''job-1'' ''t'' ''hi'' (Some 7)]" "dom (rs_jobs (pl_store demo_waiting)) = {''job-1''}"
  "rw_phase (pl_workers demo_waiting 0) = InLoop" "rw_handlers (pl_workers demo_waiting 0) ''t'' = Some ()"
  "flight_ids demo_waiting = []"
  by (simp_all add: demo_defs flight_ids_def)

lemma demo_started_log:
  "pl_log demo_started = [Enqueued ''job-1'' ''t'' ''hi'' (Some 7)] @ Started 0 ''job-1'' ''t'' ''hi'' 7 # []"
  by (simp add: demo_defs)

lemma demo_waiting_reachable: "pool_steps (newRefFixture demo_heap 5) demo_waiting"
proof -
  let ?p0 = "newRefFixture demo_heap 5 :: unit pool"
  let ?p1 = "pool_register 0 ''t'' (Some ()) ?p0" and ?p2 = "pool_run 0 (pool_register 0 ''t'' (Some ()) ?p0)"
  have "pool_step ?p0 ?p1" by (rule register)
  moreover have "pool_step ?p1 ?p2" by (rule run) (simp add: demo_defs)
  moreover have "pool_step ?p2 demo_waiting" unfolding demo_waiting_def by (rule enqueue) (simp add: demo_defs)
  ultimately show ?thesis by (meson rtranclp.rtrancl_into_rtrancl rtranclp.rtrancl_refl)
qed

lemma demo_started_reachable: "pool_steps (newRefFixture demo_heap 5) demo_started"
proof -
  have "pool_step demo_waiting (demo_waiting\<lparr>pl_now := pl_now demo_waiting + int 2\<rparr>)" by (rule wait)
  moreover have "pool_step (demo_waiting\<lparr>pl_now := pl_now demo_waiting + int 2\<rparr>) demo_started"
    unfolding demo_started_def by (rule tick) (simp_all add: demo_waiting_facts)
  ultimately show ?thesis using demo_waiting_reachable by (meson rtranclp.rtrancl_into_rtrancl)
qed

theorem jobs_delivery_sound_witness:
  "(\<exists>at. Enqueued ''job-1'' ''t'' ''hi'' at \<in> set [Enqueued ''job-1'' ''t'' ''hi'' (Some 7)] \<and> due at 7) \<and>
     starts ''job-1'' [Enqueued ''job-1'' ''t'' ''hi'' (Some 7)] = failures ''job-1'' [Enqueued ''job-1'' ''t'' ''hi'' (Some 7)]"
  using jobs_delivery_sound [OF demo_started_reachable _ demo_started_log] by (simp add: demo_started_log enqueues_def)

theorem jobs_never_lost_witness:
  "\<exists>d p'. pool_steps demo_waiting p' \<and>
     pl_log p' = pl_log demo_waiting @ [Started 0 ''job-1'' ''t'' ''hi'' (pl_now demo_waiting + int d)]"
  using jobs_never_lost [OF demo_waiting_reachable, of "''job-1''" "''t''" "''hi''" "Some 7"]
  by (simp add: demo_waiting_facts enqueues_def)

end
