(* ===== verification/Job_Delivery.thy ===== *)
theory Job_Delivery
  imports Job_Queue "HOL-Library.List_Lexorder" "HOL-Library.Char_ord"
begin

text \<open>
  \<^verbatim>\<open>ports/jobs/jobstest/delivery.go\<close>: the delivery suite, run against the reference queue in time. A subtest
  is the goroutine of the test, the loop of one running worker, and the goroutines of its
  handlers. The environment \<open>dv_env\<close> leaves open what the scheduler and the runtime decide: how long the
  worker takes to its next tick, in which order it ranges over the map of jobs, how long a handler
  takes, whether a pending tick still wins the \<^verbatim>\<open>select\<close> after a cancellation, and how long \<^verbatim>\<open>Run\<close> takes to
  return. The statements of the test itself take no time, and a handler that returns does so
  before the next tick of its worker. A verdict is \<^term>\<open>None\<close> when the subtest fails.
\<close>

section \<open>Bounds and fixtures\<close>

record DeliveryBounds =
  db_ShutdownWithin :: int
  db_DeliverWithin :: int
  db_RedeliverWithin :: int
  db_ProcessAtDelay :: int

definition DeliveryBounds_validate :: "DeliveryBounds \<Rightarrow> unit option" where
  "DeliveryBounds_validate b = do {
     require (\<not> db_ShutdownWithin b \<le> 0);
     require (\<not> db_DeliverWithin b \<le> 0);
     require (\<not> db_RedeliverWithin b \<le> 0);
     require (\<not> db_ProcessAtDelay b \<le> 0) }"

text \<open>The handlers of the suite, one per function literal.\<close>

datatype test_handler = HRetry | HSched | HFired | HStraggler | HMut | HId | HWait | HExact | HFirst | HSecond | HNop

text \<open>The variables the handlers of a subtest share with it: counters, channels and the identities seen.\<close>

record test_vars =
  tv_attempts :: "32 word"
  tv_fires :: "32 word"
  tv_chan :: "unit chan"
  tv_chan2 :: "unit chan"
  tv_times :: "int chan"
  tv_texts :: "string chan"
  tv_errs :: "goerr option chan"
  tv_seen :: "string list"

definition new_vars :: "nat \<Rightarrow> test_vars" where
  "new_vars cap = \<lparr>tv_attempts = 0, tv_fires = 0, tv_chan = make_chan cap, tv_chan2 = make_chan 1, tv_times = make_chan 1,
     tv_texts = make_chan 1, tv_errs = make_chan 1, tv_seen = []\<rparr>"

text \<open>A handler returns, blocks for good, or waits for the end of its context.\<close>

datatype handled = Return "goerr option" | Block | AwaitCtx

definition transient :: goerr where "transient = err_of (New CodeInternal ''transient'')"

definition send_unit :: "test_vars \<Rightarrow> handled \<Rightarrow> handled \<times> test_vars" where
  "send_unit v after = (case chan_send () (tv_chan v) of None \<Rightarrow> (Block, v) | Some c \<Rightarrow> (after, v\<lparr>tv_chan := c\<rparr>))"

text \<open>\<^verbatim>\<open>for i := range task.Payload { task.Payload[i] = 'X' }\<close>\<close>

definition scribble :: "nat option \<Rightarrow> bheap \<Rightarrow> bheap" where
  "scribble r h = (case r of None \<Rightarrow> h | Some a \<Rightarrow> fold (\<lambda>i h. bh_set a i (CHR ''X'') h) [0..<length (bh_at h a)] h)"

definition after_cancel :: "test_vars \<Rightarrow> handled \<times> test_vars" where
  "after_cancel v =
     (case chan_send (Some context_Canceled) (tv_errs v) of
        None \<Rightarrow> (Block, v)
      | Some c \<Rightarrow> (Return (Some context_Canceled), v\<lparr>tv_errs := c\<rparr>))"

fun handle :: "test_handler \<Rightarrow> Task \<Rightarrow> int \<Rightarrow> bool \<Rightarrow> bheap \<Rightarrow> test_vars \<Rightarrow> handled \<times> bheap \<times> test_vars" where
  "handle HRetry task now cancelled h v =
     (let v = v\<lparr>tv_attempts := tv_attempts v + 1\<rparr>
      in if tv_attempts v = 1 then (Return (Some transient), h, v)
         else (let (r, v) = send_unit v (Return None) in (r, h, v)))"
| "handle HSched task now cancelled h v =
     (case chan_send now (tv_times v) of None \<Rightarrow> (Block, h, v) | Some c \<Rightarrow> (Return None, h, v\<lparr>tv_times := c\<rparr>))"
| "handle HFired task now cancelled h v = (let (r, v) = send_unit v (Return None) in (r, h, v))"
| "handle HStraggler task now cancelled h v = (let (r, v) = send_unit v Block in (r, h, v))"
| "handle HMut task now cancelled h v =
     (let v = v\<lparr>tv_attempts := tv_attempts v + 1\<rparr>
      in if tv_attempts v = 1 then (Return (Some transient), scribble (tk_Payload task) h, v)
         else (case chan_send (bytes_of (tk_Payload task) h) (tv_texts v) of
                 None \<Rightarrow> (Block, h, v)
               | Some c \<Rightarrow> (Return None, h, v\<lparr>tv_texts := c\<rparr>)))"
| "handle HId task now cancelled h v =
     (let v = v\<lparr>tv_seen := tv_seen v @ [tk_ID task]\<rparr>;
          v = v\<lparr>tv_attempts := tv_attempts v + 1\<rparr>
      in if tv_attempts v = 1 then (Return (Some transient), h, v)
         else (let (r, v) = send_unit v (Return None) in (r, h, v)))"
| "handle HWait task now cancelled h v =
     (let (r, v) = send_unit v AwaitCtx
      in case r of
           AwaitCtx \<Rightarrow> if cancelled then (let (r, v) = after_cancel v in (r, h, v)) else (AwaitCtx, h, v)
         | _ \<Rightarrow> (r, h, v))"
| "handle HExact task now cancelled h v =
     (let v = v\<lparr>tv_fires := tv_fires v + 1\<rparr>; (r, v) = send_unit v (Return None) in (r, h, v))"
| "handle HFirst task now cancelled h v = (let (r, v) = send_unit v (Return None) in (r, h, v))"
| "handle HSecond task now cancelled h v =
     (case chan_send () (tv_chan2 v) of None \<Rightarrow> (Block, h, v) | Some c \<Rightarrow> (Return None, h, v\<lparr>tv_chan2 := c\<rparr>))"
| "handle HNop task now cancelled h v = (Return None, h, v)"

section \<open>Time\<close>

record dv_env =
  de_gap :: "nat \<Rightarrow> nat"
  de_order :: "nat \<Rightarrow> refStore \<Rightarrow> string list"
  de_dur :: "nat \<Rightarrow> nat"
  de_late :: "nat \<Rightarrow> bool"
  de_ret :: "nat \<Rightarrow> nat"
  de_rounds :: "nat \<Rightarrow> nat"

text \<open>A subtest in progress: the pool with its clock, the shared variables, and how many decisions were taken.\<close>

record dworld =
  dw_pool :: "test_handler pool"
  dw_vars :: test_vars
  dw_k :: nat

abbreviation dw_now :: "dworld \<Rightarrow> int" where "dw_now w \<equiv> pl_now (dw_pool w)"

definition set_now :: "int \<Rightarrow> dworld \<Rightarrow> dworld" where
  "set_now t w = w\<lparr>dw_pool := (dw_pool w)\<lparr>pl_now := t\<rparr>\<rparr>"

text \<open>The goroutine that runs handler number \<open>g\<close> in flight.\<close>

definition run_handler :: "dv_env \<Rightarrow> nat \<Rightarrow> dworld \<Rightarrow> dworld" where
  "run_handler env g w =
     (let w = set_now (dw_now w + int (de_dur env (dw_k w))) w;
          p = dw_pool w;
          (i, c, hf) = pl_flight p ! g;
          task = \<lparr>tk_ID = cl_id c, tk_Type = cl_typ c, tk_Payload = cl_payload c\<rparr>;
          (r, h, v) = handle hf task (pl_now p) (rw_cancelled (pl_workers p i)) (pl_heap p) (dw_vars w);
          p = p\<lparr>pl_heap := h\<rparr>
      in case r of
           Return err \<Rightarrow> w\<lparr>dw_pool := pool_handled g err p, dw_vars := v\<rparr>
         | _ \<Rightarrow> w\<lparr>dw_pool := p, dw_vars := v\<rparr>)"

text \<open>The next tick of worker \<open>i\<close>, at least one nanosecond later, and the handler it starts.\<close>

definition tick_gap :: "dv_env \<Rightarrow> dworld \<Rightarrow> int" where
  "tick_gap env w = int (Suc (de_gap env (dw_k w)))"

definition worker_round :: "dv_env \<Rightarrow> nat \<Rightarrow> dworld \<Rightarrow> dworld" where
  "worker_round env i w =
     (let w = (set_now (dw_now w + tick_gap env w) w)\<lparr>dw_k := Suc (dw_k w)\<rparr>;
          p = pool_tick i (de_order env (dw_k w) (pl_store (dw_pool w))) (dw_pool w)
      in if pl_flight p = pl_flight (dw_pool w) then w\<lparr>dw_pool := p\<rparr>
         else run_handler env (length (pl_flight (dw_pool w))) (w\<lparr>dw_pool := p\<rparr>))"

text \<open>
  \<^verbatim>\<open>select\<close> on a channel and \<^verbatim>\<open>time.After\<close>: worker \<open>i\<close> goes on until \<open>ready\<close> holds or the deadline has
  passed. The result says whether the channel won.
\<close>

lemma worker_round_later: "dw_now w < dw_now (worker_round env i w)"
proof -
  have handled: "pl_now (pool_handled g err p) = pl_now p" for g err and p :: "test_handler pool"
    by (simp add: pool_handled_def Let_def split: prod.split option.split)
  have later: "dw_now w \<le> dw_now (run_handler env g w)" for g w
    by (simp add: run_handler_def set_now_def Let_def handled split: prod.split handled.split)
  have tick: "pl_now (pool_tick i order p) = pl_now p" for order and p :: "test_handler pool"
    by (simp add: pool_tick_def Let_def split: prod.split option.split)
  define w1 where "w1 = (set_now (dw_now w + tick_gap env w) w)\<lparr>dw_k := Suc (dw_k w)\<rparr>"
  define p where "p = pool_tick i (de_order env (dw_k w1) (pl_store (dw_pool w1))) (dw_pool w1)"
  have now: "dw_now w < pl_now p" by (simp add: p_def tick w1_def set_now_def tick_gap_def)
  have "worker_round env i w = (if pl_flight p = pl_flight (dw_pool w1) then w1\<lparr>dw_pool := p\<rparr>
      else run_handler env (length (pl_flight (dw_pool w1))) (w1\<lparr>dw_pool := p\<rparr>))"
    by (simp add: worker_round_def w1_def p_def Let_def)
  then show ?thesis using now later [of "w1\<lparr>dw_pool := p\<rparr>" "length (pl_flight (dw_pool w1))"] by simp
qed

function await :: "dv_env \<Rightarrow> nat \<Rightarrow> int \<Rightarrow> (test_vars \<Rightarrow> bool) \<Rightarrow> dworld \<Rightarrow> bool \<times> dworld" where
  "await env i deadline ready w =
     (if ready (dw_vars w) then (True, w)
      else if dw_now w + tick_gap env w > deadline then (False, set_now (max deadline (dw_now w)) w)
      else (let w' = worker_round env i w
            in if dw_now w' > deadline then (False, w') else await env i deadline ready w'))"
  by pat_completeness auto

termination
proof (relation "measure (\<lambda>(env, i, deadline, ready, w). nat (deadline - dw_now w))")
  fix env i ready and deadline :: int and w w'
  assume "w' = worker_round env i w" "\<not> deadline < dw_now w'"
  with worker_round_later [of w env i]
  show "((env, i, deadline, ready, w'), (env, i, deadline, ready, w)) \<in> measure (\<lambda>(env, i, deadline, ready, w). nat (deadline - dw_now w))"
    by simp
qed simp

declare await.simps [simp del]

section \<open>The helpers of the suite\<close>

record fixture =
  fx_pool :: "test_handler pool"
  fx_Bounds :: DeliveryBounds

definition begin_subtest :: "fixture \<Rightarrow> nat \<Rightarrow> dworld option" where
  "begin_subtest fx cap = do {
     DeliveryBounds_validate (fx_Bounds fx);
     Some \<lparr>dw_pool = fx_pool fx, dw_vars = new_vars cap, dw_k = 0\<rparr> }"

definition mustRegister :: "nat \<Rightarrow> string \<Rightarrow> test_handler \<Rightarrow> dworld \<Rightarrow> dworld option" where
  "mustRegister i jobType hf w = do {
     require (fst (refWorker_Register jobType (Some hf) (pl_workers (dw_pool w) i)) = None);
     Some (w\<lparr>dw_pool := pool_register i jobType (Some hf) (dw_pool w)\<rparr>) }"

definition mustEnqueue :: "Job \<Rightarrow> dworld \<Rightarrow> (JobInfo \<times> dworld) option" where
  "mustEnqueue job w =
     (let (info, err, _) = refEnqueuer_Enqueue context_Background job (pl_store (dw_pool w), pl_heap (dw_pool w))
      in do {
        require (err = None);
        Some (info, w\<lparr>dw_pool := pool_enqueue context_Background job (dw_pool w)\<rparr>) })"

definition runWorker :: "nat \<Rightarrow> dworld \<Rightarrow> dworld" where
  "runWorker i w = w\<lparr>dw_pool := pool_run i (dw_pool w)\<rparr>"

definition cancel_run :: "nat \<Rightarrow> dworld \<Rightarrow> dworld" where
  "cancel_run i w = w\<lparr>dw_pool := pool_cancel i (dw_pool w)\<rparr>"

text \<open>\<^verbatim>\<open>Run\<close> returns nil whenever it returns; the question is when.\<close>

definition assertRunNilWithin :: "dv_env \<Rightarrow> nat \<Rightarrow> int \<Rightarrow> dworld \<Rightarrow> dworld option" where
  "assertRunNilWithin env i bound w =
     (let w1 = (if de_late env (dw_k w) then worker_round env i w else w);
          w2 = set_now (dw_now w1 + int (de_ret env (dw_k w1))) w1
      in do {
        require (dw_now w2 - dw_now w \<le> bound);
        Some (w2\<lparr>dw_pool := pool_return i (dw_pool w2)\<rparr>) })"

definition shutdown :: "dv_env \<Rightarrow> nat \<Rightarrow> fixture \<Rightarrow> dworld \<Rightarrow> unit option" where
  "shutdown env i fx w = do {
     _ \<leftarrow> assertRunNilWithin env i (db_ShutdownWithin (fx_Bounds fx)) (cancel_run i w);
     Some () }"

definition job_of :: "string \<Rightarrow> nat option \<Rightarrow> int option \<Rightarrow> Job" where
  "job_of ty payload at = \<lparr>jb_Type = ty, jb_Payload = payload, jb_ProcessAt = at\<rparr>"

text \<open>A byte slice literal in the test.\<close>

definition literal :: "string \<Rightarrow> dworld \<Rightarrow> nat option \<times> dworld" where
  "literal bs w =
     (let p = dw_pool w; (a, h) = bh_alloc bs (pl_heap p)
      in (Some a, w\<lparr>dw_pool := p\<lparr>pl_heap := h, pl_known := insert a (pl_known p)\<rparr>\<rparr>))"

definition signalled :: "test_vars \<Rightarrow> bool" where "signalled v \<longleftrightarrow> ch_buf (tv_chan v) \<noteq> []"

section \<open>The subtests\<close>

definition dt_FailedAttemptRedelivered :: "dv_env \<Rightarrow> fixture \<Rightarrow> unit option" where
  "dt_FailedAttemptRedelivered env fx = do {
     w \<leftarrow> begin_subtest fx 1;
     w \<leftarrow> mustRegister 0 ''a:retry'' HRetry w;
     let w = runWorker 0 w;
     (info, w) \<leftarrow> mustEnqueue (job_of ''a:retry'' None None) w;
     let (ok, w) = await env 0 (dw_now w + db_RedeliverWithin (fx_Bounds fx)) signalled w;
     require ok;
     require (\<not> sint (tv_attempts (dw_vars w)) < 2);
     shutdown env 0 fx w }"

definition dt_NotBeforeProcessAt :: "dv_env \<Rightarrow> fixture \<Rightarrow> unit option" where
  "dt_NotBeforeProcessAt env fx = do {
     w \<leftarrow> begin_subtest fx 1;
     let at = dw_now w + db_ProcessAtDelay (fx_Bounds fx);
     w \<leftarrow> mustRegister 0 ''b:sched'' HSched w;
     let w = runWorker 0 w;
     (info, w) \<leftarrow> mustEnqueue (job_of ''b:sched'' None (Some at)) w;
     let (ok, w) = await env 0 (dw_now w + (db_ProcessAtDelay (fx_Bounds fx) + db_DeliverWithin (fx_Bounds fx)))
       (\<lambda>v. ch_buf (tv_times v) \<noteq> []) w;
     require ok;
     require (case ch_buf (tv_times (dw_vars w)) of got # _ \<Rightarrow> \<not> got < at | [] \<Rightarrow> False);
     shutdown env 0 fx w }"

definition dt_PastProcessAtEligible :: "dv_env \<Rightarrow> fixture \<Rightarrow> unit option" where
  "dt_PastProcessAtEligible env fx = do {
     w \<leftarrow> begin_subtest fx 1;
     w \<leftarrow> mustRegister 0 ''p:past'' HFired w;
     let w = runWorker 0 w;
     (info, w) \<leftarrow> mustEnqueue (job_of ''p:past'' None (Some (dw_now w - 3600 * 1000000000))) w;
     let (ok, w) = await env 0 (dw_now w + db_DeliverWithin (fx_Bounds fx)) signalled w;
     require ok;
     shutdown env 0 fx w }"

definition dt_RunReturnsNilOnCancel :: "dv_env \<Rightarrow> fixture \<Rightarrow> unit option" where
  "dt_RunReturnsNilOnCancel env fx = do {
     w \<leftarrow> begin_subtest fx 1;
     w \<leftarrow> mustRegister 0 ''c:straggler'' HStraggler w;
     let w = runWorker 0 w;
     (info, w) \<leftarrow> mustEnqueue (job_of ''c:straggler'' None None) w;
     let (ok, w) = await env 0 (dw_now w + db_DeliverWithin (fx_Bounds fx)) signalled w;
     require ok;
     shutdown env 0 fx w }"

definition dt_PayloadMutationIsolated :: "dv_env \<Rightarrow> fixture \<Rightarrow> unit option" where
  "dt_PayloadMutationIsolated env fx = do {
     w \<leftarrow> begin_subtest fx 1;
     w \<leftarrow> mustRegister 0 ''d:mut'' HMut w;
     let w = runWorker 0 w;
     let (payload, w) = literal ''orig'' w;
     (info, w) \<leftarrow> mustEnqueue (job_of ''d:mut'' payload None) w;
     let (ok, w) = await env 0 (dw_now w + db_RedeliverWithin (fx_Bounds fx)) (\<lambda>v. ch_buf (tv_texts v) \<noteq> []) w;
     require ok;
     require (case ch_buf (tv_texts (dw_vars w)) of got # _ \<Rightarrow> got = ''orig'' | [] \<Rightarrow> False);
     shutdown env 0 fx w }"

definition dt_IDStableAcrossRedeliveries :: "dv_env \<Rightarrow> fixture \<Rightarrow> unit option" where
  "dt_IDStableAcrossRedeliveries env fx = do {
     w \<leftarrow> begin_subtest fx 1;
     w \<leftarrow> mustRegister 0 ''e:id'' HId w;
     let w = runWorker 0 w;
     (info, w) \<leftarrow> mustEnqueue (job_of ''e:id'' None None) w;
     let (ok, w) = await env 0 (dw_now w + db_RedeliverWithin (fx_Bounds fx)) signalled w;
     require ok;
     require (list_all (\<lambda>i. i = ji_ID info) (tv_seen (dw_vars w)));
     shutdown env 0 fx w }"

text \<open>After the cancellation the handler that waits for its context goes on.\<close>

definition resume_handler :: "dv_env \<Rightarrow> nat \<Rightarrow> dworld \<Rightarrow> dworld" where
  "resume_handler env g w =
     (let w = set_now (dw_now w + int (de_dur env (dw_k w))) w;
          (r, v) = after_cancel (dw_vars w)
      in case r of
           Return err \<Rightarrow> w\<lparr>dw_pool := pool_handled g err (dw_pool w), dw_vars := v\<rparr>
         | _ \<Rightarrow> w\<lparr>dw_vars := v\<rparr>)"

definition dt_HandlerCtxCancelledOnShutdown :: "dv_env \<Rightarrow> fixture \<Rightarrow> unit option" where
  "dt_HandlerCtxCancelledOnShutdown env fx = do {
     w \<leftarrow> begin_subtest fx 1;
     w \<leftarrow> mustRegister 0 ''j:wait'' HWait w;
     let w = runWorker 0 w;
     (info, w) \<leftarrow> mustEnqueue (job_of ''j:wait'' None None) w;
     let (ok, w) = await env 0 (dw_now w + db_DeliverWithin (fx_Bounds fx)) signalled w;
     require ok;
     let w = cancel_run 0 w;
     let w' = (if pl_flight (dw_pool w) \<noteq> [] then resume_handler env 0 w else w);
     require (dw_now w' - dw_now w \<le> db_ShutdownWithin (fx_Bounds fx));
     require (case ch_buf (tv_errs (dw_vars w')) of err # _ \<Rightarrow> err \<noteq> None | [] \<Rightarrow> False);
     _ \<leftarrow> assertRunNilWithin env 0 (db_ShutdownWithin (fx_Bounds fx)) w';
     Some () }"

definition dt_ExactTypeDispatchNoPrefix :: "dv_env \<Rightarrow> fixture \<Rightarrow> unit option" where
  "dt_ExactTypeDispatchNoPrefix env fx = do {
     w \<leftarrow> begin_subtest fx 2;
     w \<leftarrow> mustRegister 0 ''t'' HExact w;
     let w = runWorker 0 w;
     (info, w) \<leftarrow> mustEnqueue (job_of ''t'' None None) w;
     let (ok, w) = await env 0 (dw_now w + db_DeliverWithin (fx_Bounds fx)) signalled w;
     require ok;
     let w = w\<lparr>dw_vars := (dw_vars w)\<lparr>tv_chan := snd (chan_recv (tv_chan (dw_vars w)))\<rparr>\<rparr>;
     (info, w) \<leftarrow> mustEnqueue (job_of ''t:x'' None None) w;
     let (ok, w) = await env 0 (dw_now w + db_DeliverWithin (fx_Bounds fx)) signalled w;
     require (\<not> ok);
     require (tv_fires (dw_vars w) = 1);
     shutdown env 0 fx w }"

definition dt_DuplicateRegisterKeepsOriginal :: "dv_env \<Rightarrow> fixture \<Rightarrow> unit option" where
  "dt_DuplicateRegisterKeepsOriginal env fx = do {
     w \<leftarrow> begin_subtest fx 1;
     w \<leftarrow> mustRegister 0 ''o:dup'' HFirst w;
     let (err, x) = refWorker_Register ''o:dup'' (Some HSecond) (pl_workers (dw_pool w) 0);
     let w = w\<lparr>dw_pool := pool_register 0 ''o:dup'' (Some HSecond) (dw_pool w)\<rparr>;
     require (CodeOf err = CodeAlreadyExists);
     let w = runWorker 0 w;
     (info, w) \<leftarrow> mustEnqueue (job_of ''o:dup'' None None) w;
     let (ok, w) = await env 0 (dw_now w + db_DeliverWithin (fx_Bounds fx))
       (\<lambda>v. ch_buf (tv_chan v) \<noteq> [] \<or> ch_buf (tv_chan2 v) \<noteq> []) w;
     require ok;
     require (ch_buf (tv_chan2 (dw_vars w)) = []);
     shutdown env 0 fx w }"

definition dt_NewWorkerDeliversAfterStop :: "dv_env \<Rightarrow> fixture \<Rightarrow> unit option" where
  "dt_NewWorkerDeliversAfterStop env fx = do {
     w \<leftarrow> begin_subtest fx 1;
     (info, w) \<leftarrow> mustEnqueue (job_of ''r:job'' None (Some (dw_now w + db_ProcessAtDelay (fx_Bounds fx)))) w;
     w \<leftarrow> mustRegister 0 ''r:job'' HNop w;
     let w = runWorker 0 w;
     let w = cancel_run 0 w;
     w \<leftarrow> assertRunNilWithin env 0 (db_ShutdownWithin (fx_Bounds fx)) w;
     w \<leftarrow> mustRegister 1 ''r:job'' HFired w;
     let w = runWorker 1 w;
     let (ok, w) = await env 1 (dw_now w + (db_ProcessAtDelay (fx_Bounds fx) + db_DeliverWithin (fx_Bounds fx))) signalled w;
     require ok;
     shutdown env 1 fx w }"

text \<open>Before each of the 50 concurrent calls the worker makes any number of rounds.\<close>

primrec smoke_loop :: "dv_env \<Rightarrow> nat \<Rightarrow> dworld \<Rightarrow> dworld" where
  "smoke_loop env 0 w = w"
| "smoke_loop env (Suc n) w =
     (let w = (worker_round env 0 ^^ de_rounds env n) w
      in smoke_loop env n (w\<lparr>dw_pool := pool_enqueue context_Background (job_of ''l:job'' None None) (dw_pool w)\<rparr>))"

definition dt_ConcurrentEnqueueSmoke :: "dv_env \<Rightarrow> fixture \<Rightarrow> unit option" where
  "dt_ConcurrentEnqueueSmoke env fx = do {
     w \<leftarrow> begin_subtest fx 1;
     w \<leftarrow> mustRegister 0 ''l:job'' HNop w;
     let w = runWorker 0 w;
     let w = smoke_loop env 50 w;
     shutdown env 0 fx w }"

definition RunDeliveryContract :: "dv_env \<Rightarrow> fixture \<Rightarrow> bool list" where
  "RunDeliveryContract env fx = map (\<lambda>subtest. subtest env fx = Some ())
     [dt_FailedAttemptRedelivered, dt_NotBeforeProcessAt, dt_PastProcessAtEligible, dt_RunReturnsNilOnCancel,
      dt_PayloadMutationIsolated, dt_IDStableAcrossRedeliveries, dt_HandlerCtxCancelledOnShutdown,
      dt_ExactTypeDispatchNoPrefix, dt_DuplicateRegisterKeepsOriginal, dt_NewWorkerDeliversAfterStop,
      dt_ConcurrentEnqueueSmoke]"

text \<open>The fixture of the reference queue.\<close>

definition ms :: int where "ms = 1000000"

definition refFixture :: "bheap \<Rightarrow> int \<Rightarrow> fixture" where
  "refFixture h now =
     \<lparr>fx_pool = newRefFixture h now,
      fx_Bounds = \<lparr>db_ShutdownWithin = 2000 * ms, db_DeliverWithin = 2000 * ms, db_RedeliverWithin = 2000 * ms,
                   db_ProcessAtDelay = 300 * ms\<rparr>\<rparr>"

text \<open>
  An environment with latency \<open>J\<close>: a tick comes at most \<open>J\<close> after the poll interval, handlers and the
  return of \<^verbatim>\<open>Run\<close> take at most \<open>J\<close>, and a range over the map visits every job once.
\<close>

definition punctual :: "int \<Rightarrow> dv_env \<Rightarrow> bool" where
  "punctual J env \<longleftrightarrow>
     (\<forall>k. int (Suc (de_gap env k)) \<le> 10 * ms + J \<and> int (de_dur env k) \<le> J \<and> int (de_ret env k) \<le> J) \<and>
     (\<forall>k s. finite (dom (rs_jobs s)) \<longrightarrow> distinct (de_order env k s) \<and> set (de_order env k s) = dom (rs_jobs s))"

section \<open>One round of a worker\<close>

abbreviation dw_jobs :: "dworld \<Rightarrow> string \<Rightarrow> refJob option" where "dw_jobs w \<equiv> rs_jobs (pl_store (dw_pool w))"
abbreviation dw_heap :: "dworld \<Rightarrow> bheap" where "dw_heap w \<equiv> pl_heap (dw_pool w)"
abbreviation dw_worker :: "dworld \<Rightarrow> nat \<Rightarrow> test_handler refWorker" where "dw_worker w \<equiv> pl_workers (dw_pool w)"
abbreviation dw_flight :: "dworld \<Rightarrow> (nat \<times> claimed \<times> test_handler) list" where "dw_flight w \<equiv> pl_flight (dw_pool w)"

definition at_time :: "int \<Rightarrow> nat \<Rightarrow> dworld \<Rightarrow> dworld" where
  "at_time t k w = (set_now t w)\<lparr>dw_k := k\<rparr>"

lemma at_time_simps [simp]:
  "dw_now (at_time t k w) = t" "dw_vars (at_time t k w) = dw_vars w" "dw_k (at_time t k w) = k"
  "dw_jobs (at_time t k w) = dw_jobs w" "dw_heap (at_time t k w) = dw_heap w" "dw_worker (at_time t k w) = dw_worker w"
  "dw_flight (at_time t k w) = dw_flight w" "at_time t' k' (at_time t k w) = at_time t' k' w" "at_time (dw_now w) (dw_k w) w = w"
  by (simp_all add: at_time_def set_now_def)

lemma punctualD:
  assumes "punctual J env"
  shows "tick_gap env w \<le> 10 * ms + J" "int (de_dur env k) \<le> J" "int (de_ret env k) \<le> J"
    "finite (dom (rs_jobs s)) \<Longrightarrow> distinct (de_order env k s) \<and> set (de_order env k s) = dom (rs_jobs s)"
  using assms unfolding punctual_def tick_gap_def by blast+

definition idle :: "int \<Rightarrow> nat \<Rightarrow> dworld \<Rightarrow> bool" where
  "idle t i w \<longleftrightarrow> (\<forall>jid j. dw_jobs w jid = Some j \<longrightarrow> \<not> eligible t (refWorker_has (dw_worker w i)) j)"

lemma round_idle:
  assumes "idle (dw_now w + tick_gap env w) i w"
  shows "worker_round env i w = at_time (dw_now w + tick_gap env w) (Suc (dw_k w)) w"
proof -
  let ?w = "at_time (dw_now w + tick_gap env w) (Suc (dw_k w)) w"
  obtain c s h where scan: "claim_scan (de_order env (dw_k ?w) (pl_store (dw_pool ?w))) (dw_now ?w) (refWorker_has (dw_worker ?w i))
      (pl_store (dw_pool ?w), dw_heap ?w) = (c, s, h)"
    by (metis surj_pair)
  from claim_scan_cases [OF scan] assms have "c = None" "s = pl_store (dw_pool ?w)" "h = dw_heap ?w"
    by (auto simp: idle_def)
  with scan have "pool_tick i (de_order env (dw_k ?w) (pl_store (dw_pool ?w))) (dw_pool ?w) = dw_pool ?w"
    unfolding pool_tick_def refStore_claim_def by simp
  then show ?thesis unfolding worker_round_def Let_def at_time_def [symmetric] by simp
qed

text \<open>What a delivery leaves of the job and of the goroutines in flight, by the way the handler ends.\<close>

definition job_after :: "handled \<Rightarrow> int \<Rightarrow> refJob \<Rightarrow> refJob" where
  "job_after r again j =
     (let j = j\<lparr>rj_claimed := True, rj_attempts := rj_attempts j + 1\<rparr>
      in case r of
           Return None \<Rightarrow> j\<lparr>rj_done := True\<rparr>
         | Return (Some e) \<Rightarrow> j\<lparr>rj_claimed := False, rj_processAt := Some again\<rparr>
         | _ \<Rightarrow> j)"

definition flight_after :: "handled \<Rightarrow> nat \<times> claimed \<times> test_handler \<Rightarrow> (nat \<times> claimed \<times> test_handler) list
    \<Rightarrow> (nat \<times> claimed \<times> test_handler) list" where
  "flight_after r f fl = (case r of Return _ \<Rightarrow> fl | _ \<Rightarrow> fl @ [f])"

definition task_of :: "string \<Rightarrow> refJob \<Rightarrow> nat option \<Rightarrow> Task" where
  "task_of jid j a = \<lparr>tk_ID = jid, tk_Type = rj_typ j, tk_Payload = a\<rparr>"

text \<open>The state after a delivery of the only job in the store.\<close>

definition delivered :: "handled \<Rightarrow> int \<Rightarrow> bheap \<Rightarrow> test_vars \<Rightarrow> nat \<Rightarrow> string \<Rightarrow> refJob \<Rightarrow> test_handler \<Rightarrow> dworld \<Rightarrow> dworld \<Rightarrow> bool" where
  "delivered r t h v i jid j hf w w' \<longleftrightarrow>
     dw_jobs w' = [jid \<mapsto> job_after r (t + rw_retryDelay (dw_worker w i)) j] \<and> dw_heap w' = h \<and> dw_vars w' = v \<and> dw_now w' = t \<and>
     dw_worker w' = dw_worker w \<and> (\<exists>c. dw_flight w' = flight_after r (i, c, hf) (dw_flight w) \<and> cl_id c = jid) \<and>
     rs_seq (pl_store (dw_pool w')) = rs_seq (pl_store (dw_pool w))"

lemma distinct_set_single: "distinct xs \<Longrightarrow> set xs = {x} \<Longrightarrow> xs = [x]"
  by (cases xs; cases "tl xs") auto

lemma round_delivers:
  assumes env: "punctual J env" and job: "dw_jobs w = [jid \<mapsto> j]" "rj_id j = jid"
    and el: "eligible (dw_now w + tick_gap env w) (refWorker_has (dw_worker w i)) j"
    and hf: "rw_handlers (dw_worker w i) (rj_typ j) = Some hf"
    and copy: "append_nil (rj_payload j) (dw_heap w) = (a, h1)"
    and t: "t = dw_now w + tick_gap env w + int (de_dur env (Suc (dw_k w)))"
    and run: "handle hf (task_of jid j a) t (rw_cancelled (dw_worker w i)) h1 (dw_vars w) = (r, h2, v)"
  shows "delivered r t h2 v i jid j hf w (worker_round env i w)"
proof -
  define w1 where "w1 = at_time (dw_now w + tick_gap env w) (Suc (dw_k w)) w"
  define c where "c = \<lparr>cl_id = jid, cl_typ = rj_typ j, cl_payload = a\<rparr>"
  let ?order = "de_order env (dw_k w1) (pl_store (dw_pool w1))"
  have "set ?order = {jid}" "distinct ?order"
    using punctualD(4) [OF env, of "pl_store (dw_pool w1)" "dw_k w1"] job(1) by (simp_all add: w1_def)
  then have order: "?order = [jid]" by (rule distinct_set_single [rotated])
  define p where "p = pool_tick i ?order (dw_pool w1)"
  have p: "pl_store p = (pl_store (dw_pool w))\<lparr>rs_jobs := [jid \<mapsto> j\<lparr>rj_claimed := True, rj_attempts := rj_attempts j + 1\<rparr>]\<rparr>"
    "pl_heap p = h1" "pl_flight p = dw_flight w @ [(i, c, hf)]" "pl_now p = dw_now w + tick_gap env w" "pl_workers p = dw_worker w"
    unfolding p_def order pool_tick_def refStore_claim_def using job el copy hf
    by (simp_all add: w1_def at_time_def set_now_def refWorker_handlerFor_def c_def)
  have round: "worker_round env i w = run_handler env (length (dw_flight w)) (w1\<lparr>dw_pool := p\<rparr>)"
    unfolding worker_round_def Let_def at_time_def [symmetric] w1_def [symmetric] p_def [symmetric] using p(3) by (simp add: w1_def)
  define p2 where "p2 = p\<lparr>pl_now := t, pl_heap := h2\<rparr>"
  have rh: "run_handler env (length (dw_flight w)) (w1\<lparr>dw_pool := p\<rparr>) =
      (case r of Return err \<Rightarrow> w1\<lparr>dw_pool := pool_handled (length (dw_flight w)) err p2, dw_vars := v\<rparr>
       | _ \<Rightarrow> w1\<lparr>dw_pool := p2, dw_vars := v\<rparr>)"
    using run p t unfolding run_handler_def task_of_def by (simp add: w1_def set_now_def c_def p2_def split: handled.split)
  show ?thesis
  proof (cases r)
    case (Return err)
    then show ?thesis unfolding delivered_def round rh
      by (cases err) (simp_all add: p2_def p c_def pool_handled_def refStore_retry_def refStore_complete_def Let_def job_after_def
          flight_after_def exI [of _ c])
  qed (auto simp: delivered_def round rh p2_def p c_def job_after_def flight_after_def Let_def)
qed

section \<open>Waiting for a delivery\<close>

lemma await_skip:
  assumes env: "punctual J env" and "0 \<le> J" "\<not> ready (dw_vars w)" "\<And>t. t < a \<Longrightarrow> idle t i w"
    and "max (dw_now w) a + (10 * ms + J) \<le> deadline"
  shows "\<exists>t0 k0. await env i deadline ready w = await env i deadline ready (at_time t0 k0 w) \<and>
    a \<le> t0 + tick_gap env (at_time t0 k0 w) \<and> t0 + tick_gap env (at_time t0 k0 w) \<le> max (dw_now w) a + (10 * ms + J) \<and> dw_now w \<le> t0"
  using assms(3-5)
proof (induction "nat (a - dw_now w)" arbitrary: w rule: less_induct)
  case less
  note gap = punctualD(1) [OF env, of w]
  have pos: "0 < tick_gap env w" by (simp add: tick_gap_def)
  show ?case
  proof (cases "a \<le> dw_now w + tick_gap env w")
    case True
    then show ?thesis using gap by (intro exI [of _ "dw_now w"] exI [of _ "dw_k w"]) simp
  next
    case False
    let ?w = "at_time (dw_now w + tick_gap env w) (Suc (dw_k w)) w"
    have r: "worker_round env i w = ?w" using False less.prems(2) by (intro round_idle) simp
    have "max (dw_now w) a = a" using False pos by simp
    then have dl: "dw_now w + tick_gap env w \<le> deadline" "a + (10 * ms + J) \<le> deadline"
      using False less.prems(3) gap pos assms(2) by (simp_all add: ms_def)
    then have eq: "await env i deadline ready w = await env i deadline ready ?w"
      by (subst await.simps) (simp add: r less.prems(1))
    have "nat (a - dw_now ?w) < nat (a - dw_now w)" using False pos by simp
    from less.hyps [OF this, of] less.prems(1,2) dl False obtain t0 k0 where
      "await env i deadline ready ?w = await env i deadline ready (at_time t0 k0 ?w)"
      "a \<le> t0 + tick_gap env (at_time t0 k0 ?w)" "t0 + tick_gap env (at_time t0 k0 ?w) \<le> max (dw_now ?w) a + (10 * ms + J)"
      "dw_now ?w \<le> t0" by (auto simp: idle_def)
    then show ?thesis using eq False pos by (intro exI [of _ t0] exI [of _ k0]) simp
  qed
qed

lemma delivered_at_time [simp]:
  "delivered r t h v i jid j hf (at_time t0 k0 w) w' = delivered r t h v i jid j hf w w'"
  by (simp add: delivered_def at_time_def set_now_def)

text \<open>
  A waiting job reaches its handler at most one poll interval and two latencies after it is due,
  and not before.
\<close>

lemma await_delivers:
  assumes env: "punctual J env" "0 \<le> J" and job: "dw_jobs w = [jid \<mapsto> j]" "rj_id j = jid" "\<not> rj_done j" "\<not> rj_claimed j"
    and hf: "rw_handlers (dw_worker w i) (rj_typ j) = Some hf"
    and copy: "append_nil (rj_payload j) (dw_heap w) = (b, h1)"
    and ready: "\<not> ready (dw_vars w)"
    and a: "a = (case rj_processAt j of None \<Rightarrow> dw_now w | Some x \<Rightarrow> x)"
    and dl: "max (dw_now w) a + (10 * ms + J) + J \<le> deadline"
    and run: "\<And>t. handle hf (task_of jid j b) t (rw_cancelled (dw_worker w i)) h1 (dw_vars w) = (r, h2, v t)"
  obtains w' t where "await env i deadline ready w = await env i deadline ready w'" "delivered r t h2 (v t) i jid j hf w w'"
    "a \<le> t" "dw_now w \<le> t" "t \<le> max (dw_now w) a + (10 * ms + J) + J"
proof -
  have el: "eligible t (refWorker_has (dw_worker w i)) j \<longleftrightarrow> (rj_processAt j = None \<or> a \<le> t)" for t
    using job hf by (auto simp: eligible_def refWorker_has_def a split: option.split)
  define a' where "a' = (if rj_processAt j = None then dw_now w else a)"
  have a': "a' = a" using a by (auto simp: a'_def split: option.splits)
  have idle: "idle t i w" if "t < a" "rj_processAt j \<noteq> None" for t using that el job(1) by (auto simp: idle_def split: if_splits)
  obtain t0 k0 where w0: "await env i deadline ready w = await env i deadline ready (at_time t0 k0 w)"
    "a \<le> t0 + tick_gap env (at_time t0 k0 w)" "t0 + tick_gap env (at_time t0 k0 w) \<le> max (dw_now w) a + (10 * ms + J)" "dw_now w \<le> t0"
  proof (cases "rj_processAt j")
    case None
    then show ?thesis using that [of "dw_now w" "dw_k w"] a punctualD(1) [OF env(1), of w] by (simp add: tick_gap_def)
  next
    case (Some x)
    then show ?thesis using await_skip [OF env, where ready = ready and w = w and a = a and i = i and deadline = deadline] idle ready dl env(2) that
      by fastforce
  qed
  let ?w0 = "at_time t0 k0 w"
  define t where "t = t0 + tick_gap env ?w0 + int (de_dur env (Suc k0))"
  have d: "delivered r t h2 (v t) i jid j hf w (worker_round env i ?w0)"
    using round_delivers [OF env(1), of ?w0 jid j i hf b h1 t r h2 "v t"] job hf copy run w0(2) el by (simp add: t_def)
  then have now: "dw_now (worker_round env i ?w0) = t" by (simp add: delivered_def)
  have dur: "0 \<le> int (de_dur env (Suc k0))" "int (de_dur env (Suc k0)) \<le> J" using punctualD(2) [OF env(1)] by simp_all
  have pos: "0 < tick_gap env ?w0" by (simp add: tick_gap_def)
  have "await env i deadline ready ?w0 = await env i deadline ready (worker_round env i ?w0)"
    using ready now w0(3) dl dur env(2) by (subst await.simps) (simp add: t_def)
  with w0 d dur pos show ?thesis by (intro that [of "worker_round env i ?w0" t]) (simp_all add: t_def)
qed

text \<open>When nothing is eligible any more the timer wins and nothing else happens.\<close>

lemma await_times_out:
  assumes "\<And>t. idle t i w" "\<not> ready (dw_vars w)" "dw_now w \<le> deadline"
  shows "\<exists>k. await env i deadline ready w = (False, at_time deadline k w)"
  using assms
proof (induction "nat (deadline - dw_now w)" arbitrary: w rule: less_induct)
  case less
  let ?w = "at_time (dw_now w + tick_gap env w) (Suc (dw_k w)) w"
  show ?case
  proof (cases "dw_now w + tick_gap env w > deadline")
    case True
    then show ?thesis using less.prems
      by (intro exI [of _ "dw_k w"], subst await.simps) (simp add: max_def at_time_def set_now_def)
  next
    case False
    have r: "worker_round env i w = ?w" using less.prems by (intro round_idle) simp
    have "await env i deadline ready w = await env i deadline ready ?w"
      using False less.prems by (subst await.simps) (simp add: r)
    moreover have "nat (deadline - dw_now ?w) < nat (deadline - dw_now w)" using False by (simp add: tick_gap_def)
    ultimately show ?thesis using less.hyps [of ?w] less.prems False by (auto simp: idle_def)
  qed
qed

section \<open>Shutting down\<close>

lemma worker_round_time:
  assumes env: "punctual J env" "0 \<le> J"
  shows "dw_now (worker_round env i w) \<le> dw_now w + (10 * ms + J) + J"
proof -
  have handled: "pl_now (pool_handled g err p) = pl_now p" for g err and p :: "test_handler pool"
    by (simp add: pool_handled_def Let_def split: prod.split option.split)
  have rh: "dw_now (run_handler env g w) \<le> dw_now w + J" for g w
    using punctualD(2) [OF env(1)] by (simp add: run_handler_def set_now_def Let_def handled split: prod.split handled.split)
  have tick: "pl_now (pool_tick i order p) = pl_now p" for order and p :: "test_handler pool"
    by (simp add: pool_tick_def Let_def split: prod.split option.split)
  define w1 where "w1 = (set_now (dw_now w + tick_gap env w) w)\<lparr>dw_k := Suc (dw_k w)\<rparr>"
  define p where "p = pool_tick i (de_order env (dw_k w1) (pl_store (dw_pool w1))) (dw_pool w1)"
  have now: "pl_now p \<le> dw_now w + (10 * ms + J)"
    using punctualD(1) [OF env(1), of w] by (simp add: p_def tick w1_def set_now_def)
  have "worker_round env i w = (if pl_flight p = pl_flight (dw_pool w1) then w1\<lparr>dw_pool := p\<rparr>
      else run_handler env (length (pl_flight (dw_pool w1))) (w1\<lparr>dw_pool := p\<rparr>))"
    by (simp add: worker_round_def w1_def p_def Let_def)
  then show ?thesis using now env(2) rh [of "length (pl_flight (dw_pool w1))" "w1\<lparr>dw_pool := p\<rparr>"] by auto
qed

lemma assertRunNil_passes:
  assumes env: "punctual J env" "0 \<le> J" and b: "(10 * ms + J) + J + J \<le> bound"
  shows "\<exists>w'. assertRunNilWithin env i bound w = Some w'"
proof -
  have b': "J \<le> bound" using b env(2) by (simp add: ms_def)
  have r: "int (de_ret env k) \<le> J" for k by (rule punctualD(3) [OF env(1)])
  show ?thesis
    using worker_round_time [OF env, of i w] b b' r [of "dw_k (worker_round env i w)"] r [of "dw_k w"]
    by (auto simp: assertRunNilWithin_def set_now_def Let_def)
qed

lemma shutdown_passes:
  assumes "punctual J env" "0 \<le> J" "(10 * ms + J) + J + J \<le> db_ShutdownWithin (fx_Bounds fx)"
  shows "shutdown env i fx w = Some ()"
  using assertRunNil_passes [OF assms, of i "cancel_run i w"] by (auto simp: shutdown_def)

section \<open>The subtests pass\<close>

definition start_world :: "bheap \<Rightarrow> int \<Rightarrow> nat \<Rightarrow> dworld" where
  "start_world h now cap = \<lparr>dw_pool = newRefFixture h now, dw_vars = new_vars cap, dw_k = 0\<rparr>"

lemma begin_subtest_ref [simp]: "begin_subtest (refFixture h now) cap = Some (start_world h now cap)"
  by (simp add: begin_subtest_def refFixture_def DeliveryBounds_validate_def start_world_def ms_def)

definition first_job :: "string \<Rightarrow> nat option \<Rightarrow> int option \<Rightarrow> refJob" where
  "first_job ty b at = \<lparr>rj_id = ''job-1'', rj_typ = ty, rj_payload = b, rj_processAt = at, rj_attempts = 0, rj_claimed = False, rj_done = False\<rparr>"

text \<open>A running worker 0 with one handler, and one job enqueued.\<close>

definition prepared :: "string \<Rightarrow> test_handler \<Rightarrow> nat option \<Rightarrow> int option \<Rightarrow> bheap \<Rightarrow> int \<Rightarrow> nat \<Rightarrow> dworld \<Rightarrow> bool" where
  "prepared ty hf b at h now cap w \<longleftrightarrow>
     dw_jobs w = [''job-1'' \<mapsto> first_job ty b at] \<and> dw_heap w = h \<and> dw_now w = now \<and> dw_vars w = new_vars cap \<and> dw_flight w = [] \<and>
     rw_handlers (dw_worker w 0) = [ty \<mapsto> hf] \<and> \<not> rw_cancelled (dw_worker w 0) \<and> rw_retryDelay (dw_worker w 0) = 20 * ms \<and>
     rs_seq (pl_store (dw_pool w)) = 1"

lemma mustRegister_first:
  assumes "rw_handlers (dw_worker w i) = Map.empty" "ty \<noteq> []"
  shows "mustRegister i ty hf w =
    Some (w\<lparr>dw_pool := (dw_pool w)\<lparr>pl_workers := (dw_worker w)(i := (dw_worker w i)\<lparr>rw_handlers := [ty \<mapsto> hf]\<rparr>)\<rparr>\<rparr>)"
  using assms by (simp add: mustRegister_def refWorker_Register_def pool_register_def)

text \<open>The effect of an accepted \<^verbatim>\<open>Enqueue\<close>.\<close>

definition enqueued :: "string \<Rightarrow> string \<Rightarrow> nat option \<Rightarrow> int option \<Rightarrow> dworld \<Rightarrow> dworld \<Rightarrow> bool" where
  "enqueued jid ty b at w w' \<longleftrightarrow>
     dw_jobs w' = (dw_jobs w)(jid \<mapsto> \<lparr>rj_id = jid, rj_typ = ty, rj_payload = b, rj_processAt = at, rj_attempts = 0,
        rj_claimed = False, rj_done = False\<rparr>) \<and>
     dw_now w' = dw_now w \<and> dw_vars w' = dw_vars w \<and> dw_worker w' = dw_worker w \<and> dw_flight w' = dw_flight w \<and>
     rs_seq (pl_store (dw_pool w')) = rs_seq (pl_store (dw_pool w)) + 1"

lemma mustEnqueue_passes:
  assumes "ty \<noteq> []" "append_nil b (dw_heap w) = (b', h')" "jid = ''job-'' @ fmt_d (sint (rs_seq (pl_store (dw_pool w)) + 1))"
  obtains w' where "mustEnqueue (job_of ty b at) w = Some (\<lparr>ji_ID = jid\<rparr>, w')" "enqueued jid ty b' at w w'" "dw_heap w' = h'"
proof -
  have e: "refEnqueuer_Enqueue context_Background (job_of ty b at) (pl_store (dw_pool w), dw_heap w) =
     (\<lparr>ji_ID = jid\<rparr>, None, (pl_store (dw_pool w))\<lparr>rs_seq := rs_seq (pl_store (dw_pool w)) + 1,
        rs_jobs := (dw_jobs w)(jid \<mapsto> \<lparr>rj_id = jid, rj_typ = ty, rj_payload = b', rj_processAt = at, rj_attempts = 0,
          rj_claimed = False, rj_done = False\<rparr>)\<rparr>, h')"
    using assms by (simp add: refEnqueuer_Enqueue_def refStore_enqueue_def job_of_def Let_def)
  show ?thesis
    by (rule that [of "w\<lparr>dw_pool := pool_enqueue context_Background (job_of ty b at) (dw_pool w)\<rparr>"])
      (simp_all add: mustEnqueue_def e pool_enqueue_def enqueued_def)
qed

lemma job_1: "''job-'' @ fmt_d (sint (0 + 1 :: i64)) = ''job-1''"
proof -
  have "fmt_d 1 = ''1''" by code_simp
  then show ?thesis by simp
qed

lemma append_nil_None [simp]: "append_nil None h = (None, h)"
  by (simp add: append_nil_def)

lemma start_world_simps [simp]:
  "dw_jobs (start_world h now cap) = Map.empty" "dw_heap (start_world h now cap) = h" "dw_now (start_world h now cap) = now"
  "dw_vars (start_world h now cap) = new_vars cap" "dw_flight (start_world h now cap) = []"
  "dw_worker (start_world h now cap) i = newRefWorker" "rs_seq (pl_store (dw_pool (start_world h now cap))) = 0"
  by (simp_all add: start_world_def newRefFixture_def newRefStore_def)

lemma newRefWorker_simps [simp]:
  "rw_handlers newRefWorker = Map.empty" "\<not> rw_cancelled newRefWorker" "rw_retryDelay newRefWorker = 20 * ms"
  by (simp_all add: newRefWorker_def ms_def)

lemma runWorker_simps [simp]:
  "dw_jobs (runWorker i w) = dw_jobs w" "dw_heap (runWorker i w) = dw_heap w" "dw_now (runWorker i w) = dw_now w"
  "dw_vars (runWorker i w) = dw_vars w" "dw_flight (runWorker i w) = dw_flight w"
  "rw_handlers (dw_worker (runWorker i w) k) = rw_handlers (dw_worker w k)"
  "rw_cancelled (dw_worker (runWorker i w) k) = rw_cancelled (dw_worker w k)"
  "rw_retryDelay (dw_worker (runWorker i w) k) = rw_retryDelay (dw_worker w k)"
  "pl_store (dw_pool (runWorker i w)) = pl_store (dw_pool w)"
  by (simp_all add: runWorker_def pool_run_def)

lemma prepare:
  assumes "ty \<noteq> []"
  obtains w1 w2 where "mustRegister 0 ty hf (start_world h now cap) = Some w1" "dw_now w1 = now"
    "mustEnqueue (job_of ty None at) (runWorker 0 w1) = Some (\<lparr>ji_ID = ''job-1''\<rparr>, w2)"
    "prepared ty hf None at h now cap w2"
proof -
  obtain w1 where w1: "mustRegister 0 ty hf (start_world h now cap) = Some w1" "dw_jobs w1 = Map.empty" "dw_heap w1 = h"
    "dw_now w1 = now" "dw_vars w1 = new_vars cap" "dw_flight w1 = []" "dw_worker w1 0 = newRefWorker\<lparr>rw_handlers := [ty \<mapsto> hf]\<rparr>"
    "rs_seq (pl_store (dw_pool w1)) = 0"
    using assms by (simp add: mustRegister_first)
  have "append_nil None (dw_heap (runWorker 0 w1)) = (None, h)" using w1(3) by simp
  moreover have "''job-1'' = ''job-'' @ fmt_d (sint (rs_seq (pl_store (dw_pool (runWorker 0 w1))) + 1))"
    using job_1 w1(8) by simp
  ultimately obtain w2 where w2: "mustEnqueue (job_of ty None at) (runWorker 0 w1) = Some (\<lparr>ji_ID = ''job-1''\<rparr>, w2)"
    "enqueued ''job-1'' ty None at (runWorker 0 w1) w2" "dw_heap w2 = h"
    by (rule mustEnqueue_passes [OF assms])
  then have "prepared ty hf None at h now cap w2" using w1 by (simp add: prepared_def enqueued_def first_job_def)
  with w1 w2 that show ?thesis by blast
qed

lemma prepared_delivers:
  assumes env: "punctual J env" "0 \<le> J" and w: "prepared ty hf b at h now cap w"
    and copy: "append_nil b h = (b', h1)" and ready: "\<not> ready (new_vars cap)"
    and dl: "max now (case at of None \<Rightarrow> now | Some x \<Rightarrow> x) + (10 * ms + J) + J \<le> deadline"
    and run: "\<And>t. handle hf (task_of ''job-1'' (first_job ty b at) b') t False h1 (new_vars cap) = (r, h2, v t)"
  obtains w' t where "await env 0 deadline ready w = await env 0 deadline ready w'"
    "delivered r t h2 (v t) 0 ''job-1'' (first_job ty b at) hf w w'"
    "(case at of None \<Rightarrow> now | Some x \<Rightarrow> x) \<le> t" "now \<le> t" "t \<le> max now (case at of None \<Rightarrow> now | Some x \<Rightarrow> x) + (10 * ms + J) + J"
proof -
  have p: "dw_jobs w = [''job-1'' \<mapsto> first_job ty b at]" "dw_heap w = h" "dw_now w = now" "dw_vars w = new_vars cap"
    "rw_handlers (dw_worker w 0) = [ty \<mapsto> hf]" "\<not> rw_cancelled (dw_worker w 0)"
    using w by (simp_all add: prepared_def)
  have fj: "rj_id (first_job ty b at) = ''job-1''" "\<not> rj_done (first_job ty b at)" "\<not> rj_claimed (first_job ty b at)"
    "rj_typ (first_job ty b at) = ty" "rj_payload (first_job ty b at) = b" "rj_processAt (first_job ty b at) = at"
    by (simp_all add: first_job_def)
  show ?thesis
    by (rule await_delivers [OF env p(1) fj(1-3), where i = 0 and hf = hf and b = b' and ?h1.0 = h1 and ready = ready and r = r and ?h2.0 = h2 and v = v
          and deadline = deadline and a = "case at of None \<Rightarrow> now | Some x \<Rightarrow> x"])
      (use p fj copy ready dl run that in auto)
qed

text \<open>A failed attempt is redelivered after the retry delay.\<close>

lemma redelivered:
  assumes env: "punctual J env" "0 \<le> J"
    and d: "delivered (Return (Some e)) t h v i jid j hf w w'" and j: "rj_id j = jid" "\<not> rj_done j" "rw_handlers (dw_worker w i) (rj_typ j) = Some hf"
    and ready: "\<not> ready v" and delay: "rw_retryDelay (dw_worker w i) = 20 * ms"
    and copy: "append_nil (rj_payload j) h = (b', h1)"
    and dl: "t + 20 * ms + (10 * ms + J) + J \<le> deadline"
    and run: "\<And>t. handle hf (task_of jid j b') t (rw_cancelled (dw_worker w i)) h1 v = (r, h2, v2 t)"
  obtains w2 t2 where "await env i deadline ready w' = await env i deadline ready w2" "dw_vars w2 = v2 t2" "dw_now w2 \<le> deadline"
proof -
  define j' where "j' = job_after (Return (Some e)) (t + 20 * ms) j"
  have w': "dw_jobs w' = [jid \<mapsto> j']" "dw_heap w' = h" "dw_vars w' = v" "dw_now w' = t" "dw_worker w' = dw_worker w"
    using d delay by (simp_all add: delivered_def j'_def)
  have j': "rj_id j' = jid" "\<not> rj_done j'" "\<not> rj_claimed j'" "rj_typ j' = rj_typ j" "rj_payload j' = rj_payload j"
    "rj_processAt j' = Some (t + 20 * ms)"
    using j by (simp_all add: j'_def job_after_def Let_def)
  have task: "task_of jid j' b' = task_of jid j b'" by (simp add: task_of_def j')
  obtain w2 t2 where w2: "await env i deadline ready w' = await env i deadline ready w2"
    "delivered r t2 h2 (v2 t2) i jid j' hf w' w2" "t2 \<le> max t (t + 20 * ms) + (10 * ms + J) + J"
    by (rule await_delivers [OF env w'(1) j'(1-3), where i = i and hf = hf and b = b' and ?h1.0 = h1 and ready = ready and r = r and ?h2.0 = h2 and v = v2
          and deadline = deadline and a = "t + 20 * ms"])
      (use w' j' j(3) task copy ready dl run in \<open>auto simp: ms_def\<close>)
  then show ?thesis using that [of w2 t2] dl by (simp add: delivered_def ms_def)
qed

lemma new_vars_simps [simp]:
  "tv_attempts (new_vars cap) = 0" "tv_fires (new_vars cap) = 0" "tv_chan (new_vars cap) = make_chan cap" "tv_chan2 (new_vars cap) = make_chan 1"
  "tv_times (new_vars cap) = make_chan 1" "tv_texts (new_vars cap) = make_chan 1" "tv_errs (new_vars cap) = make_chan 1"
  "tv_seen (new_vars cap) = []"
  by (simp_all add: new_vars_def)

lemma await_ready: "ready (dw_vars w) \<Longrightarrow> await env i deadline ready w = (True, w)"
  by (subst await.simps) simp

lemma ref_bounds [simp]:
  "db_ShutdownWithin (fx_Bounds (refFixture h now)) = 2000 * ms" "db_DeliverWithin (fx_Bounds (refFixture h now)) = 2000 * ms"
  "db_RedeliverWithin (fx_Bounds (refFixture h now)) = 2000 * ms" "db_ProcessAtDelay (fx_Bounds (refFixture h now)) = 300 * ms"
  by (simp_all add: refFixture_def)

lemma ref_shutdown:
  assumes "punctual J env" "0 \<le> J" "J \<le> 200 * ms"
  shows "shutdown env i (refFixture h now) w = Some ()"
  using assms by (intro shutdown_passes) (auto simp: ms_def)

lemma FailedAttemptRedelivered_passes:
  assumes env: "punctual J env" "0 \<le> J" "J \<le> 200 * ms"
  shows "dt_FailedAttemptRedelivered env (refFixture h now) = Some ()"
proof -
  obtain w1 w2 where w: "mustRegister 0 ''a:retry'' HRetry (start_world h now 1) = Some w1" "dw_now w1 = now"
    "mustEnqueue (job_of ''a:retry'' None None) (runWorker 0 w1) = Some (\<lparr>ji_ID = ''job-1''\<rparr>, w2)"
    "prepared ''a:retry'' HRetry None None h now 1 w2"
    by (rule prepare [OF list.distinct(2)])
  let ?v1 = "(new_vars 1)\<lparr>tv_attempts := 1\<rparr>" and ?dl = "now + 2000 * ms"
  obtain w3 t where w3: "await env 0 ?dl signalled w2 = await env 0 ?dl signalled w3"
    "delivered (Return (Some transient)) t h ?v1 0 ''job-1'' (first_job ''a:retry'' None None) HRetry w2 w3"
    "t \<le> now + (10 * ms + J) + J"
    by (rule prepared_delivers [OF env(1,2) w(4), where ready = signalled and deadline = ?dl and b' = None and ?h1.0 = h
          and r = "Return (Some transient)" and ?h2.0 = h and v = "\<lambda>_. ?v1"])
      (use env in \<open>auto simp: signalled_def ms_def\<close>)
  let ?v2 = "?v1\<lparr>tv_attempts := 2, tv_chan := \<lparr>ch_buf = [()], ch_cap = 1, ch_closed = False\<rparr>\<rparr>"
  obtain w4 where w4: "await env 0 ?dl signalled w3 = await env 0 ?dl signalled w4" "dw_vars w4 = ?v2"
    by (rule redelivered [OF env(1,2) w3(2), where ready = signalled and deadline = ?dl and b' = None and ?h1.0 = h
          and r = "Return None" and ?h2.0 = h and ?v2.0 = "\<lambda>_. ?v2"])
      (use env w(4) w3(3) in \<open>auto simp: signalled_def ms_def first_job_def prepared_def send_unit_def chan_send_def make_chan_def\<close>)
  have "await env 0 ?dl signalled w2 = (True, w4)" using w3(1) w4 by (simp add: await_ready signalled_def)
  moreover have "dw_now w2 = now" using w(4) by (simp add: prepared_def)
  ultimately show ?thesis using w(1,3) w4(2) ref_shutdown [OF env]
    by (simp add: dt_FailedAttemptRedelivered_def)
qed

lemma NotBeforeProcessAt_passes:
  assumes env: "punctual J env" "0 \<le> J" "J \<le> 200 * ms"
  shows "dt_NotBeforeProcessAt env (refFixture h now) = Some ()"
proof -
  let ?at = "now + 300 * ms" and ?dl = "now + (300 * ms + 2000 * ms)" and ?ready = "\<lambda>v. ch_buf (tv_times v) \<noteq> []"
  obtain w1 w2 where w: "mustRegister 0 ''b:sched'' HSched (start_world h now 1) = Some w1" "dw_now w1 = now"
    "mustEnqueue (job_of ''b:sched'' None (Some ?at)) (runWorker 0 w1) = Some (\<lparr>ji_ID = ''job-1''\<rparr>, w2)"
    "prepared ''b:sched'' HSched None (Some ?at) h now 1 w2"
    by (rule prepare [OF list.distinct(2)])
  let ?v = "\<lambda>t. (new_vars 1)\<lparr>tv_times := \<lparr>ch_buf = [t], ch_cap = 1, ch_closed = False\<rparr>\<rparr>"
  obtain w3 t where w3: "await env 0 ?dl ?ready w2 = await env 0 ?dl ?ready w3"
    "delivered (Return None) t h (?v t) 0 ''job-1'' (first_job ''b:sched'' None (Some ?at)) HSched w2 w3" "?at \<le> t"
    by (rule prepared_delivers [OF env(1,2) w(4), where ready = ?ready and deadline = ?dl and b' = None and ?h1.0 = h
          and r = "Return None" and ?h2.0 = h and v = ?v])
      (use env in \<open>auto simp: ms_def chan_send_def make_chan_def\<close>)
  then have v: "dw_vars w3 = ?v t" by (simp add: delivered_def)
  then have "await env 0 ?dl ?ready w2 = (True, w3)" using w3(1) by (simp add: await_ready)
  moreover have "dw_now w2 = now" using w(4) by (simp add: prepared_def)
  ultimately show ?thesis using w(1-3) v w3(3) ref_shutdown [OF env]
    by (simp add: dt_NotBeforeProcessAt_def)
qed

text \<open>The subtests with one signal on one channel.\<close>

lemma one_signal:
  assumes env: "punctual J env" "0 \<le> J" "J \<le> 200 * ms" and w: "prepared ty hf None at h now cap w"
    and due: "case at of None \<Rightarrow> True | Some x \<Rightarrow> x \<le> now"
    and run: "\<And>t. handle hf (task_of ''job-1'' (first_job ty None at) None) t False h (new_vars cap) = (r, h2, v)"
    and ready: "\<not> ready (new_vars cap)" "ready v"
  obtains w' t where "await env 0 (now + 2000 * ms) ready w = (True, w')"
    "delivered r t h2 v 0 ''job-1'' (first_job ty None at) hf w w'" "now \<le> t" "dw_vars w' = v"
proof -
  have m: "max now (case at of None \<Rightarrow> now | Some x \<Rightarrow> x) = now" using due by (auto split: option.splits)
  obtain w' t where w': "await env 0 (now + 2000 * ms) ready w = await env 0 (now + 2000 * ms) ready w'"
    "delivered r t h2 v 0 ''job-1'' (first_job ty None at) hf w w'" "now \<le> t"
    by (rule prepared_delivers [OF env(1,2) w, where ready = ready and deadline = "now + 2000 * ms" and b' = None and ?h1.0 = h
          and r = r and ?h2.0 = h2 and v = "\<lambda>_. v"])
      (use env m run ready(1) in \<open>auto simp: ms_def\<close>)
  then have "dw_vars w' = v" by (simp add: delivered_def)
  with w' ready(2) that show ?thesis by (simp add: await_ready)
qed

lemma PastProcessAtEligible_passes:
  assumes env: "punctual J env" "0 \<le> J" "J \<le> 200 * ms"
  shows "dt_PastProcessAtEligible env (refFixture h now) = Some ()"
proof -
  let ?at = "Some (now - 3600 * 1000000000)"
  let ?v = "(new_vars 1)\<lparr>tv_chan := \<lparr>ch_buf = [()], ch_cap = 1, ch_closed = False\<rparr>\<rparr>"
  obtain w1 w2 where w: "mustRegister 0 ''p:past'' HFired (start_world h now 1) = Some w1" "dw_now w1 = now"
    "mustEnqueue (job_of ''p:past'' None ?at) (runWorker 0 w1) = Some (\<lparr>ji_ID = ''job-1''\<rparr>, w2)"
    "prepared ''p:past'' HFired None ?at h now 1 w2"
    by (rule prepare [OF list.distinct(2)])
  obtain w3 t where w3: "await env 0 (now + 2000 * ms) signalled w2 = (True, w3)"
    by (rule one_signal [OF env w(4), where ready = signalled and r = "Return None" and ?h2.0 = h and v = ?v])
      (auto simp: signalled_def send_unit_def chan_send_def make_chan_def)
  moreover have "dw_now w2 = now" using w(4) by (simp add: prepared_def)
  ultimately show ?thesis using w(1-3) ref_shutdown [OF env] by (simp add: dt_PastProcessAtEligible_def)
qed

lemma RunReturnsNilOnCancel_passes:
  assumes env: "punctual J env" "0 \<le> J" "J \<le> 200 * ms"
  shows "dt_RunReturnsNilOnCancel env (refFixture h now) = Some ()"
proof -
  let ?v = "(new_vars 1)\<lparr>tv_chan := \<lparr>ch_buf = [()], ch_cap = 1, ch_closed = False\<rparr>\<rparr>"
  obtain w1 w2 where w: "mustRegister 0 ''c:straggler'' HStraggler (start_world h now 1) = Some w1" "dw_now w1 = now"
    "mustEnqueue (job_of ''c:straggler'' None None) (runWorker 0 w1) = Some (\<lparr>ji_ID = ''job-1''\<rparr>, w2)"
    "prepared ''c:straggler'' HStraggler None None h now 1 w2"
    by (rule prepare [OF list.distinct(2)])
  obtain w3 t where w3: "await env 0 (now + 2000 * ms) signalled w2 = (True, w3)"
    by (rule one_signal [OF env w(4), where ready = signalled and r = Block and ?h2.0 = h and v = ?v])
      (auto simp: signalled_def send_unit_def chan_send_def make_chan_def)
  moreover have "dw_now w2 = now" using w(4) by (simp add: prepared_def)
  ultimately show ?thesis using w(1-3) ref_shutdown [OF env] by (simp add: dt_RunReturnsNilOnCancel_def)
qed

lemma IDStableAcrossRedeliveries_passes:
  assumes env: "punctual J env" "0 \<le> J" "J \<le> 200 * ms"
  shows "dt_IDStableAcrossRedeliveries env (refFixture h now) = Some ()"
proof -
  obtain w1 w2 where w: "mustRegister 0 ''e:id'' HId (start_world h now 1) = Some w1" "dw_now w1 = now"
    "mustEnqueue (job_of ''e:id'' None None) (runWorker 0 w1) = Some (\<lparr>ji_ID = ''job-1''\<rparr>, w2)"
    "prepared ''e:id'' HId None None h now 1 w2"
    by (rule prepare [OF list.distinct(2)])
  let ?v1 = "(new_vars 1)\<lparr>tv_seen := [''job-1''], tv_attempts := 1\<rparr>" and ?dl = "now + 2000 * ms"
  obtain w3 t where w3: "await env 0 ?dl signalled w2 = await env 0 ?dl signalled w3"
    "delivered (Return (Some transient)) t h ?v1 0 ''job-1'' (first_job ''e:id'' None None) HId w2 w3"
    "t \<le> now + (10 * ms + J) + J"
    by (rule prepared_delivers [OF env(1,2) w(4), where ready = signalled and deadline = ?dl and b' = None and ?h1.0 = h
          and r = "Return (Some transient)" and ?h2.0 = h and v = "\<lambda>_. ?v1"])
      (use env in \<open>auto simp: signalled_def ms_def task_of_def\<close>)
  let ?v2 = "?v1\<lparr>tv_seen := [''job-1'', ''job-1''], tv_attempts := 2, tv_chan := \<lparr>ch_buf = [()], ch_cap = 1, ch_closed = False\<rparr>\<rparr>"
  obtain w4 where w4: "await env 0 ?dl signalled w3 = await env 0 ?dl signalled w4" "dw_vars w4 = ?v2"
    by (rule redelivered [OF env(1,2) w3(2), where ready = signalled and deadline = ?dl and b' = None and ?h1.0 = h
          and r = "Return None" and ?h2.0 = h and ?v2.0 = "\<lambda>_. ?v2"])
      (use env w(4) w3(3) in \<open>auto simp: signalled_def ms_def first_job_def prepared_def send_unit_def chan_send_def make_chan_def task_of_def\<close>)
  have "await env 0 ?dl signalled w2 = (True, w4)" using w3(1) w4 by (simp add: await_ready signalled_def)
  moreover have "dw_now w2 = now" using w(4) by (simp add: prepared_def)
  ultimately show ?thesis using w(1,3) w4(2) ref_shutdown [OF env]
    by (simp add: dt_IDStableAcrossRedeliveries_def)
qed

lemma HandlerCtxCancelledOnShutdown_passes:
  assumes env: "punctual J env" "0 \<le> J" "J \<le> 200 * ms"
  shows "dt_HandlerCtxCancelledOnShutdown env (refFixture h now) = Some ()"
proof -
  let ?v = "(new_vars 1)\<lparr>tv_chan := \<lparr>ch_buf = [()], ch_cap = 1, ch_closed = False\<rparr>\<rparr>"
  obtain w1 w2 where w: "mustRegister 0 ''j:wait'' HWait (start_world h now 1) = Some w1" "dw_now w1 = now"
    "mustEnqueue (job_of ''j:wait'' None None) (runWorker 0 w1) = Some (\<lparr>ji_ID = ''job-1''\<rparr>, w2)"
    "prepared ''j:wait'' HWait None None h now 1 w2"
    by (rule prepare [OF list.distinct(2)])
  obtain w3 t where w3: "await env 0 (now + 2000 * ms) signalled w2 = (True, w3)"
    "delivered AwaitCtx t h ?v 0 ''job-1'' (first_job ''j:wait'' None None) HWait w2 w3" "dw_vars w3 = ?v"
    by (rule one_signal [OF env w(4), where ready = signalled and r = AwaitCtx and ?h2.0 = h and v = ?v])
      (auto simp: signalled_def send_unit_def chan_send_def make_chan_def)
  have now2: "dw_now w2 = now" using w(4) by (simp add: prepared_def)
  let ?w = "cancel_run 0 w3"
  have fl: "dw_flight ?w \<noteq> []" using w3(2) by (auto simp: delivered_def flight_after_def cancel_run_def pool_cancel_def)
  have handled: "pl_now (pool_handled g err p) = pl_now p" for g err and p :: "test_handler pool"
    by (simp add: pool_handled_def Let_def split: prod.split option.split)
  have v: "dw_vars ?w = ?v" using w3(3) by (simp add: cancel_run_def)
  have r: "dw_now (resume_handler env 0 ?w) = dw_now ?w + int (de_dur env (dw_k ?w))"
    "ch_buf (tv_errs (dw_vars (resume_handler env 0 ?w))) = [Some context_Canceled]"
    using v by (simp_all add: resume_handler_def after_cancel_def chan_send_def set_now_def handled)
  have le: "int (de_dur env (dw_k ?w)) \<le> 2000 * ms" using punctualD(2) [OF env(1), of "dw_k ?w"] env(3) by (simp add: ms_def)
  obtain w5 where "assertRunNilWithin env 0 (2000 * ms) (resume_handler env 0 ?w) = Some w5"
    using assertRunNil_passes [OF env(1,2), of "2000 * ms" 0 "resume_handler env 0 ?w"] env(3) by (auto simp: ms_def)
  then show ?thesis using w(1-3) w3(1) now2 fl r le by (simp add: dt_HandlerCtxCancelledOnShutdown_def)
qed

lemma DuplicateRegisterKeepsOriginal_passes:
  assumes env: "punctual J env" "0 \<le> J" "J \<le> 200 * ms"
  shows "dt_DuplicateRegisterKeepsOriginal env (refFixture h now) = Some ()"
proof -
  let ?v = "(new_vars 1)\<lparr>tv_chan := \<lparr>ch_buf = [()], ch_cap = 1, ch_closed = False\<rparr>\<rparr>"
  let ?ready = "\<lambda>v. ch_buf (tv_chan v) \<noteq> [] \<or> ch_buf (tv_chan2 v) \<noteq> []"
  obtain w1 w2 where w: "mustRegister 0 ''o:dup'' HFirst (start_world h now 1) = Some w1" "dw_now w1 = now"
    "mustEnqueue (job_of ''o:dup'' None None) (runWorker 0 w1) = Some (\<lparr>ji_ID = ''job-1''\<rparr>, w2)"
    "prepared ''o:dup'' HFirst None None h now 1 w2"
    by (rule prepare [OF list.distinct(2)])
  have h: "rw_handlers (dw_worker w1 0) ''o:dup'' = Some HFirst" using w(1) by (auto simp: mustRegister_first)
  then have dup: "refWorker_Register ''o:dup'' (Some HSecond) (dw_worker w1 0) =
      (Some (err_of (New CodeAlreadyExists ''jobs: duplicate Register'')), dw_worker w1 0)"
    by (simp add: refWorker_Register_def)
  have same: "w1\<lparr>dw_pool := pool_register 0 ''o:dup'' (Some HSecond) (dw_pool w1)\<rparr> = w1"
    by (simp add: pool_register_def dup)
  obtain w3 t where w3: "await env 0 (now + 2000 * ms) ?ready w2 = (True, w3)" "dw_vars w3 = ?v"
    by (rule one_signal [OF env w(4), where ready = ?ready and r = "Return None" and ?h2.0 = h and v = ?v])
      (auto simp: send_unit_def chan_send_def make_chan_def)
  moreover have "dw_now w2 = now" using w(4) by (simp add: prepared_def)
  ultimately show ?thesis using w(1-3) dup same ref_shutdown [OF env]
    by (simp add: dt_DuplicateRegisterKeepsOriginal_def New_def)
qed

lemma ConcurrentEnqueueSmoke_passes:
  assumes env: "punctual J env" "0 \<le> J" "J \<le> 200 * ms"
  shows "dt_ConcurrentEnqueueSmoke env (refFixture h now) = Some ()"
  using ref_shutdown [OF env] by (simp add: dt_ConcurrentEnqueueSmoke_def mustRegister_first)

text \<open>The handler that overwrites its payload touches nothing else.\<close>

lemma scribble_next [simp]: "bh_next (scribble r h) = bh_next h"
proof -
  have "bh_next (fold (\<lambda>i h. bh_set a i (CHR ''X'') h) is h) = bh_next h" for "is" a h
    by (induction "is" arbitrary: h) (simp_all add: bh_set_def)
  then show ?thesis by (simp add: scribble_def split: option.split)
qed

lemma scribble_other:
  assumes "b \<noteq> a"
  shows "bh_at (scribble (Some a) h) b = bh_at h b"
proof -
  have "bh_at (fold (\<lambda>i h. bh_set a i (CHR ''X'') h) is h) b = bh_at h b" for "is" h
    using assms by (induction "is" arbitrary: h) (simp_all add: bh_set_def)
  then show ?thesis by (simp add: scribble_def)
qed

lemma append_nil_copy:
  assumes "bh_at h a = bs" "bs \<noteq> []"
  shows "append_nil (Some a) h = (Some (bh_next h), snd (bh_alloc bs h))" "bytes_of (Some (bh_next h)) (snd (bh_alloc bs h)) = bs"
  using assms by (simp_all add: append_nil_def bh_alloc_def)

lemma prepare_payload:
  assumes "ty \<noteq> []"
  obtains w1 w2 w3 h' where "mustRegister 0 ty hf (start_world h now cap) = Some w1"
    "literal ''orig'' (runWorker 0 w1) = (Some (bh_next h), w2)" "dw_now w2 = now"
    "mustEnqueue (job_of ty (Some (bh_next h)) None) w2 = Some (\<lparr>ji_ID = ''job-1''\<rparr>, w3)"
    "prepared ty hf (Some (Suc (bh_next h))) None h' now cap w3" "bh_at h' (Suc (bh_next h)) = ''orig''" "bh_next h' = Suc (Suc (bh_next h))"
proof -
  obtain w1 where w1: "mustRegister 0 ty hf (start_world h now cap) = Some w1" "dw_jobs w1 = Map.empty" "dw_heap w1 = h"
    "dw_now w1 = now" "dw_vars w1 = new_vars cap" "dw_flight w1 = []" "dw_worker w1 0 = newRefWorker\<lparr>rw_handlers := [ty \<mapsto> hf]\<rparr>"
    "rs_seq (pl_store (dw_pool w1)) = 0"
    using assms by (simp add: mustRegister_first)
  define w2 where "w2 = snd (literal ''orig'' (runWorker 0 w1))"
  have w2: "literal ''orig'' (runWorker 0 w1) = (Some (bh_next h), w2)" "dw_heap w2 = snd (bh_alloc ''orig'' h)"
    "dw_jobs w2 = dw_jobs w1" "dw_now w2 = now" "dw_vars w2 = new_vars cap" "dw_flight w2 = []"
    "dw_worker w2 = dw_worker (runWorker 0 w1)" "rs_seq (pl_store (dw_pool w2)) = 0"
    using w1 by (simp_all add: w2_def literal_def bh_alloc_def Let_def)
  let ?h' = "snd (bh_alloc ''orig'' (snd (bh_alloc ''orig'' h)))"
  have "append_nil (Some (bh_next h)) (dw_heap w2) = (Some (Suc (bh_next h)), ?h')"
    by (simp add: append_nil_def w2(2) bh_alloc_def)
  moreover have "''job-1'' = ''job-'' @ fmt_d (sint (rs_seq (pl_store (dw_pool w2)) + 1))" using job_1 w2(8) by simp
  ultimately obtain w3 where w3: "mustEnqueue (job_of ty (Some (bh_next h)) None) w2 = Some (\<lparr>ji_ID = ''job-1''\<rparr>, w3)"
    "enqueued ''job-1'' ty (Some (Suc (bh_next h))) None w2 w3" "dw_heap w3 = ?h'"
    by (rule mustEnqueue_passes [OF assms])
  then have "prepared ty hf (Some (Suc (bh_next h))) None ?h' now cap w3"
    using w1 w2 by (simp add: prepared_def enqueued_def first_job_def)
  then show ?thesis by (rule that [OF w1(1) w2(1) w2(4) w3(1)]) (simp_all add: bh_alloc_def)
qed

lemma PayloadMutationIsolated_passes:
  assumes env: "punctual J env" "0 \<le> J" "J \<le> 200 * ms"
  shows "dt_PayloadMutationIsolated env (refFixture h now) = Some ()"
proof -
  let ?dl = "now + 2000 * ms" and ?ready = "\<lambda>v. ch_buf (tv_texts v) \<noteq> []"
  obtain w1 w2 w3 h' where w: "mustRegister 0 ''d:mut'' HMut (start_world h now 1) = Some w1"
    "literal ''orig'' (runWorker 0 w1) = (Some (bh_next h), w2)" "dw_now w2 = now"
    "mustEnqueue (job_of ''d:mut'' (Some (bh_next h)) None) w2 = Some (\<lparr>ji_ID = ''job-1''\<rparr>, w3)"
    "prepared ''d:mut'' HMut (Some (Suc (bh_next h))) None h' now 1 w3" "bh_at h' (Suc (bh_next h)) = ''orig''" "bh_next h' = Suc (Suc (bh_next h))"
    by (rule prepare_payload [OF list.distinct(2)])
  let ?b = "Some (Suc (bh_next h))" and ?c = "Some (bh_next h')" and ?v1 = "(new_vars 1)\<lparr>tv_attempts := 1\<rparr>"
  let ?h1 = "snd (bh_alloc ''orig'' h')"
  have c1: "append_nil ?b h' = (?c, ?h1)" by (rule append_nil_copy(1) [OF w(6)]) simp
  let ?h2 = "scribble ?c ?h1"
  obtain w4 t where w4: "await env 0 ?dl ?ready w3 = await env 0 ?dl ?ready w4"
    "delivered (Return (Some transient)) t ?h2 ?v1 0 ''job-1'' (first_job ''d:mut'' ?b None) HMut w3 w4"
    "t \<le> now + (10 * ms + J) + J"
    by (rule prepared_delivers [OF env(1,2) w(5), where ready = ?ready and deadline = ?dl and b' = ?c and ?h1.0 = ?h1
          and r = "Return (Some transient)" and ?h2.0 = ?h2 and v = "\<lambda>_. ?v1"])
      (use env c1 in \<open>auto simp: ms_def task_of_def\<close>)
  have orig: "bh_at ?h2 (Suc (bh_next h)) = ''orig''" "bh_next ?h2 = Suc (bh_next h')"
    using w(6,7) by (simp_all add: scribble_other bh_alloc_def)
  let ?d = "Some (bh_next ?h2)" and ?h3 = "snd (bh_alloc ''orig'' ?h2)"
  have c2: "append_nil ?b ?h2 = (?d, ?h3)" "bytes_of ?d ?h3 = ''orig''" by (simp_all only: append_nil_copy [OF orig(1) list.distinct(2)])
  let ?v2 = "?v1\<lparr>tv_attempts := 2, tv_texts := \<lparr>ch_buf = [''orig''], ch_cap = 1, ch_closed = False\<rparr>\<rparr>"
  obtain w5 where w5: "await env 0 ?dl ?ready w4 = await env 0 ?dl ?ready w5" "dw_vars w5 = ?v2"
    by (rule redelivered [OF env(1,2) w4(2), where ready = ?ready and deadline = ?dl and b' = ?d and ?h1.0 = ?h3
          and r = "Return None" and ?h2.0 = ?h3 and ?v2.0 = "\<lambda>_. ?v2"])
      (use env w(5) w4(3) c2 in \<open>auto simp: ms_def first_job_def prepared_def chan_send_def make_chan_def task_of_def simp del: bytes_of_simps\<close>)
  have "await env 0 ?dl ?ready w3 = (True, w5)" using w4(1) w5 by (simp add: await_ready)
  moreover have "dw_now w3 = now" using w(5) by (simp add: prepared_def)
  ultimately show ?thesis using w(1,2,4) w5(2) ref_shutdown [OF env]
    by (simp add: dt_PayloadMutationIsolated_def)
qed

lemma job_2: "''job-'' @ fmt_d (sint (1 + 1 :: i64)) = ''job-2''"
proof -
  have "fmt_d 2 = ''2''" by code_simp
  then show ?thesis by simp
qed

lemma ExactTypeDispatchNoPrefix_passes:
  assumes env: "punctual J env" "0 \<le> J" "J \<le> 200 * ms"
  shows "dt_ExactTypeDispatchNoPrefix env (refFixture h now) = Some ()"
proof -
  let ?v = "(new_vars 2)\<lparr>tv_fires := 1, tv_chan := \<lparr>ch_buf = [()], ch_cap = 2, ch_closed = False\<rparr>\<rparr>"
  obtain w1 w2 where w: "mustRegister 0 ''t'' HExact (start_world h now 2) = Some w1" "dw_now w1 = now"
    "mustEnqueue (job_of ''t'' None None) (runWorker 0 w1) = Some (\<lparr>ji_ID = ''job-1''\<rparr>, w2)"
    "prepared ''t'' HExact None None h now 2 w2"
    by (rule prepare [OF list.distinct(2)])
  obtain w3 t where w3: "await env 0 (now + 2000 * ms) signalled w2 = (True, w3)"
    "delivered (Return None) t h ?v 0 ''job-1'' (first_job ''t'' None None) HExact w2 w3" "dw_vars w3 = ?v"
    by (rule one_signal [OF env w(4), where ready = signalled and r = "Return None" and ?h2.0 = h and v = ?v])
      (auto simp: signalled_def send_unit_def chan_send_def make_chan_def)
  let ?w3 = "w3\<lparr>dw_vars := (dw_vars w3)\<lparr>tv_chan := snd (chan_recv (tv_chan (dw_vars w3)))\<rparr>\<rparr>"
  have v3: "dw_vars ?w3 = (new_vars 2)\<lparr>tv_fires := 1, tv_chan := make_chan 2\<rparr>"
    using w3(3) by (simp add: chan_recv_def make_chan_def)
  have seq: "rs_seq (pl_store (dw_pool ?w3)) = 1" using w3(2) w(4) by (simp add: delivered_def prepared_def)
  have "append_nil None (dw_heap ?w3) = (None, dw_heap ?w3)" by simp
  moreover have "''job-2'' = ''job-'' @ fmt_d (sint (rs_seq (pl_store (dw_pool ?w3)) + 1))" using job_2 seq by simp
  ultimately obtain w4 where w4: "mustEnqueue (job_of ''t:x'' None None) ?w3 = Some (\<lparr>ji_ID = ''job-2''\<rparr>, w4)"
    "enqueued ''job-2'' ''t:x'' None None ?w3 w4"
    by (rule mustEnqueue_passes [OF list.distinct(2)])
  have jobs: "dw_jobs w4 jid = Some j \<Longrightarrow> rj_done j \<or> rj_typ j = ''t:x''" for jid j
    using w4(2) w3(2) by (auto simp: enqueued_def delivered_def job_after_def split: if_splits)
  have "rw_handlers (dw_worker w4 0) = [''t'' \<mapsto> HExact]" using w4(2) w3(2) w(4) by (simp add: enqueued_def delivered_def prepared_def)
  then have idle: "idle t 0 w4" for t by (auto simp: idle_def eligible_def refWorker_has_def dest!: jobs)
  have v4: "dw_vars w4 = (new_vars 2)\<lparr>tv_fires := 1, tv_chan := make_chan 2\<rparr>" using w4(2) v3 by (simp add: enqueued_def)
  then obtain k where "await env 0 (dw_now w4 + 2000 * ms) signalled w4 = (False, at_time (dw_now w4 + 2000 * ms) k w4)"
    using await_times_out [OF idle, of signalled "dw_now w4 + 2000 * ms" env] by (auto simp: signalled_def ms_def)
  moreover have "dw_now w2 = now" using w(4) by (simp add: prepared_def)
  ultimately show ?thesis using w(1-3) w3(1) w4(1) v4 ref_shutdown [OF env]
    by (simp add: dt_ExactTypeDispatchNoPrefix_def)
qed

lemma assertRunNil_idle:
  assumes env: "punctual J env" "0 \<le> J" and b: "(10 * ms + J) + J + J \<le> bound" and idle: "idle (dw_now w + tick_gap env w) i w"
  obtains w' where "assertRunNilWithin env i bound w = Some w'" "dw_jobs w' = dw_jobs w" "dw_heap w' = dw_heap w" "dw_vars w' = dw_vars w"
    "dw_now w \<le> dw_now w'" "\<And>k. k \<noteq> i \<Longrightarrow> dw_worker w' k = dw_worker w k"
proof -
  obtain w' where w': "assertRunNilWithin env i bound w = Some w'" using assertRunNil_passes [OF env b] by blast
  have pos: "0 < tick_gap env w" by (simp add: tick_gap_def)
  show ?thesis
    by (rule that [OF w'])
      (use w' pos round_idle [OF idle] in \<open>auto simp: assertRunNilWithin_def Let_def set_now_def pool_return_def require_def
        split: if_splits\<close>)
qed

lemma NewWorkerDeliversAfterStop_passes:
  assumes env: "punctual J env" "0 \<le> J" "J \<le> 200 * ms"
  shows "dt_NewWorkerDeliversAfterStop env (refFixture h now) = Some ()"
proof -
  let ?at = "now + 300 * ms" and ?jid = "''job-1''"
  have "append_nil None (dw_heap (start_world h now 1)) = (None, h)" by simp
  moreover have "?jid = ''job-'' @ fmt_d (sint (rs_seq (pl_store (dw_pool (start_world h now 1))) + 1))" using job_1 by simp
  ultimately obtain w1 where w1: "mustEnqueue (job_of ''r:job'' None (Some ?at)) (start_world h now 1) = Some (\<lparr>ji_ID = ?jid\<rparr>, w1)"
    "enqueued ?jid ''r:job'' None (Some ?at) (start_world h now 1) w1" "dw_heap w1 = h"
    by (rule mustEnqueue_passes [OF list.distinct(2)])
  have w1': "dw_jobs w1 = [?jid \<mapsto> first_job ''r:job'' None (Some ?at)]" "dw_now w1 = now" "dw_vars w1 = new_vars 1"
    "\<And>i. dw_worker w1 i = newRefWorker"
    using w1(2) by (simp_all add: enqueued_def first_job_def)
  obtain w2 where w2: "mustRegister 0 ''r:job'' HNop w1 = Some w2" "dw_jobs w2 = dw_jobs w1" "dw_heap w2 = h" "dw_now w2 = now"
    "dw_vars w2 = new_vars 1" "dw_worker w2 1 = newRefWorker"
    using w1' w1(3) by (simp add: mustRegister_first)
  let ?w3 = "cancel_run 0 (runWorker 0 w2)"
  have w3: "dw_jobs ?w3 = [?jid \<mapsto> first_job ''r:job'' None (Some ?at)]" "dw_heap ?w3 = h" "dw_now ?w3 = now" "dw_vars ?w3 = new_vars 1"
    "dw_worker ?w3 1 = newRefWorker"
    using w2 w1' by (simp_all add: cancel_run_def pool_cancel_def runWorker_def pool_run_def)
  have "dw_now ?w3 + tick_gap env ?w3 < ?at" using punctualD(1) [OF env(1), of ?w3] env(3) w3(3) by (simp add: ms_def)
  then have "idle (dw_now ?w3 + tick_gap env ?w3) 0 ?w3" using w3(1) by (auto simp: idle_def eligible_def first_job_def split: if_splits)
  moreover have "(10 * ms + J) + J + J \<le> 2000 * ms" using env(3) by (simp add: ms_def)
  ultimately obtain w4 where w4: "assertRunNilWithin env 0 (2000 * ms) ?w3 = Some w4" "dw_jobs w4 = dw_jobs ?w3" "dw_heap w4 = dw_heap ?w3"
    "dw_vars w4 = dw_vars ?w3" "dw_now ?w3 \<le> dw_now w4" "\<And>k. k \<noteq> 0 \<Longrightarrow> dw_worker w4 k = dw_worker ?w3 k"
    using assertRunNil_idle [OF env(1,2)] by blast
  then obtain w5 where w5: "mustRegister 1 ''r:job'' HFired w4 = Some w5" "dw_jobs w5 = dw_jobs w4" "dw_heap w5 = h" "dw_now w5 = dw_now w4"
    "dw_vars w5 = new_vars 1" "dw_worker w5 1 = newRefWorker\<lparr>rw_handlers := [''r:job'' \<mapsto> HFired]\<rparr>"
    using w3 by (simp add: mustRegister_first)
  let ?w6 = "runWorker 1 w5" and ?v = "(new_vars 1)\<lparr>tv_chan := \<lparr>ch_buf = [()], ch_cap = 1, ch_closed = False\<rparr>\<rparr>"
  let ?dl = "dw_now ?w6 + (300 * ms + 2000 * ms)"
  have w6: "dw_jobs ?w6 = [?jid \<mapsto> first_job ''r:job'' None (Some ?at)]" using w5(2) w4(2) w3(1) by simp
  have fj: "rj_id (first_job ''r:job'' None (Some ?at)) = ?jid" "\<not> rj_done (first_job ''r:job'' None (Some ?at))"
    "\<not> rj_claimed (first_job ''r:job'' None (Some ?at))" by (simp_all add: first_job_def)
  have le: "now \<le> dw_now w5" using w5(4) w4(5) w3(3) by simp
  obtain w7 t where w7: "await env 1 ?dl signalled ?w6 = await env 1 ?dl signalled w7"
    "delivered (Return None) t h ?v 1 ?jid (first_job ''r:job'' None (Some ?at)) HFired ?w6 w7"
    by (rule await_delivers [OF env(1,2) w6 fj, where i = 1 and hf = HFired and b = None and ?h1.0 = h and ready = signalled
          and r = "Return None" and ?h2.0 = h and v = "\<lambda>_. ?v" and deadline = ?dl and a = ?at])
      (use w5 w3 env le in \<open>auto simp: first_job_def signalled_def send_unit_def chan_send_def make_chan_def ms_def\<close>)
  then have "await env 1 ?dl signalled ?w6 = (True, w7)" by (simp add: await_ready delivered_def signalled_def)
  then show ?thesis using w1 w2(1) w4(1) w5(1) ref_shutdown [OF env]
    by (simp add: dt_NewWorkerDeliversAfterStop_def)
qed

section \<open>Timed runs are runs of the pool\<close>

text \<open>
  A round of the timed model is a path of the step relation of \<open>Job_Queue\<close>, so what is proved there for
  every interleaving holds for the runs of the suite.
\<close>

lemma handle_heap:
  "handle hf task t c h v = (r, h', v') \<Longrightarrow> h' = h \<or> h' = scribble (tk_Payload task) h"
  by (cases hf) (auto simp: Let_def split: if_splits option.splits prod.splits handled.splits)

lemma scribble_steps:
  assumes "set_option r \<subseteq> pl_known p"
  shows "pool_steps p (p\<lparr>pl_heap := scribble r (pl_heap p)\<rparr>)"
proof (cases r)
  case (Some a)
  have "pool_steps p (p\<lparr>pl_heap := fold (\<lambda>i h. bh_set a i (CHR ''X'') h) is (pl_heap p)\<rparr>)" for "is"
  proof (induction "is" rule: rev_induct)
    case (snoc i "is")
    let ?p = "p\<lparr>pl_heap := fold (\<lambda>i h. bh_set a i (CHR ''X'') h) is (pl_heap p)\<rparr>"
    have "pool_step ?p (?p\<lparr>pl_heap := bh_set a i (CHR ''X'') (pl_heap ?p)\<rparr>)" using assms Some by (intro overwrite) simp
    with snoc show ?case by (auto intro: rtranclp.rtrancl_into_rtrancl)
  qed simp
  then show ?thesis by (simp add: Some scribble_def)
qed (simp add: scribble_def)

lemma set_now_steps: "pool_steps (dw_pool w) (dw_pool (set_now (dw_now w + int d) w))"
  using wait [of "dw_pool w" d] by (simp add: set_now_def r_into_rtranclp)

text \<open>The claim at the end of the flight list holds a slice the handler knows.\<close>

lemma run_handler_steps:
  assumes fl: "dw_flight w = fl @ [(i, c, hf)]" and known: "set_option (cl_payload c) \<subseteq> pl_known (dw_pool w)"
  shows "pool_steps (dw_pool w) (dw_pool (run_handler env (length fl) w))"
proof -
  define w1 where "w1 = set_now (dw_now w + int (de_dur env (dw_k w))) w"
  let ?task = "\<lparr>tk_ID = cl_id c, tk_Type = cl_typ c, tk_Payload = cl_payload c\<rparr>"
  obtain r h v where r: "handle hf ?task (dw_now w1) (rw_cancelled (dw_worker w1 i)) (dw_heap w1) (dw_vars w1) = (r, h, v)"
    by (metis surj_pair)
  let ?p = "(dw_pool w1)\<lparr>pl_heap := h\<rparr>"
  have w1: "dw_flight w1 = fl @ [(i, c, hf)]" "pl_known (dw_pool w1) = pl_known (dw_pool w)" using fl by (simp_all add: w1_def set_now_def)
  have s1: "pool_steps (dw_pool w) (dw_pool w1)" unfolding w1_def by (rule set_now_steps)
  have s2: "pool_steps (dw_pool w1) ?p"
    using handle_heap [OF r] scribble_steps [of "cl_payload c" "dw_pool w1"] known w1(2) by auto
  have rh: "dw_pool (run_handler env (length fl) w) = (case r of Return err \<Rightarrow> pool_handled (length fl) err ?p | _ \<Rightarrow> ?p)"
    using r w1(1) unfolding run_handler_def w1_def [symmetric] by (simp add: Let_def split: handled.split)
  show ?thesis
  proof (cases r)
    case (Return err)
    have "pool_step ?p (pool_handled (length fl) err ?p)" using w1(1) by (intro handled) simp
    with s1 s2 Return show ?thesis by (simp add: rh)
  qed (use s1 s2 in \<open>simp_all add: rh\<close>)
qed

lemma worker_round_steps:
  assumes env: "punctual J env" and w: "rw_phase (dw_worker w i) = InLoop" "finite (dom (dw_jobs w))"
  shows "pool_steps (dw_pool w) (dw_pool (worker_round env i w))"
proof -
  define w1 where "w1 = at_time (dw_now w + tick_gap env w) (Suc (dw_k w)) w"
  let ?order = "de_order env (dw_k w1) (pl_store (dw_pool w1))"
  define p where "p = pool_tick i ?order (dw_pool w1)"
  have w1: "rw_phase (dw_worker w1 i) = InLoop" "dom (dw_jobs w1) = dom (dw_jobs w)" using w(1) by (simp_all add: w1_def)
  have s1: "pool_steps (dw_pool w) (dw_pool w1)"
    using set_now_steps [of w "Suc (de_gap env (dw_k w))"] by (simp add: w1_def at_time_def tick_gap_def)
  have "distinct ?order \<and> set ?order = dom (dw_jobs w1)" using punctualD(4) [OF env] w(2) w1(2) by simp
  then have s2: "pool_step (dw_pool w1) p" unfolding p_def using w1(1) by (intro tick) simp_all
  have round: "worker_round env i w = (if pl_flight p = dw_flight w1 then w1\<lparr>dw_pool := p\<rparr>
      else run_handler env (length (dw_flight w1)) (w1\<lparr>dw_pool := p\<rparr>))"
    unfolding worker_round_def Let_def at_time_def [symmetric] w1_def [symmetric] p_def [symmetric] ..
  show ?thesis
  proof (cases "pl_flight p = dw_flight w1")
    case True
    with s1 s2 show ?thesis by (simp add: round rtranclp.rtrancl_into_rtrancl)
  next
    case False
    then obtain c hf where "pl_flight p = dw_flight w1 @ [(i, c, hf)]" "set_option (cl_payload c) \<subseteq> pl_known p"
      by (auto simp: p_def pool_tick_def Let_def split: prod.splits option.splits)
    then have "pool_steps p (dw_pool (run_handler env (length (dw_flight w1)) (w1\<lparr>dw_pool := p\<rparr>)))"
      using run_handler_steps [of "w1\<lparr>dw_pool := p\<rparr>" "dw_flight w1" i c hf env] by simp
    with s1 s2 False show ?thesis by (simp add: round)
  qed
qed

lemma pool_tick_frame:
  "dom (rs_jobs (pl_store (pool_tick i order p))) = dom (rs_jobs (pl_store p)) \<and> pl_workers (pool_tick i order p) = pl_workers p"
proof -
  obtain c s h where scan: "claim_scan order (pl_now p) (refWorker_has (pl_workers p i)) (pl_store p, pl_heap p) = (c, s, h)"
    by (metis surj_pair)
  have "dom (rs_jobs s) = dom (rs_jobs (pl_store p))" using claim_scan_cases [OF scan] by (auto split: if_splits)
  then show ?thesis by (simp add: pool_tick_def refStore_claim_def scan Let_def split: option.split)
qed

lemma pool_handled_frame:
  "dom (rs_jobs (pl_store (pool_handled g err p))) = dom (rs_jobs (pl_store p)) \<and> pl_workers (pool_handled g err p) = pl_workers p"
  by (auto simp: pool_handled_def refStore_complete_def refStore_retry_def Let_def split: prod.split option.split)

lemma worker_round_frame:
  "dom (dw_jobs (worker_round env i w)) = dom (dw_jobs w) \<and> dw_worker (worker_round env i w) = dw_worker w"
proof -
  have rh: "dom (dw_jobs (run_handler env g w)) = dom (dw_jobs w) \<and> dw_worker (run_handler env g w) = dw_worker w" for g w
    by (simp add: run_handler_def set_now_def Let_def pool_handled_frame split: prod.split handled.split)
  show ?thesis unfolding worker_round_def by (simp add: Let_def set_now_def pool_tick_frame rh)
qed

text \<open>
  The waits of the delivery suite are runs of the queue: whatever happens in the model of the pool
  while a subtest waits for a channel or its timer is a path of the step relation, so every
  statement about all interleavings covers it; and the wait ends no later than its deadline when
  the channel wins.
\<close>

theorem await_refines_pool:
  assumes "punctual J env" "rw_phase (dw_worker w i) = InLoop" "finite (dom (dw_jobs w))" "dw_now w \<le> deadline"
    and "await env i deadline ready w = (won, w')"
  shows "pool_steps (dw_pool w) (dw_pool w') \<and> dw_now w \<le> dw_now w' \<and> (won \<longrightarrow> ready (dw_vars w') \<and> dw_now w' \<le> deadline) \<and>
    (\<not> won \<longrightarrow> deadline \<le> dw_now w')"
  using assms
proof (induction env i deadline ready w rule: await.induct)
  case (1 env i deadline ready w)
  let ?w = "worker_round env i w"
  have steps: "pool_steps (dw_pool w) (dw_pool ?w)" by (rule worker_round_steps [OF 1(2-4)])
  consider (now) "ready (dw_vars w)"
    | (timer) "\<not> ready (dw_vars w)" "deadline < dw_now w + tick_gap env w"
    | (late) "\<not> ready (dw_vars w)" "\<not> deadline < dw_now w + tick_gap env w" "deadline < dw_now ?w"
    | (again) "\<not> ready (dw_vars w)" "\<not> deadline < dw_now w + tick_gap env w" "\<not> deadline < dw_now ?w" by blast
  then show ?case
  proof cases
    case now
    with 1(5,6) show ?thesis by (simp add: await.simps [of env i deadline ready w])
  next
    case timer
    with 1(5,6) have w': "won = False" "w' = set_now deadline w" by (simp_all add: await.simps [of env i deadline ready w] max_def)
    have "pool_steps (dw_pool w) (dw_pool (set_now deadline w))" using set_now_steps [of w "nat (deadline - dw_now w)"] 1(5) by simp
    with w' 1(5) show ?thesis by (simp add: set_now_def)
  next
    case late
    with 1(6) have "won = False" "w' = ?w" by (simp_all add: await.simps [of env i deadline ready w])
    with steps late(3) 1(5) show ?thesis by simp
  next
    case again
    with 1(6) have e: "await env i deadline ready ?w = (won, w')" by (simp add: await.simps [of env i deadline ready w])
    have "pool_steps (dw_pool ?w) (dw_pool w') \<and> dw_now ?w \<le> dw_now w' \<and> (won \<longrightarrow> ready (dw_vars w') \<and> dw_now w' \<le> deadline) \<and>
        (\<not> won \<longrightarrow> deadline \<le> dw_now w')"
      by (rule 1(1) [OF again(1,2) refl again(3) 1(2)]) (use again(3) 1(3,4) e in \<open>simp_all add: worker_round_frame\<close>)
    with steps worker_round_later [of w env i] show ?thesis by (auto intro: rtranclp_trans)
  qed
qed


text \<open>A worker that ticks every microsecond and visits the jobs in the order of their names, and the theorem for it.\<close>

definition steady_env :: dv_env where
  "steady_env = \<lparr>de_gap = (\<lambda>_. 999), de_order = (\<lambda>k s. sorted_list_of_set (dom (rs_jobs s))), de_dur = (\<lambda>_. 1000),
     de_late = (\<lambda>k. k mod 2 = 1), de_ret = (\<lambda>_. 1000), de_rounds = (\<lambda>n. n mod 3)\<rparr>"

lemma steady_env_punctual: "punctual ms steady_env"
  unfolding punctual_def steady_env_def ms_def by simp


theorem await_refines_pool_witness:
  "let w = runWorker 0 (start_world \<lparr>bh_at = (\<lambda>_. []), bh_next = 0\<rparr> 0 1); r = await steady_env 0 (5 * ms) signalled w
   in pool_steps (dw_pool w) (dw_pool (snd r)) \<and> \<not> fst r \<and> 5 * ms \<le> dw_now (snd r)"
proof -
  define w where "w = runWorker 0 (start_world \<lparr>bh_at = (\<lambda>_. []), bh_next = 0\<rparr> 0 1)"
  have w: "dw_jobs w = Map.empty" "dw_now w = 0" "dw_vars w = new_vars 1" by (simp_all add: w_def)
  have phase: "rw_phase (dw_worker w 0) = InLoop" by (simp add: w_def runWorker_def pool_run_def)
  have "idle t 0 w" for t by (simp add: idle_def w)
  then obtain k where r: "await steady_env 0 (5 * ms) signalled w = (False, at_time (5 * ms) k w)"
    using await_times_out [of 0 w signalled "5 * ms" steady_env] by (auto simp: w signalled_def ms_def)
  have "finite (dom (dw_jobs w))" "dw_now w \<le> 5 * ms" by (simp_all add: w ms_def)
  from await_refines_pool [OF steady_env_punctual phase this r] show ?thesis
    unfolding w_def [symmetric] Let_def by (simp add: r)
qed

end
