(* ===== verification/Job_Leases.thy ===== *)
theory Job_Leases
  imports Job_Queue
begin

text \<open>
  The executable specification of the job contract in \<^verbatim>\<open>ports/jobs/jobs_test.go\<close>: \<^verbatim>\<open>fakeStore\<close> and \<^verbatim>\<open>fakeWorker\<close>, a queue
  whose jobs are leased. Its worker leases any eligible job, drains for a bounded time on shutdown
  and leaves a job without a handler to the expiry of its lease; a store may refuse a job, or accept
  it and lose the answer. A fleet of workers over one store is a step relation; the clock of the
  store only moves forward.

  Shown for every reachable fleet: a job is leased again only after a failure or when its lease has
  run out, and never once it was acknowledged; and from every state in which an accepted job is not
  acknowledged, one lease time later any worker in its loop can start it, even if no handler ever
  returns.
\<close>

section \<open>fakeClock and fakeStore\<close>

datatype jobState = statePending | stateActive | stateCompleted

record storedJob =
  sj_id :: string
  sj_typ :: string
  sj_payload :: "nat option"
  sj_processAt :: "int option"
  sj_state :: jobState
  sj_leaseUntil :: "int option"
  sj_attempts :: i64

record jobStore =
  js_clock :: int
  js_leaseTTL :: int
  js_horizon :: int
  js_seq :: i64
  js_jobs :: "string \<Rightarrow> storedJob option"
  js_unavailable :: bool
  js_acceptButFail :: bool

definition newJobStore :: jobStore where
  "newJobStore =
     \<lparr>js_clock = 1000000 * 1000000000, js_leaseTTL = 60 * 1000000000, js_horizon = 0, js_seq = 0, js_jobs = Map.empty,
      js_unavailable = False, js_acceptButFail = False\<rparr>"

definition fakeClock_Advance :: "int \<Rightarrow> jobStore \<Rightarrow> jobStore" where
  "fakeClock_Advance d s = s\<lparr>js_clock := js_clock s + d\<rparr>"

definition jobStore_Enqueue :: "gocontext \<Rightarrow> Job \<Rightarrow> jobStore \<times> bheap \<Rightarrow> JobInfo \<times> goerr option \<times> jobStore \<times> bheap" where
  "jobStore_Enqueue ctx job sh =
     (case sh of (s, h) \<Rightarrow>
        if jb_Type job = [] then (zero_JobInfo, Some (err_of (New CodeInvalidArgument ''jobs: empty job type'')), s, h)
        else if js_horizon s > 0 \<and> (case jb_ProcessAt job of None \<Rightarrow> False | Some t \<Rightarrow> t > js_clock s + js_horizon s) then
          (zero_JobInfo, Some (err_of (New CodeInvalidArgument ''jobs: ProcessAt beyond scheduling horizon'')), s, h)
        else
          (let (payload, h) = append_nil (jb_Payload job) h
           in case ctx_Err ctx of
                Some e \<Rightarrow> (zero_JobInfo, Some e, s, h)
              | None \<Rightarrow>
                  if js_unavailable s then
                    (zero_JobInfo, Some (err_of (New CodeUnavailable ''jobs: backend unavailable'')), s, h)
                  else
                    (let n = js_seq s + 1;
                         jid = fmt_d (sint n);
                         s = s\<lparr>js_seq := n, js_jobs := (js_jobs s)(jid \<mapsto>
                           \<lparr>sj_id = jid, sj_typ = jb_Type job, sj_payload = payload, sj_processAt = jb_ProcessAt job,
                            sj_state = statePending, sj_leaseUntil = None, sj_attempts = 0\<rparr>)\<rparr>
                     in if js_acceptButFail s then
                          (zero_JobInfo, Some (err_of (New CodeUnavailable ''jobs: backend accepted but the enqueue ack was lost'')), s, h)
                        else (\<lparr>ji_ID = jid\<rparr>, None, s, h))))"

text \<open>The first loop of \<^verbatim>\<open>dequeue\<close> treats each job on its own; the zero lease time lies before every clock.\<close>

definition reclaim :: "int \<Rightarrow> storedJob \<Rightarrow> storedJob" where
  "reclaim now j =
     (if sj_state j = stateActive \<and> (case sj_leaseUntil j of None \<Rightarrow> True | Some t \<Rightarrow> now > t)
      then j\<lparr>sj_state := statePending\<rparr> else j)"

definition ready :: "int \<Rightarrow> storedJob \<Rightarrow> bool" where
  "ready now j \<longleftrightarrow> sj_state j = statePending \<and> (case sj_processAt j of None \<Rightarrow> True | Some t \<Rightarrow> \<not> t > now)"

definition lease_out :: "int \<Rightarrow> int \<Rightarrow> storedJob \<Rightarrow> storedJob" where
  "lease_out now ttl j = j\<lparr>sj_state := stateActive, sj_leaseUntil := Some (now + ttl), sj_attempts := sj_attempts j + 1\<rparr>"

fun dequeue_scan :: "string list \<Rightarrow> int \<Rightarrow> jobStore \<Rightarrow> storedJob option \<times> jobStore" where
  "dequeue_scan [] now s = (None, s)"
| "dequeue_scan (i # order) now s =
     (case js_jobs s i of
        None \<Rightarrow> dequeue_scan order now s
      | Some j \<Rightarrow>
          if ready now j then
            (let j = lease_out now (js_leaseTTL s) j in (Some j, s\<lparr>js_jobs := (js_jobs s)(i \<mapsto> j)\<rparr>))
          else dequeue_scan order now s)"

text \<open>
  \<open>order\<close> is the order in which the runtime ranges over the map. The job is returned as a value: the
  fields the worker reads through the pointer are never written again.
\<close>

definition jobStore_dequeue :: "string list \<Rightarrow> jobStore \<Rightarrow> storedJob option \<times> jobStore" where
  "jobStore_dequeue order s =
     (let now = js_clock s; s = s\<lparr>js_jobs := (\<lambda>i. map_option (reclaim now) (js_jobs s i))\<rparr> in dequeue_scan order now s)"

definition jobStore_complete :: "string \<Rightarrow> jobStore \<Rightarrow> jobStore" where
  "jobStore_complete jid s =
     (case js_jobs s jid of None \<Rightarrow> s | Some j \<Rightarrow> s\<lparr>js_jobs := (js_jobs s)(jid \<mapsto> j\<lparr>sj_state := stateCompleted\<rparr>)\<rparr>)"

definition jobStore_requeue :: "string \<Rightarrow> jobStore \<Rightarrow> jobStore" where
  "jobStore_requeue jid s =
     (case js_jobs s jid of
        None \<Rightarrow> s
      | Some j \<Rightarrow> if sj_state j = stateActive then s\<lparr>js_jobs := (js_jobs s)(jid \<mapsto> j\<lparr>sj_state := statePending\<rparr>)\<rparr> else s)"

definition jobStore_stateOf :: "string \<Rightarrow> jobStore \<Rightarrow> jobState \<times> bool" where
  "jobStore_stateOf jid s = (case js_jobs s jid of None \<Rightarrow> (statePending, False) | Some j \<Rightarrow> (sj_state j, True))"

definition jobStore_setUnavailable :: "bool \<Rightarrow> jobStore \<Rightarrow> jobStore" where
  "jobStore_setUnavailable v s = s\<lparr>js_unavailable := v\<rparr>"

section \<open>fakeWorker\<close>

text \<open>
  Where \<^verbatim>\<open>Run\<close> is: not called, at its \<^verbatim>\<open>select\<close>, past it and about to dequeue, waiting for its handlers
  after a cancellation, or returned.
\<close>

datatype worker_phase = Idle | AtSelect | Dequeuing | Draining | Over "goerr option"

record 'h jobWorker =
  jw_fatalStartup :: "goerr option"
  jw_teardownFail :: bool
  jw_dequeueDisabled :: bool
  jw_handlers :: "string \<Rightarrow> 'h option"
  jw_teardownErrs :: "string list"
  jw_phase :: worker_phase
  jw_cancelled :: bool
  jw_hctxDone :: bool

definition newJobWorker :: "'h jobWorker" where
  "newJobWorker =
     \<lparr>jw_fatalStartup = None, jw_teardownFail = False, jw_dequeueDisabled = False, jw_handlers = Map.empty, jw_teardownErrs = [],
      jw_phase = Idle, jw_cancelled = False, jw_hctxDone = False\<rparr>"

definition jobWorker_Register :: "string \<Rightarrow> 'h option \<Rightarrow> 'h jobWorker \<Rightarrow> goerr option \<times> 'h jobWorker" where
  "jobWorker_Register jobType h w =
     (if jobType = [] then (Some (err_of (New CodeInvalidArgument ''jobs: empty job type'')), w)
      else
        (case h of
           None \<Rightarrow> (Some (err_of (New CodeInvalidArgument ''jobs: nil handler'')), w)
         | Some hf \<Rightarrow>
             if jw_handlers w jobType \<noteq> None then
               (Some (err_of (New CodeAlreadyExists (''jobs: handler already registered for type '' @ jobType))), w)
             else (None, w\<lparr>jw_handlers := (jw_handlers w)(jobType \<mapsto> hf)\<rparr>)))"

text \<open>The entry of \<^verbatim>\<open>Run\<close>, its \<^verbatim>\<open>select\<close>, and the end of the drain, whichever of its two cases ends it.\<close>

definition run_enter :: "'h jobWorker \<Rightarrow> 'h jobWorker" where
  "run_enter w =
     (if jw_cancelled w then w\<lparr>jw_phase := Over None\<rparr>
      else case jw_fatalStartup w of Some e \<Rightarrow> w\<lparr>jw_phase := Over (Some e)\<rparr> | None \<Rightarrow> w\<lparr>jw_phase := AtSelect\<rparr>)"

definition run_select :: "'h jobWorker \<Rightarrow> 'h jobWorker" where
  "run_select w = (if jw_cancelled w then w\<lparr>jw_phase := Draining, jw_hctxDone := True\<rparr> else w\<lparr>jw_phase := Dequeuing\<rparr>)"

definition run_return :: "'h jobWorker \<Rightarrow> 'h jobWorker" where
  "run_return w =
     (let w = (if jw_teardownFail w
               then w\<lparr>jw_teardownErrs := jw_teardownErrs w @ [''teardown: backend error during requeue'']\<rparr> else w)
      in w\<lparr>jw_phase := Over None\<rparr>)"

section \<open>A fleet of workers\<close>

text \<open>
  What is observed: a job enters the store with its bytes at the time of the call, a worker leases
  it, its handler starts with the bytes of the task, and returns nil or an error.
\<close>

datatype lease_event =
    Stored string string string "int option"
  | Leased nat string int
  | Began nat string string string int
  | Done nat string
  | Broke nat string

text \<open>A goroutine of a worker: before its handler was looked up, and inside the handler.\<close>

datatype 'h stage = Spawned | Handling 'h Task

record 'h fleet =
  fl_store :: jobStore
  fl_heap :: bheap
  fl_known :: "nat set"
  fl_workers :: "nat \<Rightarrow> 'h jobWorker"
  fl_flight :: "(nat \<times> storedJob \<times> 'h stage) list"
  fl_log :: "lease_event list"

abbreviation fl_now :: "'h fleet \<Rightarrow> int" where "fl_now p \<equiv> js_clock (fl_store p)"

definition newFleet :: "bheap \<Rightarrow> 'h fleet" where
  "newFleet h =
     \<lparr>fl_store = newJobStore, fl_heap = h, fl_known = {..<bh_next h}, fl_workers = (\<lambda>_. newJobWorker), fl_flight = [], fl_log = []\<rparr>"

definition fleet_enqueue :: "gocontext \<Rightarrow> Job \<Rightarrow> 'h fleet \<Rightarrow> 'h fleet" where
  "fleet_enqueue ctx job p =
     (let (info, err, s, h) = jobStore_Enqueue ctx job (fl_store p, fl_heap p)
      in p\<lparr>fl_store := s, fl_heap := h,
           fl_log := fl_log p @ (if js_seq s = js_seq (fl_store p) then []
             else [Stored (fmt_d (sint (js_seq s))) (jb_Type job) (bytes_of (jb_Payload job) (fl_heap p)) (jb_ProcessAt job)])\<rparr>)"

definition fleet_worker :: "nat \<Rightarrow> ('h jobWorker \<Rightarrow> 'h jobWorker) \<Rightarrow> 'h fleet \<Rightarrow> 'h fleet" where
  "fleet_worker i f p = p\<lparr>fl_workers := (fl_workers p)(i := f (fl_workers p i))\<rparr>"

text \<open>One round of the loop after its \<^verbatim>\<open>select\<close>.\<close>

definition fleet_dequeue :: "nat \<Rightarrow> string list \<Rightarrow> 'h fleet \<Rightarrow> 'h fleet" where
  "fleet_dequeue i order p =
     (let (j, s) = (if jw_dequeueDisabled (fl_workers p i) then (None, fl_store p) else jobStore_dequeue order (fl_store p));
          p = fleet_worker i (\<lambda>w. w\<lparr>jw_phase := AtSelect\<rparr>) (p\<lparr>fl_store := s\<rparr>)
      in case j of
           None \<Rightarrow> p
         | Some j \<Rightarrow> p\<lparr>fl_flight := fl_flight p @ [(i, j, Spawned)], fl_log := fl_log p @ [Leased i (sj_id j) (fl_now p)]\<rparr>)"

definition without :: "nat \<Rightarrow> 'a list \<Rightarrow> 'a list" where
  "without g xs = take g xs @ drop (Suc g) xs"

text \<open>The goroutine looks up its handler; without one it ends and leaves the job leased.\<close>

definition fleet_begin :: "nat \<Rightarrow> 'h fleet \<Rightarrow> 'h fleet" where
  "fleet_begin g p =
     (let (i, j, st) = fl_flight p ! g
      in case jw_handlers (fl_workers p i) (sj_typ j) of
           None \<Rightarrow> p\<lparr>fl_flight := without g (fl_flight p)\<rparr>
         | Some hf \<Rightarrow>
             (let (payload, h) = append_nil (sj_payload j) (fl_heap p);
                  task = \<lparr>tk_ID = sj_id j, tk_Type = sj_typ j, tk_Payload = payload\<rparr>
              in p\<lparr>fl_heap := h, fl_known := fl_known p \<union> set_option payload,
                   fl_flight := (fl_flight p)[g := (i, j, Handling hf task)],
                   fl_log := fl_log p @ [Began i (tk_ID task) (tk_Type task) (bytes_of (tk_Payload task) h) (fl_now p)]\<rparr>))"

definition fleet_handled :: "nat \<Rightarrow> goerr option \<Rightarrow> 'h fleet \<Rightarrow> 'h fleet" where
  "fleet_handled g err p =
     (let (i, j, st) = fl_flight p ! g; p = p\<lparr>fl_flight := without g (fl_flight p)\<rparr>
      in case err of
           Some e \<Rightarrow> p\<lparr>fl_store := jobStore_requeue (sj_id j) (fl_store p), fl_log := fl_log p @ [Broke i (sj_id j)]\<rparr>
         | None \<Rightarrow> p\<lparr>fl_store := jobStore_complete (sj_id j) (fl_store p), fl_log := fl_log p @ [Done i (sj_id j)]\<rparr>)"

text \<open>
  The steps: callers enqueue, wire and configure workers, cancel, advance the clock and switch
  faults on and off; workers move through \<^verbatim>\<open>Run\<close>; goroutines begin and finish; code outside the store
  builds slices and overwrites those it holds.
\<close>

inductive fleet_step :: "'h fleet \<Rightarrow> 'h fleet \<Rightarrow> bool" where
  enqueue: "set_option (jb_Payload job) \<subseteq> fl_known p \<Longrightarrow> fleet_step p (fleet_enqueue ctx job p)"
| register: "fleet_step p (fleet_worker i (\<lambda>w. snd (jobWorker_Register jobType h w)) p)"
| configure: "jw_phase (fl_workers p i) = Idle \<Longrightarrow>
    fleet_step p (fleet_worker i (\<lambda>w. w\<lparr>jw_fatalStartup := fatal, jw_teardownFail := tf, jw_dequeueDisabled := dd\<rparr>) p)"
| run: "jw_phase (fl_workers p i) = Idle \<Longrightarrow> fleet_step p (fleet_worker i run_enter p)"
| cancel: "fleet_step p (fleet_worker i (\<lambda>w. w\<lparr>jw_cancelled := True\<rparr>) p)"
| select: "jw_phase (fl_workers p i) = AtSelect \<Longrightarrow> fleet_step p (fleet_worker i run_select p)"
| dequeue: "jw_phase (fl_workers p i) = Dequeuing \<Longrightarrow> distinct order \<Longrightarrow> set order = dom (js_jobs (fl_store p)) \<Longrightarrow>
    fleet_step p (fleet_dequeue i order p)"
| return: "jw_phase (fl_workers p i) = Draining \<Longrightarrow> fleet_step p (fleet_worker i run_return p)"
| start: "g < length (fl_flight p) \<Longrightarrow> snd (snd (fl_flight p ! g)) = Spawned \<Longrightarrow> fleet_step p (fleet_begin g p)"
| handled: "g < length (fl_flight p) \<Longrightarrow> snd (snd (fl_flight p ! g)) \<noteq> Spawned \<Longrightarrow> fleet_step p (fleet_handled g err p)"
| advance: "fleet_step p (p\<lparr>fl_store := fakeClock_Advance (int d) (fl_store p)\<rparr>)"
| available: "fleet_step p (p\<lparr>fl_store := jobStore_setUnavailable v (fl_store p)\<rparr>)"
| faults: "fleet_step p (p\<lparr>fl_store := (fl_store p)\<lparr>js_acceptButFail := v, js_horizon := hz\<rparr>\<rparr>)"
| build: "fleet_step p (p\<lparr>fl_heap := snd (bh_alloc bs (fl_heap p)), fl_known := insert (bh_next (fl_heap p)) (fl_known p)\<rparr>)"
| overwrite: "a \<in> fl_known p \<Longrightarrow> fleet_step p (p\<lparr>fl_heap := bh_set a i x (fl_heap p)\<rparr>)"

abbreviation fleet_steps :: "'h fleet \<Rightarrow> 'h fleet \<Rightarrow> bool" where
  "fleet_steps \<equiv> fleet_step\<^sup>*\<^sup>*"

section \<open>The ledger of leases\<close>

text \<open>What is known of a job: its type, bytes and earliest time, and whether it is free, leased since some time or done.\<close>

datatype lease = Free | Held int | Closed_out

type_synonym ledger = "string \<Rightarrow> (string \<times> string \<times> int option \<times> lease) option"

definition free_at :: "int \<Rightarrow> int \<Rightarrow> lease \<Rightarrow> bool" where
  "free_at ttl t l \<longleftrightarrow> (case l of Free \<Rightarrow> True | Held u \<Rightarrow> u + ttl < t | Closed_out \<Rightarrow> False)"

fun ledger_allows :: "int \<Rightarrow> ledger \<Rightarrow> lease_event \<Rightarrow> bool" where
  "ledger_allows ttl m (Stored jid ty bs at) \<longleftrightarrow> m jid = None"
| "ledger_allows ttl m (Leased i jid t) \<longleftrightarrow> (case m jid of None \<Rightarrow> False | Some (ty, bs, at, l) \<Rightarrow> due at t \<and> free_at ttl t l)"
| "ledger_allows ttl m (Began i jid ty bs t) \<longleftrightarrow> (case m jid of None \<Rightarrow> False | Some (ty', bs', at, l) \<Rightarrow> ty' = ty \<and> bs' = bs)"
| "ledger_allows ttl m (Done i jid) \<longleftrightarrow> m jid \<noteq> None"
| "ledger_allows ttl m (Broke i jid) \<longleftrightarrow> m jid \<noteq> None"

definition relet :: "lease \<Rightarrow> (string \<times> string \<times> int option \<times> lease) \<Rightarrow> (string \<times> string \<times> int option \<times> lease)" where
  "relet l x = (case x of (ty, bs, at, _) \<Rightarrow> (ty, bs, at, l))"

fun ledger_next :: "lease_event \<Rightarrow> ledger \<Rightarrow> ledger" where
  "ledger_next (Stored jid ty bs at) m = m(jid \<mapsto> (ty, bs, at, Free))"
| "ledger_next (Leased i jid t) m = m(jid := map_option (relet (Held t)) (m jid))"
| "ledger_next (Began i jid ty bs t) m = m"
| "ledger_next (Done i jid) m = m(jid := map_option (relet Closed_out) (m jid))"
| "ledger_next (Broke i jid) m =
     m(jid := map_option (\<lambda>x. case x of (ty, bs, at, Held u) \<Rightarrow> (ty, bs, at, Free) | _ \<Rightarrow> x) (m jid))"

fun ledger_accepts :: "int \<Rightarrow> ledger \<Rightarrow> lease_event list \<Rightarrow> bool" where
  "ledger_accepts ttl m [] \<longleftrightarrow> True"
| "ledger_accepts ttl m (e # es) \<longleftrightarrow> ledger_allows ttl m e \<and> ledger_accepts ttl (ledger_next e m) es"

lemma ledger_accepts_append:
  "ledger_accepts ttl m (es @ es') \<longleftrightarrow> ledger_accepts ttl m es \<and> ledger_accepts ttl (fold ledger_next es m) es'"
  by (induction es arbitrary: m) auto

section \<open>The invariant of a fleet\<close>

definition lease_time :: int where "lease_time = 60 * 1000000000"

text \<open>A stored job and its entry in the ledger.\<close>

definition lease_of :: "int \<Rightarrow> storedJob \<Rightarrow> lease \<Rightarrow> bool" where
  "lease_of now j l \<longleftrightarrow>
     (case sj_state j of
        statePending \<Rightarrow> free_at lease_time now l
      | stateActive \<Rightarrow> \<exists>u\<le>now. l = Held u \<and> sj_leaseUntil j = Some (u + lease_time)
      | stateCompleted \<Rightarrow> l = Closed_out)"

definition entry_ok :: "ledger \<Rightarrow> bheap \<Rightarrow> int \<Rightarrow> string \<Rightarrow> storedJob option \<Rightarrow> bool" where
  "entry_ok m h now jid jo \<longleftrightarrow>
     (case jo of
        None \<Rightarrow> m jid = None
      | Some j \<Rightarrow> sj_id j = jid \<and>
          (\<exists>l. m jid = Some (sj_typ j, bytes_of (sj_payload j) h, sj_processAt j, l) \<and> lease_of now j l))"

definition ledger_of :: "'h fleet \<Rightarrow> ledger" where
  "ledger_of p = fold ledger_next (fl_log p) Map.empty"

definition books_ok :: "'h fleet \<Rightarrow> bool" where
  "books_ok p \<longleftrightarrow> ledger_accepts lease_time Map.empty (fl_log p) \<and>
     (\<forall>jid. entry_ok (ledger_of p) (fl_heap p) (fl_now p) jid (js_jobs (fl_store p) jid))"

text \<open>The parts of a stored job that never change.\<close>

definition same_job :: "storedJob \<Rightarrow> storedJob \<Rightarrow> bool" where
  "same_job j j' \<longleftrightarrow> sj_id j' = sj_id j \<and> sj_typ j' = sj_typ j \<and> sj_payload j' = sj_payload j \<and> sj_processAt j' = sj_processAt j"

definition crew_ok :: "'h fleet \<Rightarrow> bool" where
  "crew_ok p \<longleftrightarrow> (\<forall>(i, j, st)\<in>set (fl_flight p). \<exists>j'. js_jobs (fl_store p) (sj_id j) = Some j' \<and> same_job j j')"

definition stored_count :: "lease_event list \<Rightarrow> nat" where
  "stored_count es = length (filter (\<lambda>e. case e of Stored _ _ _ _ \<Rightarrow> True | _ \<Rightarrow> False) es)"

definition numbers_ok :: "'h fleet \<Rightarrow> bool" where
  "numbers_ok p \<longleftrightarrow> dom (js_jobs (fl_store p)) = dec_digits ` {0<..unat (js_seq (fl_store p))} \<and>
     unat (js_seq (fl_store p)) = stored_count (fl_log p)"

definition payloads :: "jobStore \<Rightarrow> nat set" where
  "payloads s = {a. \<exists>k j. js_jobs s k = Some j \<and> sj_payload j = Some a}"

definition private_ok :: "'h fleet \<Rightarrow> bool" where
  "private_ok p \<longleftrightarrow> fl_known p \<union> payloads (fl_store p) \<subseteq> {..<bh_next (fl_heap p)} \<and> fl_known p \<inter> payloads (fl_store p) = {}"

definition fleet_inv :: "'h fleet \<Rightarrow> bool" where
  "fleet_inv p \<longleftrightarrow> js_leaseTTL (fl_store p) = lease_time \<and> books_ok p \<and> crew_ok p \<and> numbers_ok p \<and> private_ok p"

lemma stored_count_append [simp]: "stored_count (es @ es') = stored_count es + stored_count es'"
  by (simp add: stored_count_def)

lemma stored_count_simps [simp]:
  "stored_count [] = 0" "stored_count [Stored jid ty bs at] = 1" "stored_count [Leased i jid t] = 0"
  "stored_count [Began i jid ty bs t] = 0" "stored_count [Done i jid] = 0" "stored_count [Broke i jid] = 0"
  by (simp_all add: stored_count_def)

lemma lease_of_later: "lease_of now j l \<Longrightarrow> now \<le> now' \<Longrightarrow> lease_of now' j l"
  by (auto simp: lease_of_def free_at_def split: jobState.splits lease.splits)

lemma same_job_refl [simp]: "same_job j j"
  by (simp add: same_job_def)

lemma same_job_trans: "same_job j j' \<Longrightarrow> same_job j' j'' \<Longrightarrow> same_job j j''"
  by (simp add: same_job_def)

text \<open>The heap changes outside the payloads of the store, the store keeps its jobs, and the clock goes on.\<close>

definition evolves :: "'h fleet \<Rightarrow> 'h fleet \<Rightarrow> bool" where
  "evolves p p' \<longleftrightarrow>
     js_leaseTTL (fl_store p') = js_leaseTTL (fl_store p) \<and> js_seq (fl_store p') = js_seq (fl_store p) \<and>
     fl_now p \<le> fl_now p' \<and> stored_count (fl_log p') = stored_count (fl_log p) \<and>
     (\<forall>k. rel_option same_job (js_jobs (fl_store p) k) (js_jobs (fl_store p') k)) \<and>
     bh_next (fl_heap p) \<le> bh_next (fl_heap p') \<and> (\<forall>a\<in>payloads (fl_store p). bh_at (fl_heap p') a = bh_at (fl_heap p) a) \<and>
     fl_known p' \<subseteq> fl_known p \<union> {bh_next (fl_heap p)..<bh_next (fl_heap p')}"

lemma evolves_payloads:
  assumes "\<forall>k. rel_option same_job (js_jobs s k) (js_jobs s' k)"
  shows "payloads s' = payloads s" "dom (js_jobs s') = dom (js_jobs s)"
proof -
  have "(\<exists>j. js_jobs s' k = Some j \<and> sj_payload j = Some a) \<longleftrightarrow> (\<exists>j. js_jobs s k = Some j \<and> sj_payload j = Some a)" for k a
    using spec [OF assms, of k] by (auto simp: option_rel_Some1 option_rel_Some2 same_job_def)
  then show "payloads s' = payloads s" by (auto simp: payloads_def)
  have "js_jobs s' k = None \<longleftrightarrow> js_jobs s k = None" for k using spec [OF assms, of k] by (cases "js_jobs s k"; cases "js_jobs s' k") auto
  then show "dom (js_jobs s') = dom (js_jobs s)" by (simp add: dom_def)
qed

lemma apart_grows:
  fixes n :: nat
  assumes "K \<union> P \<subseteq> {..<n}" "K \<inter> P = {}" "n \<le> n'" "K' \<subseteq> K \<union> {n..<n'}"
  shows "K' \<union> P \<subseteq> {..<n'} \<and> K' \<inter> P = {}"
proof -
  have old: "x < n" if "x \<in> K \<or> x \<in> P" for x using assms(1) that by auto
  have new: "x \<in> K \<or> (n \<le> x \<and> x < n')" if "x \<in> K'" for x using assms(4) that by auto
  have "x < n'" if "x \<in> K' \<or> x \<in> P" for x using that new [of x] old [of x] assms(3) by auto
  moreover have "x \<notin> P" if "x \<in> K'" for x
  proof
    assume "x \<in> P"
    with old [of x] new [OF that] have "x \<in> K" by simp
    with \<open>x \<in> P\<close> assms(2) show False by auto
  qed
  ultimately show ?thesis by auto
qed

lemma evolves_inv:
  assumes "fleet_inv p" "evolves p p'" "books_ok p'" "crew_ok p'"
  shows "fleet_inv p'"
proof -
  have rel: "\<forall>k. rel_option same_job (js_jobs (fl_store p) k) (js_jobs (fl_store p') k)" using assms(2) by (simp add: evolves_def)
  note same = evolves_payloads [OF rel]
  have "private_ok p'"
    unfolding private_ok_def same
    by (rule apart_grows [of "fl_known p" _ "bh_next (fl_heap p)"]) (use assms(1,2) in \<open>simp_all add: fleet_inv_def private_ok_def evolves_def\<close>)
  moreover have "numbers_ok p'" using assms(1,2) by (simp add: fleet_inv_def numbers_ok_def evolves_def same)
  ultimately show ?thesis using assms by (simp add: fleet_inv_def evolves_def)
qed

text \<open>Books after some events: the events are allowed, and every entry is right again.\<close>

lemma books_extend:
  assumes "books_ok p" "fl_log p' = fl_log p @ es" "ledger_accepts lease_time (ledger_of p) es"
    "\<And>jid. entry_ok (fold ledger_next es (ledger_of p)) (fl_heap p') (fl_now p') jid (js_jobs (fl_store p') jid)"
  shows "books_ok p'"
  using assms by (simp add: books_ok_def ledger_of_def ledger_accepts_append)

lemma entry_ok_frame:
  assumes "entry_ok m h now jid jo" "now \<le> now'" "m' jid = m jid"
    "\<And>j a. jo = Some j \<Longrightarrow> sj_payload j = Some a \<Longrightarrow> bh_at h' a = bh_at h a"
  shows "entry_ok m' h' now' jid jo"
proof (cases jo)
  case (Some j)
  with assms(4) have "bytes_of (sj_payload j) h' = bytes_of (sj_payload j) h" by (cases "sj_payload j") auto
  with assms(1-3) Some lease_of_later [of now j _ now'] show ?thesis by (auto simp: entry_ok_def)
qed (use assms in \<open>simp add: entry_ok_def\<close>)

lemma entry_ok_reclaim:
  assumes "entry_ok m h now jid jo"
  shows "entry_ok m h now jid (map_option (reclaim now) jo)"
proof (cases jo)
  case (Some j)
  with assms obtain l where "m jid = Some (sj_typ j, bytes_of (sj_payload j) h, sj_processAt j, l)" "lease_of now j l" "sj_id j = jid"
    by (auto simp: entry_ok_def)
  moreover from this(2) have "lease_of now (reclaim now j) l"
    by (auto simp: reclaim_def lease_of_def free_at_def split: jobState.splits option.splits)
  ultimately show ?thesis by (simp add: Some entry_ok_def reclaim_def)
qed (use assms in simp)

lemma fleet_inv_entry: "fleet_inv p \<Longrightarrow> entry_ok (ledger_of p) (fl_heap p) (fl_now p) jid (js_jobs (fl_store p) jid)"
  by (simp add: fleet_inv_def books_ok_def)

lemma fleet_inv_crew: "fleet_inv p \<Longrightarrow> crew_ok p"
  by (simp add: fleet_inv_def)

lemma payload_in: "js_jobs s k = Some j \<Longrightarrow> sj_payload j = Some a \<Longrightarrow> a \<in> payloads s"
  by (auto simp: payloads_def)

lemma payload_private:
  assumes "fleet_inv p" "js_jobs (fl_store p) k = Some j" "sj_payload j = Some a"
  shows "a < bh_next (fl_heap p)" "a \<notin> fl_known p"
  using assms(1) payload_in [OF assms(2,3)] by (auto simp: fleet_inv_def private_ok_def)

text \<open>Steps without an event that keep the jobs and what is in flight.\<close>

lemma fleet_inv_silent:
  assumes "fleet_inv p" "evolves p p'" "fl_log p' = fl_log p" "js_jobs (fl_store p') = js_jobs (fl_store p)"
    "set (fl_flight p') \<subseteq> set (fl_flight p)"
  shows "fleet_inv p'"
proof (rule evolves_inv [OF assms(1,2)])
  show "books_ok p'"
  proof (rule books_extend [of p _ "[]"])
    show "entry_ok (fold ledger_next [] (ledger_of p)) (fl_heap p') (fl_now p') jid (js_jobs (fl_store p') jid)" for jid
      unfolding assms(4) by (rule entry_ok_frame [OF fleet_inv_entry [OF assms(1)]]) (use assms(2) payload_in in \<open>auto simp: evolves_def\<close>)
  qed (use assms in \<open>simp_all add: fleet_inv_def\<close>)
  show "crew_ok p'" using assms(1,5) by (auto simp: fleet_inv_def crew_ok_def assms(4))
qed

lemma rel_same_refl [simp]: "rel_option same_job x x"
  by (cases x) simp_all

lemma dequeue_scan_cases:
  "dequeue_scan order now s = (jo, s') \<Longrightarrow>
     (jo = None \<and> s' = s \<and> (\<forall>i\<in>set order. \<forall>j. js_jobs s i = Some j \<longrightarrow> \<not> ready now j)) \<or>
     (\<exists>i j. i \<in> set order \<and> js_jobs s i = Some j \<and> ready now j \<and> jo = Some (lease_out now (js_leaseTTL s) j) \<and>
        s' = s\<lparr>js_jobs := (js_jobs s)(i \<mapsto> lease_out now (js_leaseTTL s) j)\<rparr>)"
proof (induction order)
  case (Cons i order)
  show ?case
  proof (cases "\<exists>j. js_jobs s i = Some j \<and> ready now j")
    case True
    then obtain j where "js_jobs s i = Some j" "ready now j" by blast
    with Cons.prems show ?thesis by (intro disjI2 exI [of _ i] exI [of _ j]) (auto simp: Let_def simp del: fun_upd_apply)
  next
    case False
    then have "dequeue_scan order now s = (jo, s')" using Cons.prems by (auto split: option.splits if_splits)
    from Cons.IH [OF this] False show ?thesis by auto
  qed
qed simp

definition new_job :: "string \<Rightarrow> Job \<Rightarrow> nat option \<Rightarrow> storedJob" where
  "new_job jid job payload =
     \<lparr>sj_id = jid, sj_typ = jb_Type job, sj_payload = payload, sj_processAt = jb_ProcessAt job, sj_state = statePending,
      sj_leaseUntil = None, sj_attempts = 0\<rparr>"

text \<open>What \<^verbatim>\<open>Enqueue\<close> can do to the store: nothing, with an error, or one new pending job.\<close>

lemma jobStore_Enqueue_cases:
  assumes "jobStore_Enqueue ctx job (s, h) = (info, err, s', h')"
  shows "(s' = s \<and> grown h h' \<and> err \<noteq> None \<and> info = zero_JobInfo) \<or>
    (\<exists>a. append_nil (jb_Payload job) h = (a, h') \<and>
       s' = s\<lparr>js_seq := js_seq s + 1,
              js_jobs := (js_jobs s)(fmt_d (sint (js_seq s + 1)) \<mapsto> new_job (fmt_d (sint (js_seq s + 1))) job a)\<rparr> \<and>
       (if js_acceptButFail s then err \<noteq> None \<and> info = zero_JobInfo
        else err = None \<and> info = \<lparr>ji_ID = fmt_d (sint (js_seq s + 1))\<rparr>))"
proof -
  obtain a h1 where copy: "append_nil (jb_Payload job) h = (a, h1)" by (cases "append_nil (jb_Payload job) h")
  from append_nil_grown(1) [OF copy] assms show ?thesis
    by (auto simp: jobStore_Enqueue_def copy new_job_def Let_def simp del: fun_upd_apply split: if_splits option.splits)
qed

text \<open>
  The fixed precedence of the errors: a malformed job, then the context, then the backend. The first
  class is decided before anything else is looked at, and nothing is written in all three.
\<close>

definition malformed :: "Job \<Rightarrow> jobStore \<Rightarrow> bool" where
  "malformed job s \<longleftrightarrow> jb_Type job = [] \<or> (js_horizon s > 0 \<and> \<not> due (jb_ProcessAt job) (js_clock s + js_horizon s))"

lemma jobStore_Enqueue_precedence:
  assumes "jobStore_Enqueue ctx job (s, h) = (info, err, s', h')"
  shows "malformed job s \<Longrightarrow> CodeOf err = CodeInvalidArgument \<and> s' = s \<and> h' = h \<and> info = zero_JobInfo"
    "\<not> malformed job s \<Longrightarrow> ctx_Err ctx = Some e \<Longrightarrow> err = Some e \<and> s' = s \<and> info = zero_JobInfo"
    "\<not> malformed job s \<Longrightarrow> ctx_Err ctx = None \<Longrightarrow> js_unavailable s \<Longrightarrow> CodeOf err = CodeUnavailable \<and> s' = s \<and> info = zero_JobInfo"
  using assms
  by (auto simp: jobStore_Enqueue_def malformed_def due_def Let_def split: prod.splits if_splits option.splits)

lemma fleet_inv_enqueue:
  assumes inv: "fleet_inv p" and bound: "stored_count (fl_log (fleet_enqueue ctx job p)) < 2 ^ 63"
  shows "fleet_inv (fleet_enqueue ctx job p)"
proof -
  let ?s = "fl_store p" and ?p = "fleet_enqueue ctx job p" and ?jid = "fmt_d (sint (js_seq (fl_store p) + 1))"
  obtain info err s' h' where enq: "jobStore_Enqueue ctx job (?s, fl_heap p) = (info, err, s', h')"
    by (cases "jobStore_Enqueue ctx job (?s, fl_heap p)")
  consider (refused) "s' = ?s" "grown (fl_heap p) h'"
    | (stored) a where "append_nil (jb_Payload job) (fl_heap p) = (a, h')"
      "s' = ?s\<lparr>js_seq := js_seq ?s + 1, js_jobs := (js_jobs ?s)(?jid \<mapsto> new_job ?jid job a)\<rparr>"
    using jobStore_Enqueue_cases [OF enq] by blast
  then show ?thesis
  proof cases
    case refused
    with inv show ?thesis
      by (intro fleet_inv_silent [OF inv]) (auto simp: fleet_enqueue_def enq evolves_def grown_def fleet_inv_def private_ok_def)
  next
    case (stored a)
    note g = append_nil_grown [OF stored(1)]
    let ?e = "Stored ?jid (jb_Type job) (bytes_of (jb_Payload job) (fl_heap p)) (jb_ProcessAt job)"
    have p': "fl_store ?p = s'" "fl_heap ?p = h'" "fl_known ?p = fl_known p" "fl_flight ?p = fl_flight p" "fl_log ?p = fl_log p @ [?e]"
      by (simp_all add: fleet_enqueue_def enq stored(2))
    have num: "dom (js_jobs ?s) = dec_digits ` {0<..unat (js_seq ?s)}" "unat (js_seq ?s) = stored_count (fl_log p)"
      using inv by (simp_all add: fleet_inv_def numbers_ok_def)
    have "unat (js_seq ?s) < 2 ^ 63 - 1" using bound num(2) by (simp add: p'(5))
    note n = i64_Suc [OF this]
    have jid: "?jid = dec_digits (Suc (unat (js_seq ?s)))" unfolding n(2) fmt_d_int ..
    have new: "js_jobs ?s ?jid = None"
    proof (rule ccontr)
      assume "js_jobs ?s ?jid \<noteq> None"
      then have "?jid \<in> dom (js_jobs ?s)" by (simp only: domIff not_False_eq_True)
      then show False unfolding num(1) jid by (auto dest: dec_digits_inj)
    qed
    have none: "ledger_of p ?jid = None" using fleet_inv_entry [OF inv, of ?jid] by (simp add: new entry_ok_def)
    have upto: "{0<..Suc k} = insert (Suc k) {0<..k}" for k by auto
    have "books_ok ?p"
    proof (rule books_extend [OF _ p'(5)])
      fix jid
      show "entry_ok (fold ledger_next [?e] (ledger_of p)) (fl_heap ?p) (fl_now ?p) jid (js_jobs (fl_store ?p) jid)"
      proof (cases "jid = ?jid")
        case True
        then show ?thesis by (simp add: p' stored(2) entry_ok_def new_job_def lease_of_def free_at_def g(2))
      next
        case False
        have "entry_ok (fold ledger_next [?e] (ledger_of p)) h' (fl_now p) jid (js_jobs ?s jid)"
          by (rule entry_ok_frame [OF fleet_inv_entry [OF inv]])
            (use False g(1) payload_private(1) [OF inv] in \<open>auto simp: grown_def\<close>)
        with False show ?thesis by (simp add: p' stored(2))
      qed
    qed (use inv none in \<open>simp_all add: fleet_inv_def\<close>)
    moreover have "crew_ok ?p"
      using inv new by (fastforce simp: fleet_inv_def crew_ok_def p' stored(2))
    moreover have "numbers_ok ?p" using num n(1) by (simp add: numbers_ok_def p' stored(2) upto jid)
    moreover have "payloads s' \<subseteq> payloads ?s \<union> set_option a"
      by (auto simp: payloads_def stored(2) new_job_def split: if_splits)
    then have "private_ok ?p"
      using inv g(1,3) by (fastforce simp: fleet_inv_def private_ok_def p' grown_def)
    ultimately show ?thesis using inv by (simp add: fleet_inv_def p' stored(2))
  qed
qed

lemma crew_evolves:
  assumes "crew_ok p" "\<forall>k. rel_option same_job (js_jobs (fl_store p) k) (js_jobs (fl_store p') k)"
    "\<And>i j st. (i, j, st) \<in> set (fl_flight p') \<Longrightarrow>
       (\<exists>i st. (i, j, st) \<in> set (fl_flight p)) \<or> js_jobs (fl_store p') (sj_id j) = Some j"
  shows "crew_ok p'"
  unfolding crew_ok_def
proof clarify
  fix i j st
  assume "(i, j, st) \<in> set (fl_flight p')"
  from assms(3) [OF this] show "\<exists>j'. js_jobs (fl_store p') (sj_id j) = Some j' \<and> same_job j j'"
  proof
    assume "\<exists>i st. (i, j, st) \<in> set (fl_flight p)"
    then obtain j1 where "js_jobs (fl_store p) (sj_id j) = Some j1" "same_job j j1" using assms(1) by (auto simp: crew_ok_def)
    with spec [OF assms(2), of "sj_id j"] show ?thesis by (auto simp: option_rel_Some1 intro: same_job_trans)
  qed auto
qed

text \<open>An event about one job, whose record changes with it.\<close>

lemma fleet_inv_event:
  fixes p p' :: "'h fleet"
  assumes inv: "fleet_inv p" and j: "js_jobs (fl_store p) jid = Some j" and same: "same_job j j'"
    and p': "fl_store p' = (fl_store p)\<lparr>js_jobs := (js_jobs (fl_store p))(jid \<mapsto> j')\<rparr>" "fl_heap p' = fl_heap p" "fl_known p' = fl_known p"
    and log: "fl_log p' = fl_log p @ [e]" "stored_count [e] = 0" "ledger_allows lease_time (ledger_of p) e"
    and other: "\<And>k. k \<noteq> jid \<Longrightarrow> ledger_next e (ledger_of p) k = ledger_of p k"
    and own: "entry_ok (ledger_next e (ledger_of p)) (fl_heap p) (fl_now p) jid (Some j')"
    and flight: "\<And>i j st. (i, j, st) \<in> set (fl_flight p') \<Longrightarrow>
      (\<exists>i st. (i, j, st) \<in> set (fl_flight p)) \<or> js_jobs (fl_store p') (sj_id j) = Some j"
  shows "fleet_inv p'"
proof -
  have rel: "\<forall>k. rel_option same_job (js_jobs (fl_store p) k) (js_jobs (fl_store p') k)" using j same by (simp add: p')
  show ?thesis
  proof (rule evolves_inv [OF inv])
    show "evolves p p'" using rel log(1,2) by (simp add: evolves_def p')
    show "books_ok p'"
    proof (rule books_extend [OF _ log(1)])
      show "entry_ok (fold ledger_next [e] (ledger_of p)) (fl_heap p') (fl_now p') k (js_jobs (fl_store p') k)" for k
      proof (cases "k = jid")
        case False
        with entry_ok_frame [OF fleet_inv_entry [OF inv, of k], where m' = "ledger_next e (ledger_of p)"] other [OF False]
        show ?thesis by (simp add: p')
      qed (use own p' in simp)
    qed (use inv log in \<open>simp_all add: fleet_inv_def\<close>)
    show "crew_ok p'" by (rule crew_evolves [OF _ rel flight]) (use inv in \<open>simp_all add: fleet_inv_def\<close>)
  qed
qed

lemma fleet_inv_reclaim:
  assumes "fleet_inv p"
  shows "fleet_inv (p\<lparr>fl_store := (fl_store p)\<lparr>js_jobs := \<lambda>i. map_option (reclaim (fl_now p)) (js_jobs (fl_store p) i)\<rparr>\<rparr>)" (is "fleet_inv ?p")
proof -
  have same: "same_job j (reclaim now j)" for now j by (simp add: reclaim_def same_job_def)
  have rel: "\<forall>k. rel_option same_job (js_jobs (fl_store p) k) (js_jobs (fl_store ?p) k)"
    by (simp add: option.rel_map option.rel_refl same)
  show ?thesis
  proof (rule evolves_inv [OF assms])
    show "evolves p ?p" using rel by (simp add: evolves_def)
    show "books_ok ?p"
      by (rule books_extend [of p _ "[]"]) (use assms entry_ok_reclaim [OF fleet_inv_entry [OF assms]] in \<open>simp_all add: fleet_inv_def\<close>)
    have "crew_ok p" using assms by (simp add: fleet_inv_def)
    then show "crew_ok ?p" by (rule crew_evolves [OF _ rel]) (simp, blast)
  qed
qed

lemma fleet_inv_worker: "fleet_inv p \<Longrightarrow> fleet_inv (fleet_worker i f p)"
  by (rule fleet_inv_silent) (auto simp: fleet_worker_def evolves_def)

lemma fleet_inv_dequeue:
  assumes inv: "fleet_inv p"
  shows "fleet_inv (fleet_dequeue i order p)"
proof (cases "jw_dequeueDisabled (fl_workers p i)")
  case True
  then have "fleet_dequeue i order p = fleet_worker i (\<lambda>w. w\<lparr>jw_phase := AtSelect\<rparr>) p" by (simp add: fleet_dequeue_def Let_def)
  with fleet_inv_worker [OF inv] show ?thesis by simp
next
  case False
  let ?s = "(fl_store p)\<lparr>js_jobs := \<lambda>i. map_option (reclaim (fl_now p)) (js_jobs (fl_store p) i)\<rparr>"
  let ?q = "fleet_worker i (\<lambda>w. w\<lparr>jw_phase := AtSelect\<rparr>) (p\<lparr>fl_store := ?s\<rparr>)"
  have q: "fleet_inv ?q" by (rule fleet_inv_worker [OF fleet_inv_reclaim [OF inv]])
  have qs: "fl_store ?q = ?s" by (simp add: fleet_worker_def)
  have ttl: "js_leaseTTL ?s = lease_time" using inv by (simp add: fleet_inv_def)
  obtain jo s' where scan: "dequeue_scan order (fl_now p) ?s = (jo, s')" by (cases "dequeue_scan order (fl_now p) ?s")
  from dequeue_scan_cases [OF scan] show ?thesis
  proof (elim disjE exE conjE)
    assume "jo = None" "s' = ?s"
    with False scan have "fleet_dequeue i order p = ?q" by (simp add: fleet_dequeue_def jobStore_dequeue_def Let_def)
    with q show ?thesis by simp
  next
    fix k j
    assume j: "js_jobs ?s k = Some j" "ready (fl_now p) j"
      and out: "jo = Some (lease_out (fl_now p) (js_leaseTTL ?s) j)"
        "s' = ?s\<lparr>js_jobs := (js_jobs ?s)(k \<mapsto> lease_out (fl_now p) (js_leaseTTL ?s) j)\<rparr>"
    let ?j = "lease_out (fl_now p) lease_time j" and ?p = "fleet_dequeue i order p"
    have e: "entry_ok (ledger_of ?q) (fl_heap ?q) (fl_now ?q) k (Some j)" using fleet_inv_entry [OF q, of k] j(1) by (simp only: qs)
    then obtain l where l: "ledger_of ?q k = Some (sj_typ j, bytes_of (sj_payload j) (fl_heap ?q), sj_processAt j, l)"
        "free_at lease_time (fl_now p) l" "sj_id j = k"
      using j(2) by (auto simp: entry_ok_def ready_def lease_of_def fleet_worker_def)
    have p': "fl_store ?p = ?s\<lparr>js_jobs := (js_jobs ?s)(k \<mapsto> ?j)\<rparr>" "fl_heap ?p = fl_heap ?q" "fl_known ?p = fl_known ?q"
        "fl_log ?p = fl_log ?q @ [Leased i k (fl_now p)]" "fl_flight ?p = fl_flight ?q @ [(i, ?j, Spawned)]"
      using False scan out l(3) ttl
      by (simp_all add: fleet_dequeue_def jobStore_dequeue_def fleet_worker_def lease_out_def Let_def del: fun_upd_apply)
    show ?thesis
    proof (rule fleet_inv_event [OF q, of k j ?j])
      show "ledger_allows lease_time (ledger_of ?q) (Leased i k (fl_now p))"
        using l j(2) by (auto simp: ready_def due_def split: option.splits)
      show "entry_ok (ledger_next (Leased i k (fl_now p)) (ledger_of ?q)) (fl_heap ?q) (fl_now ?q) k (Some ?j)"
        using l by (simp add: entry_ok_def lease_out_def lease_of_def relet_def fleet_worker_def)
      show "(\<exists>i st. (i, j', st) \<in> set (fl_flight ?q)) \<or> js_jobs (fl_store ?p) (sj_id j') = Some j'"
        if "(w, j', st) \<in> set (fl_flight ?p)" for w j' st
        using that l(3) unfolding p' by (auto simp: lease_out_def)
    qed (use j(1) p' qs in \<open>simp_all add: same_job_def lease_out_def\<close>)
  qed
qed

lemma without_subset: "set (without g xs) \<subseteq> set xs"
  by (auto simp: without_def dest: in_set_takeD in_set_dropD)

lemma flying:
  assumes "fleet_inv p" "g < length (fl_flight p)" "fl_flight p ! g = (i, j, st)"
  obtains j' l where "js_jobs (fl_store p) (sj_id j) = Some j'" "same_job j j'" "lease_of (fl_now p) j' l"
    "ledger_of p (sj_id j) = Some (sj_typ j, bytes_of (sj_payload j) (fl_heap p), sj_processAt j, l)"
proof -
  have "(i, j, st) \<in> set (fl_flight p)" using assms(2,3) nth_mem [of g "fl_flight p"] by simp
  then obtain j' where j': "js_jobs (fl_store p) (sj_id j) = Some j'" "same_job j j'" using assms(1) by (auto simp: fleet_inv_def crew_ok_def)
  with fleet_inv_entry [OF assms(1), of "sj_id j"] that show thesis by (auto simp: entry_ok_def same_job_def)
qed

lemma fleet_inv_start:
  assumes inv: "fleet_inv p" and g: "g < length (fl_flight p)"
  shows "fleet_inv (fleet_begin g p)"
proof -
  obtain i j st where fl: "fl_flight p ! g = (i, j, st)" by (cases "fl_flight p ! g")
  let ?p = "fleet_begin g p"
  show ?thesis
  proof (cases "jw_handlers (fl_workers p i) (sj_typ j)")
    case None
    then have "?p = p\<lparr>fl_flight := without g (fl_flight p)\<rparr>" by (simp add: fleet_begin_def fl)
    with without_subset [of g "fl_flight p"] show ?thesis by (intro fleet_inv_silent [OF inv]) (auto simp: evolves_def)
  next
    case (Some hf)
    obtain a h where copy: "append_nil (sj_payload j) (fl_heap p) = (a, h)" by (cases "append_nil (sj_payload j) (fl_heap p)")
    note gr = append_nil_grown [OF copy]
    let ?task = "\<lparr>tk_ID = sj_id j, tk_Type = sj_typ j, tk_Payload = a\<rparr>"
    let ?e = "Began i (sj_id j) (sj_typ j) (bytes_of (sj_payload j) (fl_heap p)) (fl_now p)"
    have p': "fl_store ?p = fl_store p" "fl_heap ?p = h" "fl_known ?p = fl_known p \<union> set_option a" "fl_log ?p = fl_log p @ [?e]"
        "fl_flight ?p = (fl_flight p)[g := (i, j, Handling hf ?task)]"
      using Some gr(2) by (simp_all add: fleet_begin_def fl copy)
    obtain j' l where "ledger_of p (sj_id j) = Some (sj_typ j, bytes_of (sj_payload j) (fl_heap p), sj_processAt j, l)"
      using flying [OF inv g fl] by blast
    then have allowed: "ledger_allows lease_time (ledger_of p) ?e" by simp
    show ?thesis
    proof (rule evolves_inv [OF inv])
      show "evolves p ?p"
        using gr(1,3) inv by (auto simp: evolves_def p' grown_def fleet_inv_def private_ok_def)
      show "books_ok ?p"
      proof (rule books_extend [OF _ p'(4)])
        show "entry_ok (fold ledger_next [?e] (ledger_of p)) (fl_heap ?p) (fl_now ?p) k (js_jobs (fl_store ?p) k)" for k
          unfolding p' by (rule entry_ok_frame [OF fleet_inv_entry [OF inv]]) (use gr(1) payload_private(1) [OF inv] in \<open>auto simp: grown_def\<close>)
      qed (use inv allowed in \<open>simp_all add: fleet_inv_def\<close>)
      have mem: "(i, j, st) \<in> set (fl_flight p)" using g fl nth_mem [of g "fl_flight p"] by simp
      have sub: "set (fl_flight ?p) \<subseteq> insert (i, j, Handling hf ?task) (set (fl_flight p))"
        unfolding p' by (rule set_update_subset_insert)
      show "crew_ok ?p"
      proof (rule crew_evolves [OF fleet_inv_crew [OF inv]])
        fix w k sx
        assume "(w, k, sx) \<in> set (fl_flight ?p)"
        with sub have "(w, k, sx) \<in> insert (i, j, Handling hf ?task) (set (fl_flight p))" by (rule subsetD)
        with mem show "(\<exists>i st. (i, k, st) \<in> set (fl_flight p)) \<or> js_jobs (fl_store ?p) (sj_id k) = Some k" by blast
      qed (simp add: p'(1))
    qed
  qed
qed

lemma fleet_inv_handled:
  assumes inv: "fleet_inv p" and g: "g < length (fl_flight p)"
  shows "fleet_inv (fleet_handled g err p)"
proof -
  obtain i j st where fl: "fl_flight p ! g = (i, j, st)" by (cases "fl_flight p ! g")
  let ?p = "fleet_handled g err p" and ?jid = "sj_id j"
  obtain j' l where j': "js_jobs (fl_store p) ?jid = Some j'" "same_job j j'" "lease_of (fl_now p) j' l"
      "ledger_of p ?jid = Some (sj_typ j, bytes_of (sj_payload j) (fl_heap p), sj_processAt j, l)"
    using flying [OF inv g fl] by blast
  let ?e = "case err of None \<Rightarrow> Done i ?jid | Some x \<Rightarrow> Broke i ?jid"
  let ?j = "case err of None \<Rightarrow> j'\<lparr>sj_state := stateCompleted\<rparr>
    | Some x \<Rightarrow> if sj_state j' = stateActive then j'\<lparr>sj_state := statePending\<rparr> else j'"
  have p': "fl_store ?p = (fl_store p)\<lparr>js_jobs := (js_jobs (fl_store p))(?jid \<mapsto> ?j)\<rparr>" "fl_heap ?p = fl_heap p" "fl_known ?p = fl_known p"
      "fl_log ?p = fl_log p @ [?e]" "fl_flight ?p = without g (fl_flight p)"
    using j'(1) by (cases err; simp add: fleet_handled_def fl jobStore_complete_def jobStore_requeue_def fun_upd_idem Let_def)+
  show ?thesis
  proof (rule fleet_inv_event [OF inv j'(1) _ p'(1-4)])
    show "entry_ok (ledger_next ?e (ledger_of p)) (fl_heap p) (fl_now p) ?jid (Some ?j)"
      using j' by (cases l; cases err)
        (auto simp: entry_ok_def same_job_def lease_of_def free_at_def relet_def split: jobState.splits)
  qed (use j' p'(5) without_subset [of g "fl_flight p"] in \<open>auto simp: same_job_def split: option.split\<close>)
qed

lemma fleet_inv_step:
  assumes "fleet_step p p'" "fleet_inv p" "stored_count (fl_log p') < 2 ^ 63"
  shows "fleet_inv p'"
  using assms
proof (cases rule: fleet_step.cases)
  case (enqueue job ctx)
  with assms(2,3) fleet_inv_enqueue show ?thesis by auto
next
  case (dequeue i order)
  with fleet_inv_dequeue [OF assms(2)] show ?thesis by simp
next
  case (start g)
  with fleet_inv_start [OF assms(2)] show ?thesis by simp
next
  case (handled g err)
  with fleet_inv_handled [OF assms(2)] show ?thesis by simp
next
  case (overwrite a i x)
  with assms(2) show ?thesis
    by (intro fleet_inv_silent [OF assms(2)]) (auto simp: evolves_def bh_set_def fleet_inv_def private_ok_def)
next
  case (build bs)
  with assms(2) show ?thesis
    by (intro fleet_inv_silent [OF assms(2)]) (auto simp: evolves_def bh_alloc_def fleet_inv_def private_ok_def)
next
  case (advance d)
  then show ?thesis by (intro fleet_inv_silent [OF assms(2)]) (auto simp: evolves_def fakeClock_Advance_def)
next
  case (available v)
  then show ?thesis by (intro fleet_inv_silent [OF assms(2)]) (auto simp: evolves_def jobStore_setUnavailable_def)
next
  case (faults v hz)
  then show ?thesis by (intro fleet_inv_silent [OF assms(2)]) (auto simp: evolves_def)
qed (use fleet_inv_worker [OF assms(2)] in simp)+

lemma fleet_inv_init: "fleet_inv (newFleet h)"
  by (auto simp: newFleet_def newJobStore_def fleet_inv_def books_ok_def ledger_of_def entry_ok_def crew_ok_def numbers_ok_def
      private_ok_def payloads_def lease_time_def)

section \<open>What every interleaving keeps\<close>

text \<open>A step logs at most one event; a handler begins in a goroutine that is in flight.\<close>

lemma fleet_step_log:
  assumes "fleet_step p p'"
  obtains "fl_log p' = fl_log p" | e where "fl_log p' = fl_log p @ [e]"
      "\<And>i jid ty bs t. e = Began i jid ty bs t \<Longrightarrow> t = fl_now p \<and> (\<exists>j st. (i, j, st) \<in> set (fl_flight p) \<and> sj_id j = jid)"
proof -
  have "fl_log p' = fl_log p \<or> (\<exists>e. fl_log p' = fl_log p @ [e] \<and>
      (\<forall>i jid ty bs t. e = Began i jid ty bs t \<longrightarrow> t = fl_now p \<and> (\<exists>j st. (i, j, st) \<in> set (fl_flight p) \<and> sj_id j = jid)))"
    using assms
  proof (cases rule: fleet_step.cases)
    case (start g)
    obtain i j st where fl: "fl_flight p ! g = (i, j, st)" by (cases "fl_flight p ! g")
    with start nth_mem [of g "fl_flight p"] have "(i, j, st) \<in> set (fl_flight p)" by simp
    with start fl show ?thesis by (auto simp: fleet_begin_def Let_def split: option.split prod.split)
  qed (auto simp: fleet_enqueue_def fleet_worker_def fleet_dequeue_def fleet_handled_def Let_def split: prod.split option.split)
  with that show thesis by blast
qed

lemma step_clock: "fleet_step p p' \<Longrightarrow> fl_now p \<le> fl_now p'"
proof (induction rule: fleet_step.induct)
  case (enqueue job p ctx)
  obtain info err s h where enq: "jobStore_Enqueue ctx job (fl_store p, fl_heap p) = (info, err, s, h)"
    by (cases "jobStore_Enqueue ctx job (fl_store p, fl_heap p)")
  from jobStore_Enqueue_cases [OF enq] show ?case by (auto simp: fleet_enqueue_def enq)
next
  case (dequeue p i order)
  let ?s = "(fl_store p)\<lparr>js_jobs := \<lambda>i. map_option (reclaim (fl_now p)) (js_jobs (fl_store p) i)\<rparr>"
  obtain jo s where scan: "dequeue_scan order (fl_now p) ?s = (jo, s)" by (cases "dequeue_scan order (fl_now p) ?s")
  from dequeue_scan_cases [OF scan] have "js_clock s = fl_now p" by auto
  with scan show ?case by (auto simp: fleet_dequeue_def jobStore_dequeue_def fleet_worker_def Let_def split: option.split)
qed (auto simp: fleet_worker_def fleet_begin_def fleet_handled_def fakeClock_Advance_def jobStore_setUnavailable_def
    jobStore_complete_def jobStore_requeue_def Let_def split: prod.split option.split)

lemma fleet_step_count: "fleet_step p p' \<Longrightarrow> stored_count (fl_log p) \<le> stored_count (fl_log p')"
  by (erule fleet_step_log) simp_all

interpretation fleetsys: counted_system fleet_step "newFleet h" fleet_inv "\<lambda>p. stored_count (fl_log p)" "2 ^ 63" for h
  by unfold_locales (auto intro: fleet_inv_init fleet_inv_step fleet_step_count)

text \<open>Every goroutine in flight works under a lease of its own worker.\<close>

lemma step_flight:
  assumes "fleet_step p p'" "(i, j, st) \<in> set (fl_flight p')"
  shows "(\<exists>st. (i, j, st) \<in> set (fl_flight p)) \<or> Leased i (sj_id j) (fl_now p') \<in> set (fl_log p')"
  using assms
proof (cases rule: fleet_step.cases)
  case (start g)
  obtain k x sx where fl: "fl_flight p ! g = (k, x, sx)" by (cases "fl_flight p ! g")
  with start nth_mem [of g "fl_flight p"] have mem: "(k, x, sx) \<in> set (fl_flight p)" by simp
  have "(i, j, st) \<in> set (fl_flight p) \<or> (i, j) = (k, x)"
    using start assms(2) fl without_subset [of g "fl_flight p"]
    by (auto simp: fleet_begin_def Let_def split: option.splits prod.splits dest!: subsetD [OF set_update_subset_insert])
  with mem show ?thesis by auto
next
  case (handled g err)
  with assms(2) without_subset [of g "fl_flight p"] show ?thesis
    by (auto simp: fleet_handled_def Let_def split: option.splits prod.splits)
qed (use assms(2) in \<open>auto simp: fleet_enqueue_def fleet_worker_def fleet_dequeue_def Let_def split: prod.splits option.splits\<close>)

lemma flight_leased:
  "fleet_steps (newFleet h) p \<Longrightarrow> (i, j, st) \<in> set (fl_flight p) \<Longrightarrow> \<exists>t\<le>fl_now p. Leased i (sj_id j) t \<in> set (fl_log p)"
proof (induction arbitrary: i j st rule: rtranclp_induct)
  case base
  then show ?case by (simp add: newFleet_def)
next
  case (step p p')
  have "set (fl_log p) \<subseteq> set (fl_log p')" by (rule fleet_step_log [OF step.hyps(2)]) auto
  with step_flight [OF step.hyps(2) step.prems] step.IH step_clock [OF step.hyps(2)] show ?case by (meson order_refl order_trans subsetD)
qed

lemma began_leased:
  "fleet_steps (newFleet h) p \<Longrightarrow> fl_log p = pre @ Began i jid ty bs t # post \<Longrightarrow> \<exists>t0\<le>t. Leased i jid t0 \<in> set pre"
proof (induction arbitrary: post rule: rtranclp_induct)
  case base
  then show ?case by (simp add: newFleet_def)
next
  case (step p p')
  show ?case
  proof (rule fleet_step_log [OF step.hyps(2)])
    assume "fl_log p' = fl_log p"
    with step.prems step.IH [of post] show ?thesis by simp
  next
    fix e
    assume e: "fl_log p' = fl_log p @ [e]"
      "\<And>i jid ty bs t. e = Began i jid ty bs t \<Longrightarrow> t = fl_now p \<and> (\<exists>j st. (i, j, st) \<in> set (fl_flight p) \<and> sj_id j = jid)"
    show ?thesis
    proof (cases post rule: rev_cases)
      case Nil
      with e(1) step.prems have pre: "pre = fl_log p" "e = Began i jid ty bs t" by simp_all
      from e(2) [OF pre(2)] obtain j st where "t = fl_now p" "(i, j, st) \<in> set (fl_flight p)" "sj_id j = jid" by blast
      with flight_leased [OF step.hyps(1), of i j st] pre(1) show ?thesis by simp
    next
      case (snoc post' x)
      with e(1) step.prems have "fl_log p = pre @ Began i jid ty bs t # post'" by simp
      then show ?thesis by (rule step.IH)
    qed
  qed
qed

text \<open>What an accepted log tells about the ledger.\<close>

fun lev_id :: "lease_event \<Rightarrow> string" where
  "lev_id (Stored jid ty bs at) = jid"
| "lev_id (Leased i jid t) = jid"
| "lev_id (Began i jid ty bs t) = jid"
| "lev_id (Done i jid) = jid"
| "lev_id (Broke i jid) = jid"

definition accounts_for :: "lease_event list \<Rightarrow> string \<Rightarrow> string \<times> string \<times> int option \<times> lease \<Rightarrow> bool" where
  "accounts_for es jid x \<longleftrightarrow>
     (case x of (ty, bs, at, l) \<Rightarrow>
        (\<forall>ty' bs' at'. Stored jid ty' bs' at' \<in> set es \<longleftrightarrow> ty' = ty \<and> bs' = bs \<and> at' = at) \<and>
        (l = Closed_out \<longleftrightarrow> (\<exists>i. Done i jid \<in> set es)) \<and> (\<forall>i t. Leased i jid t \<in> set es \<longrightarrow> due at t))"

lemma accounts_own:
  assumes "m (lev_id e) = None \<Longrightarrow> \<forall>x\<in>set es. lev_id x \<noteq> lev_id e" "\<And>x. m (lev_id e) = Some x \<Longrightarrow> accounts_for es (lev_id e) x"
    "ledger_allows ttl m e" "ledger_next e m (lev_id e) = Some x"
  shows "accounts_for (es @ [e]) (lev_id e) x"
proof (cases "m (lev_id e)")
  case None
  then obtain jid ty bs at where e: "e = Stored jid ty bs at" using assms(3) by (cases e) auto
  with assms(1) None have "\<forall>x\<in>set es. lev_id x \<noteq> jid" by simp
  then have "Stored jid ty' bs' at' \<notin> set es" "Done i jid \<notin> set es" "Leased i jid t \<notin> set es" for ty' bs' at' i t by fastforce+
  with e assms(4) show ?thesis by (auto simp: accounts_for_def)
next
  case (Some y)
  obtain ty bs at l where y: "y = (ty, bs, at, l)" by (cases y)
  from assms(2) [OF Some] assms(3,4) Some y show ?thesis
    by (cases e; cases l) (auto simp: accounts_for_def relet_def free_at_def)
qed

lemma ledger_history:
  "ledger_accepts ttl Map.empty es \<Longrightarrow>
     (fold ledger_next es Map.empty jid = None \<longrightarrow> (\<forall>x\<in>set es. lev_id x \<noteq> jid)) \<and>
     (\<forall>x. fold ledger_next es Map.empty jid = Some x \<longrightarrow> accounts_for es jid x)"
proof (induction es arbitrary: jid rule: rev_induct)
  case (snoc e es)
  let ?m = "fold ledger_next es Map.empty"
  from snoc.prems have acc: "ledger_accepts ttl Map.empty es" and ok: "ledger_allows ttl ?m e"
    by (simp_all add: ledger_accepts_append)
  note IH = snoc.IH [OF acc]
  show ?case
  proof (cases "lev_id e = jid")
    case True
    have "ledger_next e ?m (lev_id e) \<noteq> None" using ok by (cases e) (auto split: option.splits)
    moreover have "accounts_for (es @ [e]) (lev_id e) x" if "ledger_next e ?m (lev_id e) = Some x" for x
      by (rule accounts_own [OF _ _ ok that]) (use IH in blast)+
    ultimately show ?thesis using True by simp
  next
    case False
    then have "ledger_next e ?m jid = ?m jid" by (cases e) auto
    moreover have "accounts_for (es @ [e]) jid x \<longleftrightarrow> accounts_for es jid x" for x
      using False by (cases e) (auto simp: accounts_for_def split: prod.split)
    ultimately show ?thesis using IH [of jid] False by simp
  qed
qed simp

text \<open>A lease lasts until a failure is reported: later leases of the job are at least as late.\<close>

definition leased_since :: "int \<Rightarrow> (string \<times> string \<times> int option \<times> lease) option \<Rightarrow> bool" where
  "leased_since t x \<longleftrightarrow> (\<exists>ty bs at l. x = Some (ty, bs, at, l) \<and> (l = Closed_out \<or> (\<exists>u\<ge>t. l = Held u)))"

lemma leased_since_step:
  assumes "leased_since t (m jid)" "ledger_allows lease_time m e" "\<And>k. e \<noteq> Broke k jid"
  shows "leased_since t (ledger_next e m jid)"
proof (cases "lev_id e = jid")
  case True
  have "0 < lease_time" by (simp add: lease_time_def)
  with assms True show ?thesis
    by (cases e) (fastforce simp: leased_since_def relet_def free_at_def)+
next
  case False
  then have "ledger_next e m jid = m jid" by (cases e) auto
  with assms(1) show ?thesis by simp
qed

lemma leased_since_fold:
  "leased_since t (m jid) \<Longrightarrow> ledger_accepts lease_time m es \<Longrightarrow> \<forall>k. Broke k jid \<notin> set es \<Longrightarrow>
     leased_since t (fold ledger_next es m jid)"
  by (induction es arbitrary: m) (auto intro: leased_since_step)

lemma lease_allowed:
  assumes "ledger_accepts lease_time Map.empty (pre @ Leased w jid t # post)"
  shows "(\<exists>ty bs at. Stored jid ty bs at \<in> set pre \<and> due at t) \<and> (\<forall>i. Done i jid \<notin> set pre) \<and>
    (\<forall>pre' i u mid. pre = pre' @ Leased i jid u # mid \<and> (\<forall>k. Broke k jid \<notin> set mid) \<longrightarrow> u + lease_time < t)"
proof -
  let ?m = "fold ledger_next pre Map.empty"
  have acc: "ledger_accepts lease_time Map.empty pre" "ledger_allows lease_time ?m (Leased w jid t)"
    using assms by (simp_all add: ledger_accepts_append)
  then obtain ty bs at l where l: "?m jid = Some (ty, bs, at, l)" "due at t" "free_at lease_time t l" by (auto split: option.splits)
  have past: "Stored jid ty bs at \<in> set pre" "l = Closed_out \<longleftrightarrow> (\<exists>i. Done i jid \<in> set pre)"
    using ledger_history [OF acc(1), of jid] l(1) by (simp_all add: accounts_for_def)
  have "u + lease_time < t" if pre: "pre = pre' @ Leased i jid u # mid" "\<forall>k. Broke k jid \<notin> set mid" for pre' i u mid
  proof -
    let ?m' = "ledger_next (Leased i jid u) (fold ledger_next pre' Map.empty)"
    have "ledger_accepts lease_time ?m' mid" "ledger_allows lease_time (fold ledger_next pre' Map.empty) (Leased i jid u)"
      using acc(1) by (simp_all add: pre(1) ledger_accepts_append)
    moreover from this(2) have "leased_since u (?m' jid)" by (auto simp: leased_since_def relet_def split: option.splits)
    ultimately have "leased_since u (fold ledger_next mid ?m' jid)" using pre(2) by (intro leased_since_fold)
    moreover have "fold ledger_next mid ?m' jid = ?m jid" by (simp add: pre(1))
    ultimately show ?thesis using l(1,3) by (auto simp: leased_since_def free_at_def)
  qed
  with past l(2,3) show ?thesis by (auto simp: free_at_def)
qed

text \<open>
  C9. Leases are exclusive in every interleaving of enqueuers, workers, handlers, shutdowns, faults
  and clock advances (below \<open>2^63\<close> stored jobs): a job is leased only when it was stored, is due and has
  not been acknowledged, and leased again only after a failed attempt was reported or the lease
  time of one minute has passed; and a handler begins only under a lease of its own worker, not before the
  time of the job, with the identity, type and bytes that were stored.
\<close>

theorem lease_exclusive:
  assumes "fleet_steps (newFleet h) p" "stored_count (fl_log p) < 2 ^ 63"
  shows "(\<forall>pre w jid t post. fl_log p = pre @ Leased w jid t # post \<longrightarrow>
      (\<exists>ty bs at. Stored jid ty bs at \<in> set pre \<and> due at t) \<and> (\<forall>i. Done i jid \<notin> set pre) \<and>
      (\<forall>pre' i u mid. pre = pre' @ Leased i jid u # mid \<and> (\<forall>k. Broke k jid \<notin> set mid) \<longrightarrow> u + lease_time < t)) \<and>
    (\<forall>pre w jid ty bs t post. fl_log p = pre @ Began w jid ty bs t # post \<longrightarrow>
      (\<exists>at t0. Stored jid ty bs at \<in> set pre \<and> Leased w jid t0 \<in> set pre \<and> due at t0 \<and> t0 \<le> t))"
proof -
  have acc: "ledger_accepts lease_time Map.empty (fl_log p)"
    using fleetsys.reachable [OF assms] by (simp add: fleet_inv_def books_ok_def)
  have "\<exists>at t0. Stored jid ty bs at \<in> set pre \<and> Leased w jid t0 \<in> set pre \<and> due at t0 \<and> t0 \<le> t"
    if log: "fl_log p = pre @ Began w jid ty bs t # post" for pre w jid ty bs t post
  proof -
    have pre: "ledger_accepts lease_time Map.empty pre" "ledger_allows lease_time (fold ledger_next pre Map.empty) (Began w jid ty bs t)"
      using acc by (simp_all add: log ledger_accepts_append)
    from began_leased [OF assms(1) log] obtain t0 where "t0 \<le> t" "Leased w jid t0 \<in> set pre" by blast
    moreover from pre(2) obtain at l where "fold ledger_next pre Map.empty jid = Some (ty, bs, at, l)" by (auto split: option.splits)
    with ledger_history [OF pre(1), of jid] have "accounts_for pre jid (ty, bs, at, l)" by blast
    ultimately show ?thesis by (auto simp: accounts_for_def)
  qed
  with lease_allowed acc show ?thesis by metis
qed

text \<open>The three states the contract of \<^verbatim>\<open>Run\<close> allows a stored job to be in.\<close>

lemma recoverable_state:
  assumes "fleet_inv p" "Stored jid ty bs at \<in> set (fl_log p)"
  obtains j where "js_jobs (fl_store p) jid = Some j" "sj_id j = jid" "sj_typ j = ty" "sj_processAt j = at"
    "bytes_of (sj_payload j) (fl_heap p) = bs" "sj_state j = stateCompleted \<longleftrightarrow> (\<exists>i. Done i jid \<in> set (fl_log p))"
    "sj_state j = stateActive \<Longrightarrow> \<exists>t\<le>fl_now p + lease_time. sj_leaseUntil j = Some t"
proof -
  have acc: "ledger_accepts lease_time Map.empty (fl_log p)" using assms(1) by (simp add: fleet_inv_def books_ok_def)
  note hist = ledger_history [OF acc, of jid, folded ledger_of_def]
  with assms(2) obtain x where x: "ledger_of p jid = Some x" "accounts_for (fl_log p) jid x" by fastforce
  with fleet_inv_entry [OF assms(1), of jid] obtain j l where j: "js_jobs (fl_store p) jid = Some j" "sj_id j = jid"
      "x = (sj_typ j, bytes_of (sj_payload j) (fl_heap p), sj_processAt j, l)" "lease_of (fl_now p) j l"
    by (auto simp: entry_ok_def split: option.splits)
  moreover have "sj_state j = stateCompleted \<longleftrightarrow> l = Closed_out"
    using j(4) by (cases "sj_state j") (auto simp: lease_of_def free_at_def split: lease.splits)
  moreover have "\<exists>t\<le>fl_now p + lease_time. sj_leaseUntil j = Some t" if "sj_state j = stateActive"
    using j(4) that by (auto simp: lease_of_def)
  ultimately show thesis using that x(2) assms(2) by (auto simp: accounts_for_def)
qed

lemma reclaim_ready:
  assumes "sj_state j \<noteq> stateCompleted" "sj_state j = stateActive \<Longrightarrow> \<exists>t<now. sj_leaseUntil j = Some t" "due (sj_processAt j) now"
  shows "ready now (reclaim now j)"
  using assms by (cases "sj_state j") (auto simp: ready_def reclaim_def due_def split: option.splits)

lemma finite_jobs: "fleet_inv p \<Longrightarrow> finite (dom (js_jobs (fl_store p)))"
  by (simp add: fleet_inv_def numbers_ok_def)

text \<open>A worker at its \<^verbatim>\<open>select\<close> that is not cancelled leases and begins any job that is ready after reclaiming.\<close>

lemma can_begin:
  assumes inv: "fleet_inv p" and j: "js_jobs (fl_store p) jid = Some j" "ready (fl_now p) (reclaim (fl_now p) j)"
    and w: "jw_phase (fl_workers p i) = AtSelect" "\<not> jw_cancelled (fl_workers p i)" "\<not> jw_dequeueDisabled (fl_workers p i)"
      "jw_handlers (fl_workers p i) (sj_typ j) = Some hf"
  shows "\<exists>p'. fleet_steps p p' \<and>
    fl_log p' = fl_log p @ [Leased i jid (fl_now p), Began i jid (sj_typ j) (bytes_of (sj_payload j) (fl_heap p)) (fl_now p)]"
proof -
  have "finite (dom (js_jobs (fl_store p)) - {jid})" using finite_jobs [OF inv] by simp
  from finite_distinct_list [OF this]
  obtain rest where rest: "set rest = dom (js_jobs (fl_store p)) - {jid}" "distinct rest" by metis
  let ?order = "jid # rest" and ?j = "lease_out (fl_now p) (js_leaseTTL (fl_store p)) (reclaim (fl_now p) j)"
  define q1 where "q1 = fleet_worker i run_select p"
  define q2 where "q2 = fleet_dequeue i ?order q1"
  define q3 where "q3 = fleet_begin (length (fl_flight p)) q2"
  have jid: "sj_id j = jid" using fleet_inv_entry [OF inv, of jid] j(1) by (simp add: entry_ok_def)
  have q1: "jw_phase (fl_workers q1 i) = Dequeuing" "\<not> jw_dequeueDisabled (fl_workers q1 i)" "jw_handlers (fl_workers q1 i) = jw_handlers (fl_workers p i)"
      "fl_store q1 = fl_store p" "fl_log q1 = fl_log p" "fl_heap q1 = fl_heap p" "fl_flight q1 = fl_flight p"
    using w by (simp_all add: q1_def fleet_worker_def run_select_def)
  have "\<exists>s. js_clock s = fl_now p \<and> jobStore_dequeue ?order (fl_store p) = (Some ?j, s)"
    using j by (simp add: jobStore_dequeue_def Let_def)
  then have q2: "fl_flight q2 = fl_flight p @ [(i, ?j, Spawned)]" "fl_log q2 = fl_log p @ [Leased i jid (fl_now p)]" "fl_now q2 = fl_now p"
      "fl_heap q2 = fl_heap p" "jw_handlers (fl_workers q2 i) = jw_handlers (fl_workers p i)"
    using q1(2-7) jid by (auto simp: q2_def fleet_dequeue_def fleet_worker_def lease_out_def reclaim_def Let_def)
  have job: "sj_typ ?j = sj_typ j" "sj_id ?j = jid" "sj_payload ?j = sj_payload j" using jid by (simp_all add: lease_out_def reclaim_def)
  have "fl_log q3 = fl_log p @ [Leased i jid (fl_now p), Began i jid (sj_typ j) (bytes_of (sj_payload j) (fl_heap p)) (fl_now p)]"
    using w(4) append_nil_grown(2) [of "sj_payload j" "fl_heap p"]
    by (auto simp: q3_def fleet_begin_def q2 job Let_def nth_append split: prod.split)
  moreover have "fleet_step p q1" unfolding q1_def by (rule select [OF w(1)])
  moreover have "fleet_step q1 q2" unfolding q2_def by (rule dequeue [OF q1(1)]) (use rest j(1) in \<open>auto simp: q1(4)\<close>)
  moreover have "fleet_step q2 q3" unfolding q3_def by (rule start) (simp_all add: q2 nth_append)
  ultimately show ?thesis by (meson rtranclp.rtrancl_refl rtranclp.rtrancl_into_rtrancl)
qed

text \<open>
  C8. An accepted job is never lost, even if every handler that ever got it hangs: in every
  reachable fleet, for a job that was stored (also when \<^verbatim>\<open>Enqueue\<close> lost its answer) and is not
  acknowledged, once more than the lease time has passed and the job is due, every worker at its
  \<^verbatim>\<open>select\<close> with a handler for the type can lease the job and begin with its type and bytes, without
  any other goroutine making a step.
\<close>

theorem lease_recoverable:
  assumes "fleet_steps (newFleet h) p" "stored_count (fl_log p) < 2 ^ 63" "Stored jid ty bs at \<in> set (fl_log p)"
    "\<forall>k. Done k jid \<notin> set (fl_log p)"
    "jw_phase (fl_workers p i) = AtSelect" "\<not> jw_cancelled (fl_workers p i)" "\<not> jw_dequeueDisabled (fl_workers p i)"
    "jw_handlers (fl_workers p i) ty = Some hf" "lease_time < int d" "due at (fl_now p + int d)"
  shows "\<exists>p'. fleet_steps p p' \<and>
    fl_log p' = fl_log p @ [Leased i jid (fl_now p + int d), Began i jid ty bs (fl_now p + int d)]"
proof -
  have inv: "fleet_inv p" by (rule fleetsys.reachable [OF assms(1,2)])
  from recoverable_state [OF this assms(3)]
  obtain j where j: "js_jobs (fl_store p) jid = Some j" "sj_typ j = ty" "sj_processAt j = at" "bytes_of (sj_payload j) (fl_heap p) = bs"
      "sj_state j \<noteq> stateCompleted" "sj_state j = stateActive \<Longrightarrow> \<exists>t\<le>fl_now p + lease_time. sj_leaseUntil j = Some t"
    using assms(4) by metis
  let ?q = "p\<lparr>fl_store := fakeClock_Advance (int d) (fl_store p)\<rparr>"
  have step: "fleet_step p ?q" by (rule advance)
  have q: "js_jobs (fl_store ?q) = js_jobs (fl_store p)" "fl_now ?q = fl_now p + int d" "fl_log ?q = fl_log p"
    by (simp_all add: fakeClock_Advance_def)
  have inv': "fleet_inv ?q" by (rule fleet_inv_step [OF step inv]) (use assms(2) in simp)
  have ready: "ready (fl_now ?q) (reclaim (fl_now ?q) j)"
    by (rule reclaim_ready) (use j(3,5,6) assms(9,10) q(2) in \<open>fastforce+\<close>)
  have "js_jobs (fl_store ?q) jid = Some j" unfolding q(1) by (rule j(1))
  from can_begin [OF inv' this ready, of i hf]
  obtain p' where "fleet_steps ?q p'" "fl_log p' = fl_log ?q @ [Leased i jid (fl_now ?q), Began i jid ty bs (fl_now ?q)]"
    using j(2,4) assms(5-8) by auto
  with step q show ?thesis by (metis converse_rtranclp_into_rtranclp)
qed

section \<open>The end of a run\<close>

text \<open>\<^verbatim>\<open>Run\<close> ends with nil only after a cancellation, and with an error only with the one of its startup.\<close>

lemma run_result:
  "fleet_steps (newFleet h) p \<Longrightarrow>
     (jw_phase (fl_workers p i) = Over None \<longrightarrow> jw_cancelled (fl_workers p i)) \<and>
     (jw_phase (fl_workers p i) = Draining \<longrightarrow> jw_cancelled (fl_workers p i)) \<and>
     (jw_phase (fl_workers p i) = Over (Some e) \<longrightarrow> jw_fatalStartup (fl_workers p i) = Some e) \<and>
     (jw_hctxDone (fl_workers p i) \<longrightarrow> jw_cancelled (fl_workers p i))"
proof (induction rule: rtranclp_induct)
  case base
  then show ?case by (simp add: newFleet_def newJobWorker_def)
next
  case (step p p')
  from step.hyps(2) step.IH show ?case
  proof (cases rule: fleet_step.cases)
    case (enqueue job ctx)
    then have "fl_workers p' = fl_workers p" by (simp add: fleet_enqueue_def split: prod.split)
    with step.IH show ?thesis by simp
  next
    case (dequeue k order)
    then have "fl_workers p' = (fl_workers p)(k := (fl_workers p k)\<lparr>jw_phase := AtSelect\<rparr>)"
      by (simp add: fleet_dequeue_def fleet_worker_def Let_def split: prod.split option.split)
    with step.IH show ?thesis by (cases "k = i") auto
  next
    case (start g)
    then have "fl_workers p' = fl_workers p" by (simp add: fleet_begin_def Let_def split: prod.split option.split)
    with step.IH show ?thesis by simp
  next
    case (handled g err)
    then have "fl_workers p' = fl_workers p" by (simp add: fleet_handled_def Let_def split: prod.split option.split)
    with step.IH show ?thesis by simp
  qed (auto simp: fleet_worker_def jobWorker_Register_def run_enter_def run_select_def run_return_def Let_def split: option.splits if_splits)
qed

text \<open>
  A cancelled worker can always return nil on its own, whatever its handlers do: stragglers stay in
  flight, and their late answers still reach the store.
\<close>

lemma run_can_return:
  assumes inv: "fleet_inv p" and w: "jw_cancelled (fl_workers p i)" "jw_phase (fl_workers p i) \<in> {AtSelect, Dequeuing, Draining}"
  shows "\<exists>p'. fleet_steps p p' \<and> jw_phase (fl_workers p' i) = Over None \<and> set (fl_flight p) \<subseteq> set (fl_flight p')"
proof -
  have drain: "\<exists>p'. fleet_steps q p' \<and> jw_phase (fl_workers p' i) = Over None \<and> fl_flight p' = fl_flight q"
    if "jw_phase (fl_workers q i) = Draining" for q :: "'a fleet"
    using return [OF that] by (intro exI [of _ "fleet_worker i run_return q"]) (auto simp: fleet_worker_def run_return_def Let_def)
  have sel: "\<exists>p'. fleet_steps q p' \<and> jw_phase (fl_workers p' i) = Over None \<and> fl_flight p' = fl_flight q"
    if q: "jw_phase (fl_workers q i) = AtSelect" "jw_cancelled (fl_workers q i)" for q :: "'a fleet"
  proof -
    let ?q = "fleet_worker i run_select q"
    have "jw_phase (fl_workers ?q i) = Draining" "fl_flight ?q = fl_flight q" using q by (simp_all add: fleet_worker_def run_select_def)
    with drain [of ?q] select [OF q(1)] show ?thesis by (metis converse_rtranclp_into_rtranclp)
  qed
  from w(2) consider "jw_phase (fl_workers p i) = AtSelect" | "jw_phase (fl_workers p i) = Draining"
    | "jw_phase (fl_workers p i) = Dequeuing" by auto
  then show ?thesis
  proof cases
    case 1
    with sel [OF _ w(1)] show ?thesis by fastforce
  next
    case 2
    with drain show ?thesis by fastforce
  next
    case 3
    from finite_distinct_list [OF finite_jobs [OF inv]]
    obtain order where order: "set order = dom (js_jobs (fl_store p))" "distinct order" by blast
    let ?q = "fleet_dequeue i order p"
    have "fleet_step p ?q" by (rule dequeue [OF 3 order(2,1)])
    moreover have q: "jw_phase (fl_workers ?q i) = AtSelect" "jw_cancelled (fl_workers ?q i)" "set (fl_flight p) \<subseteq> set (fl_flight ?q)"
      using w(1) by (auto simp: fleet_dequeue_def fleet_worker_def Let_def split: prod.split option.split)
    ultimately show ?thesis using sel [OF q(1,2)] by (metis converse_rtranclp_into_rtranclp)
  qed
qed

text \<open>
  C10. The two endpoints of \<^verbatim>\<open>Run\<close>, in every interleaving: it returns nil only after its context was
  cancelled and an error only if that is its startup error; the context of the handlers is
  cancelled only by a shutdown; and a cancelled worker can always go on to return nil by steps of
  its own, while handlers that hang stay in flight and failures of the teardown stay out of the result.
\<close>

theorem run_endpoints:
  assumes "fleet_steps (newFleet h) p" "stored_count (fl_log p) < 2 ^ 63"
  shows "(\<forall>r. jw_phase (fl_workers p i) = Over r \<longrightarrow>
      (case r of None \<Rightarrow> jw_cancelled (fl_workers p i) | Some e \<Rightarrow> jw_fatalStartup (fl_workers p i) = Some e)) \<and>
    (jw_hctxDone (fl_workers p i) \<longrightarrow> jw_cancelled (fl_workers p i)) \<and>
    (jw_cancelled (fl_workers p i) \<and> jw_phase (fl_workers p i) \<in> {AtSelect, Dequeuing, Draining} \<longrightarrow>
      (\<exists>p'. fleet_steps p p' \<and> jw_phase (fl_workers p' i) = Over None \<and> set (fl_flight p) \<subseteq> set (fl_flight p')))"
  using run_result [OF assms(1), of i] run_can_return [OF fleetsys.reachable [OF assms], of i] by (auto split: option.split)

section \<open>A run\<close>

text \<open>Worker 0 leases a job and its handler hangs; worker 1 is ready to take over.\<close>

definition stuck_fleet :: "unit fleet" where
  "stuck_fleet =
     fleet_begin 0 (fleet_dequeue 0 [''1''] (fleet_worker 0 run_select
       (fleet_enqueue context_Background \<lparr>jb_Type = ''t'', jb_Payload = Some 0, jb_ProcessAt = None\<rparr>
         (fleet_worker 1 run_enter (fleet_worker 1 (\<lambda>w. snd (jobWorker_Register ''t'' (Some ()) w))
           (fleet_worker 0 run_enter (fleet_worker 0 (\<lambda>w. snd (jobWorker_Register ''t'' (Some ()) w)) (newFleet demo_heap))))))))"

lemmas stuck_defs = stuck_fleet_def demo_heap_def fleet_begin_def fleet_dequeue_def fleet_worker_def fleet_enqueue_def run_select_def
  run_enter_def jobWorker_Register_def newFleet_def newJobStore_def newJobWorker_def jobStore_Enqueue_def jobStore_dequeue_def
  reclaim_def ready_def lease_out_def append_nil_def bh_alloc_def Let_def

lemma stuck_facts:
  "fl_log stuck_fleet = [Stored ''1'' ''t'' ''hi'' None, Leased 0 ''1'' 1000000000000000, Began 0 ''1'' ''t'' ''hi'' 1000000000000000]"
  "fl_now stuck_fleet = 1000000000000000" "jw_phase (fl_workers stuck_fleet 1) = AtSelect" "\<not> jw_cancelled (fl_workers stuck_fleet 1)"
  "\<not> jw_dequeueDisabled (fl_workers stuck_fleet 1)" "jw_handlers (fl_workers stuck_fleet 1) ''t'' = Some ()"
  by (simp_all add: stuck_defs)

lemma stuck_reachable: "fleet_steps (newFleet demo_heap) stuck_fleet"
proof -
  define p1 :: "unit fleet" where "p1 = fleet_worker 0 (\<lambda>w. snd (jobWorker_Register ''t'' (Some ()) w)) (newFleet demo_heap)"
  define p2 where "p2 = fleet_worker 0 run_enter p1"
  define p3 where "p3 = fleet_worker 1 (\<lambda>w. snd (jobWorker_Register ''t'' (Some ()) w)) p2"
  define p4 where "p4 = fleet_worker 1 run_enter p3"
  define p5 where "p5 = fleet_enqueue context_Background \<lparr>jb_Type = ''t'', jb_Payload = Some 0, jb_ProcessAt = None\<rparr> p4"
  define p6 where "p6 = fleet_worker 0 run_select p5"
  define p7 where "p7 = fleet_dequeue 0 [''1''] p6"
  note defs = p7_def p6_def p5_def p4_def p3_def p2_def p1_def
  have "fleet_step (newFleet demo_heap) p1" unfolding p1_def by (rule register)
  moreover have "fleet_step p1 p2" unfolding p2_def by (rule run) (simp add: defs stuck_defs)
  moreover have "fleet_step p2 p3" unfolding p3_def by (rule register)
  moreover have "fleet_step p3 p4" unfolding p4_def by (rule run) (simp add: defs stuck_defs)
  moreover have "fleet_step p4 p5" unfolding p5_def by (rule enqueue) (simp add: defs stuck_defs)
  moreover have "fleet_step p5 p6" unfolding p6_def by (rule select) (simp add: defs stuck_defs)
  moreover have "fleet_step p6 p7" unfolding p7_def by (rule dequeue) (simp_all add: defs stuck_defs)
  moreover have "fleet_step p7 stuck_fleet" unfolding stuck_fleet_def defs [symmetric] by (rule start) (simp_all add: defs stuck_defs)
  ultimately show ?thesis by (meson rtranclp.rtrancl_refl rtranclp.rtrancl_into_rtrancl)
qed

theorem lease_exclusive_witness:
  "\<exists>at t0. Stored ''1'' ''t'' ''hi'' at \<in> set (take 2 (fl_log stuck_fleet)) \<and> Leased 0 ''1'' t0 \<in> set (take 2 (fl_log stuck_fleet)) \<and>
     due at t0 \<and> t0 \<le> 1000000000000000"
proof -
  have "fl_log stuck_fleet = take 2 (fl_log stuck_fleet) @ Began 0 ''1'' ''t'' ''hi'' 1000000000000000 # []" by (simp add: stuck_facts)
  moreover have "stored_count (fl_log stuck_fleet) < 2 ^ 63" by (simp add: stuck_facts stored_count_def)
  note lease_exclusive [OF stuck_reachable this, THEN conjunct2]
  ultimately show ?thesis by blast
qed

theorem lease_recoverable_witness:
  "\<exists>p'. fleet_steps stuck_fleet p' \<and>
     fl_log p' = fl_log stuck_fleet @ [Leased 1 ''1'' (fl_now stuck_fleet + 60000000001), Began 1 ''1'' ''t'' ''hi'' (fl_now stuck_fleet + 60000000001)]"
  using lease_recoverable [OF stuck_reachable, of "''1''" "''t''" "''hi''" None 1 "()" 60000000001]
  by (simp add: stuck_facts stored_count_def lease_time_def due_def del: One_nat_def)

theorem run_endpoints_witness:
  "let p = fleet_worker 0 (\<lambda>w. w\<lparr>jw_cancelled := True\<rparr>) stuck_fleet
   in \<exists>p'. fleet_steps p p' \<and> jw_phase (fl_workers p' 0) = Over None \<and> set (fl_flight p) \<subseteq> set (fl_flight p')"
proof -
  let ?p = "fleet_worker 0 (\<lambda>w. w\<lparr>jw_cancelled := True\<rparr>) stuck_fleet"
  have "fleet_steps (newFleet demo_heap) ?p" using stuck_reachable cancel [of stuck_fleet 0] by (rule rtranclp.rtrancl_into_rtrancl)
  from run_endpoints [OF this, of 0] show ?thesis by (simp add: Let_def fleet_worker_def stuck_facts(1) stored_count_def) (simp add: stuck_defs)
qed

end
