(* ===== verification/Context_Values.thy ===== *)
theory Context_Values
  imports Errorsx
begin

text \<open>
  Values carried by a \<^verbatim>\<open>context.Context\<close>: the identifiers of \<^verbatim>\<open>pkg/contextx\<close> and the verified identity
  of \<^verbatim>\<open>ports/auth\<close>, with the function adapters of that package. Contexts are immutable chains;
  the slices and maps of an identity live on a heap, since the point of \<^verbatim>\<open>Clone\<close> is that
  nobody outside the package can reach the copy a context holds.
\<close>

section \<open>The heap of slices and claim maps\<close>

record id_heap =
  ih_roles :: "nat \<Rightarrow> string list"
  ih_nroles :: nat
  ih_claims :: "nat \<Rightarrow> string \<Rightarrow> any option"
  ih_nclaims :: nat

text \<open>\<^verbatim>\<open>slices.Clone\<close> and \<^verbatim>\<open>maps.Clone\<close>: both keep nil, which is \<^term>\<open>None\<close> here.\<close>

definition slices_Clone :: "nat option \<Rightarrow> id_heap \<Rightarrow> nat option \<times> id_heap" where
  "slices_Clone s h =
     (case s of None \<Rightarrow> (None, h)
      | Some a \<Rightarrow> (Some (ih_nroles h),
                   h\<lparr>ih_roles := (ih_roles h)(ih_nroles h := ih_roles h a), ih_nroles := Suc (ih_nroles h)\<rparr>))"

definition maps_Clone :: "nat option \<Rightarrow> id_heap \<Rightarrow> nat option \<times> id_heap" where
  "maps_Clone m h =
     (case m of None \<Rightarrow> (None, h)
      | Some a \<Rightarrow> (Some (ih_nclaims h),
                   h\<lparr>ih_claims := (ih_claims h)(ih_nclaims h := ih_claims h a), ih_nclaims := Suc (ih_nclaims h)\<rparr>))"

section \<open>ports/auth: identities\<close>

record Identity =
  id_Subject :: string
  id_TenantID :: string
  id_Roles :: "nat option"
  id_Claims :: "nat option"

definition zero_Identity :: Identity where
  "zero_Identity = \<lparr>id_Subject = [], id_TenantID = [], id_Roles = None, id_Claims = None\<rparr>"

definition Identity_Clone :: "Identity \<Rightarrow> id_heap \<Rightarrow> Identity \<times> id_heap" where
  "Identity_Clone i h =
     (let (roles, h) = slices_Clone (id_Roles i) h;
          i = i\<lparr>id_Roles := roles\<rparr>;
          (claims, h) = maps_Clone (id_Claims i) h;
          i = i\<lparr>id_Claims := claims\<rparr>
      in (i, h))"

section \<open>Contexts with values\<close>

text \<open>
  A key is an interface value, so two keys are equal when both their dynamic type and their
  value are. Each package has an unexported key type of its own.
\<close>

datatype ctxkey = CtxKey string nat

datatype ctxval = CVNil | CVString string | CVIdentity Identity | CVOther any

datatype vcontext = RootCtx gocontext | ValueCtx vcontext ctxkey ctxval

definition context_WithValue :: "vcontext \<Rightarrow> ctxkey \<Rightarrow> ctxval \<Rightarrow> vcontext" where
  "context_WithValue c k v = ValueCtx c k v"

primrec ctx_Value :: "vcontext \<Rightarrow> ctxkey \<Rightarrow> ctxval" where
  "ctx_Value (RootCtx b) k = CVNil"
| "ctx_Value (ValueCtx c k' v) k = (if k' = k then v else ctx_Value c k)"

primrec vctx_Err :: "vcontext \<Rightarrow> goerr option" where
  "vctx_Err (RootCtx b) = ctx_Err b"
| "vctx_Err (ValueCtx c k v) = vctx_Err c"

section \<open>pkg/contextx\<close>

abbreviation contextx_key :: "nat \<Rightarrow> ctxkey" where "contextx_key \<equiv> CtxKey ''contextx.ctxKey''"

definition keyTraceID :: ctxkey where [code_defs]: "keyTraceID = contextx_key 0"
definition keyRequestID :: ctxkey where [code_defs]: "keyRequestID = contextx_key 1"
definition keyCorrelationID :: ctxkey where [code_defs]: "keyCorrelationID = contextx_key 2"
definition keyCausationID :: ctxkey where [code_defs]: "keyCausationID = contextx_key 3"
definition keyTenantID :: ctxkey where [code_defs]: "keyTenantID = contextx_key 4"
definition keyUserID :: ctxkey where [code_defs]: "keyUserID = contextx_key 5"

definition stringValue :: "vcontext \<Rightarrow> ctxkey \<Rightarrow> string" where
  "stringValue ctx k = (case ctx_Value ctx k of CVString v \<Rightarrow> v | _ \<Rightarrow> [])"

definition WithTraceID :: "vcontext \<Rightarrow> string \<Rightarrow> vcontext" where
  "WithTraceID ctx traceID = context_WithValue ctx keyTraceID (CVString traceID)"

definition TraceID :: "vcontext \<Rightarrow> string" where "TraceID ctx = stringValue ctx keyTraceID"

definition WithRequestID :: "vcontext \<Rightarrow> string \<Rightarrow> vcontext" where
  "WithRequestID ctx v = context_WithValue ctx keyRequestID (CVString v)"

definition RequestID :: "vcontext \<Rightarrow> string" where "RequestID ctx = stringValue ctx keyRequestID"

definition WithCorrelationID :: "vcontext \<Rightarrow> string \<Rightarrow> vcontext" where
  "WithCorrelationID ctx v = context_WithValue ctx keyCorrelationID (CVString v)"

definition CorrelationID :: "vcontext \<Rightarrow> string" where "CorrelationID ctx = stringValue ctx keyCorrelationID"

definition WithCausationID :: "vcontext \<Rightarrow> string \<Rightarrow> vcontext" where
  "WithCausationID ctx v = context_WithValue ctx keyCausationID (CVString v)"

definition CausationID :: "vcontext \<Rightarrow> string" where "CausationID ctx = stringValue ctx keyCausationID"

definition WithTenantID :: "vcontext \<Rightarrow> string \<Rightarrow> vcontext" where
  "WithTenantID ctx tenantID = context_WithValue ctx keyTenantID (CVString tenantID)"

definition TenantID :: "vcontext \<Rightarrow> string" where "TenantID ctx = stringValue ctx keyTenantID"

definition WithUserID :: "vcontext \<Rightarrow> string \<Rightarrow> vcontext" where
  "WithUserID ctx userID = context_WithValue ctx keyUserID (CVString userID)"

definition UserID :: "vcontext \<Rightarrow> string" where "UserID ctx = stringValue ctx keyUserID"

section \<open>ports/auth: the identity of a context\<close>

definition keyIdentity :: ctxkey where [code_defs]: "keyIdentity = CtxKey ''auth.ctxKey'' 0"

definition WithIdentity :: "vcontext \<Rightarrow> Identity \<Rightarrow> id_heap \<Rightarrow> vcontext \<times> id_heap" where
  "WithIdentity ctx i h = (let (c, h) = Identity_Clone i h in (context_WithValue ctx keyIdentity (CVIdentity c), h))"

definition IdentityFromContext :: "vcontext \<Rightarrow> id_heap \<Rightarrow> (Identity \<times> bool) \<times> id_heap" where
  "IdentityFromContext ctx h =
     (case ctx_Value ctx keyIdentity of
        CVIdentity i \<Rightarrow> (let (c, h) = Identity_Clone i h in ((c, True), h))
      | _ \<Rightarrow> ((zero_Identity, False), h))"

text \<open>The adapters of functions to the two interfaces, over any state the function works on.\<close>

type_synonym 's TokenVerifierFunc = "vcontext \<Rightarrow> string \<Rightarrow> 's \<Rightarrow> (Identity \<times> goerr option) \<times> 's"

definition TokenVerifierFunc_Verify :: "'s TokenVerifierFunc \<Rightarrow> 's TokenVerifierFunc" where
  "TokenVerifierFunc_Verify f ctx token s = f ctx token s"

record Resource =
  res_Type :: string
  res_ID :: string

type_synonym 's AuthorizerFunc = "vcontext \<Rightarrow> Identity \<Rightarrow> string \<Rightarrow> Resource \<Rightarrow> 's \<Rightarrow> goerr option \<times> 's"

definition AuthorizerFunc_Allow :: "'s AuthorizerFunc \<Rightarrow> 's AuthorizerFunc" where
  "AuthorizerFunc_Allow f ctx caller action resource s = f ctx caller action resource s"

text \<open>
  The methods of a \<^verbatim>\<open>*codedError\<close>. \<^verbatim>\<open>Unwrap\<close> mints a coded error at every call, here the object
  itself: what a caller does to it cannot reach the sentinel, whose fields are constants.
\<close>

definition codedError_Error :: "string \<Rightarrow> string \<Rightarrow> string" where
  "codedError_Error code msg = code @ '': '' @ msg"

definition codedError_Unwrap :: "string \<Rightarrow> string \<Rightarrow> Error" where
  "codedError_Unwrap code msg = New code msg"

lemma codedError_tree: "err_tree (AuthErr c m) = AuthErr c m # err_tree (err_of (codedError_Unwrap c m))"
  by (simp add: codedError_Unwrap_def New_def err_of_def)

lemma codedError_text: "error_text (AuthErr c m) = codedError_Error c m"
  by (simp add: codedError_Error_def)

section \<open>One identifier of a context\<close>

text \<open>
  The contract shared by the six pairs of functions: what is put is read back, and the key
  belongs to the pair alone.
\<close>

locale context_slot =
  fixes key :: ctxkey and put :: "vcontext \<Rightarrow> string \<Rightarrow> vcontext" and get :: "vcontext \<Rightarrow> string"
  assumes get_put [simp]: "get (put c v) = v"
    and put_key: "\<exists>x. put c v = context_WithValue c key x"
    and get_other: "k \<noteq> key \<Longrightarrow> get (context_WithValue c k x) = get c"
    and get_base: "get (RootCtx b) = []"
begin

lemma put_other: "k \<noteq> key \<Longrightarrow> ctx_Value (put c v) k = ctx_Value c k"
  using put_key [of c v] by (auto simp: context_WithValue_def)

lemma put_Err: "vctx_Err (put c v) = vctx_Err c"
  using put_key [of c v] by (auto simp: context_WithValue_def)

end

interpretation trace: context_slot keyTraceID WithTraceID TraceID
  by unfold_locales (simp_all add: WithTraceID_def TraceID_def context_WithValue_def stringValue_def)

interpretation request: context_slot keyRequestID WithRequestID RequestID
  by unfold_locales (simp_all add: WithRequestID_def RequestID_def context_WithValue_def stringValue_def)

interpretation correlation: context_slot keyCorrelationID WithCorrelationID CorrelationID
  by unfold_locales (simp_all add: WithCorrelationID_def CorrelationID_def context_WithValue_def stringValue_def)

interpretation causation: context_slot keyCausationID WithCausationID CausationID
  by unfold_locales (simp_all add: WithCausationID_def CausationID_def context_WithValue_def stringValue_def)

interpretation tenant: context_slot keyTenantID WithTenantID TenantID
  by unfold_locales (simp_all add: WithTenantID_def TenantID_def context_WithValue_def stringValue_def)

interpretation user: context_slot keyUserID WithUserID UserID
  by unfold_locales (simp_all add: WithUserID_def UserID_def context_WithValue_def stringValue_def)

lemmas slot_get_put = trace.get_put request.get_put correlation.get_put causation.get_put tenant.get_put user.get_put

lemmas slot_get_base = trace.get_base request.get_base correlation.get_base causation.get_base tenant.get_base user.get_base

lemmas slot_get_other = trace.get_other request.get_other correlation.get_other causation.get_other
  tenant.get_other user.get_other

lemmas slot_with = WithTraceID_def WithRequestID_def WithCorrelationID_def WithCausationID_def WithTenantID_def WithUserID_def

section \<open>Cloning an identity\<close>

text \<open>The value of an identity: its strings, its roles and its claims.\<close>

record identity_view =
  iv_Subject :: string
  iv_TenantID :: string
  iv_Roles :: "string list option"
  iv_Claims :: "(string \<Rightarrow> any option) option"

definition view_Identity :: "id_heap \<Rightarrow> Identity \<Rightarrow> identity_view" where
  "view_Identity h i =
     \<lparr>iv_Subject = id_Subject i, iv_TenantID = id_TenantID i,
      iv_Roles = map_option (ih_roles h) (id_Roles i), iv_Claims = map_option (ih_claims h) (id_Claims i)\<rparr>"

text \<open>The slices and maps of an identity exist.\<close>

definition id_allocated :: "id_heap \<Rightarrow> Identity \<Rightarrow> bool" where
  "id_allocated h i \<longleftrightarrow>
     (\<forall>a \<in> set_option (id_Roles i). a < ih_nroles h) \<and> (\<forall>a \<in> set_option (id_Claims i). a < ih_nclaims h)"

text \<open>Every slice or map of an identity is new with respect to a heap.\<close>

definition id_fresh :: "id_heap \<Rightarrow> Identity \<Rightarrow> bool" where
  "id_fresh h i \<longleftrightarrow>
     (\<forall>a \<in> set_option (id_Roles i). ih_nroles h \<le> a) \<and> (\<forall>a \<in> set_option (id_Claims i). ih_nclaims h \<le> a)"

text \<open>A heap grew: what was allocated is still there, unchanged.\<close>

definition id_grown :: "id_heap \<Rightarrow> id_heap \<Rightarrow> bool" where
  "id_grown h h' \<longleftrightarrow>
     ih_nroles h \<le> ih_nroles h' \<and> ih_nclaims h \<le> ih_nclaims h' \<and>
     (\<forall>a<ih_nroles h. ih_roles h' a = ih_roles h a) \<and> (\<forall>a<ih_nclaims h. ih_claims h' a = ih_claims h a)"

lemma id_grown_refl [simp]: "id_grown h h"
  by (simp add: id_grown_def)

lemma id_grown_trans: "id_grown h h' \<Longrightarrow> id_grown h' h'' \<Longrightarrow> id_grown h h''"
  by (fastforce simp: id_grown_def)

lemma id_grown_view: "id_grown h h' \<Longrightarrow> id_allocated h i \<Longrightarrow> view_Identity h' i = view_Identity h i"
  by (auto simp: id_grown_def id_allocated_def view_Identity_def map_option_case split: option.split)

lemma id_grown_allocated: "id_grown h h' \<Longrightarrow> id_allocated h i \<Longrightarrow> id_allocated h' i"
  by (fastforce simp: id_grown_def id_allocated_def)

text \<open>A clone has the value of its original, in fresh memory, and nothing else changes.\<close>

lemma Identity_Clone_spec:
  assumes "Identity_Clone i h = (c, h')" "id_allocated h i"
  shows "view_Identity h' c = view_Identity h i" "id_fresh h c" "id_allocated h' c" "id_grown h h'"
  using assms
  by (auto simp: Identity_Clone_def slices_Clone_def maps_Clone_def view_Identity_def id_fresh_def id_allocated_def
      id_grown_def split: option.splits)

lemma Identity_Clone_nil:
  "id_Roles i = None \<Longrightarrow> id_Claims i = None \<Longrightarrow> Identity_Clone i h = (i, h)"
  by (simp add: Identity_Clone_def slices_Clone_def maps_Clone_def)

section \<open>A context is a record of values\<close>

text \<open>
  What a request carries, as plain values, and the writes that build it. A foreign write is
  \<^verbatim>\<open>context.WithValue\<close> by another package, whose keys have another type.
\<close>

record baggage =
  bg_TraceID :: string
  bg_RequestID :: string
  bg_CorrelationID :: string
  bg_CausationID :: string
  bg_TenantID :: string
  bg_UserID :: string
  bg_Identity :: "identity_view option"

datatype ctx_write =
    SetTraceID string
  | SetRequestID string
  | SetCorrelationID string
  | SetCausationID string
  | SetTenantID string
  | SetUserID string
  | SetIdentity Identity
  | SetForeign ctxkey ctxval

fun perform :: "ctx_write \<Rightarrow> vcontext \<times> id_heap \<Rightarrow> vcontext \<times> id_heap" where
  "perform (SetTraceID v) (c, h) = (WithTraceID c v, h)"
| "perform (SetRequestID v) (c, h) = (WithRequestID c v, h)"
| "perform (SetCorrelationID v) (c, h) = (WithCorrelationID c v, h)"
| "perform (SetCausationID v) (c, h) = (WithCausationID c v, h)"
| "perform (SetTenantID v) (c, h) = (WithTenantID c v, h)"
| "perform (SetUserID v) (c, h) = (WithUserID c v, h)"
| "perform (SetIdentity i) (c, h) = WithIdentity c i h"
| "perform (SetForeign k v) (c, h) = (context_WithValue c k v, h)"

fun baggage_step :: "id_heap \<Rightarrow> ctx_write \<Rightarrow> baggage \<Rightarrow> baggage" where
  "baggage_step h (SetTraceID v) b = b\<lparr>bg_TraceID := v\<rparr>"
| "baggage_step h (SetRequestID v) b = b\<lparr>bg_RequestID := v\<rparr>"
| "baggage_step h (SetCorrelationID v) b = b\<lparr>bg_CorrelationID := v\<rparr>"
| "baggage_step h (SetCausationID v) b = b\<lparr>bg_CausationID := v\<rparr>"
| "baggage_step h (SetTenantID v) b = b\<lparr>bg_TenantID := v\<rparr>"
| "baggage_step h (SetUserID v) b = b\<lparr>bg_UserID := v\<rparr>"
| "baggage_step h (SetIdentity i) b = b\<lparr>bg_Identity := Some (view_Identity h i)\<rparr>"
| "baggage_step h (SetForeign k v) b = b"

text \<open>What the readers of both packages report.\<close>

definition read_identity :: "vcontext \<Rightarrow> id_heap \<Rightarrow> identity_view option" where
  "read_identity c h = (case IdentityFromContext c h of ((i, ok), h') \<Rightarrow> if ok then Some (view_Identity h' i) else None)"

definition baggage_of :: "vcontext \<times> id_heap \<Rightarrow> baggage" where
  "baggage_of s = (case s of (c, h) \<Rightarrow>
     \<lparr>bg_TraceID = TraceID c, bg_RequestID = RequestID c, bg_CorrelationID = CorrelationID c,
      bg_CausationID = CausationID c, bg_TenantID = TenantID c, bg_UserID = UserID c,
      bg_Identity = read_identity c h\<rparr>)"

definition held_identity :: "vcontext \<Rightarrow> Identity option" where
  "held_identity c = (case ctx_Value c keyIdentity of CVIdentity i \<Rightarrow> Some i | _ \<Rightarrow> None)"

definition ctx_ok :: "vcontext \<times> id_heap \<Rightarrow> bool" where
  "ctx_ok s \<longleftrightarrow> (\<forall>i \<in> set_option (held_identity (fst s)). id_allocated (snd s) i)"

fun foreign_key :: "ctxkey \<Rightarrow> bool" where
  "foreign_key (CtxKey t n) \<longleftrightarrow> t \<noteq> ''contextx.ctxKey'' \<and> t \<noteq> ''auth.ctxKey''"

fun legal_write :: "id_heap \<Rightarrow> ctx_write \<Rightarrow> bool" where
  "legal_write h (SetIdentity i) \<longleftrightarrow> id_allocated h i"
| "legal_write h (SetForeign k v) \<longleftrightarrow> foreign_key k"
| "legal_write h w \<longleftrightarrow> True"

lemma read_identity_held:
  assumes "ctx_ok (c, h)"
  shows "read_identity c h = map_option (view_Identity h) (held_identity c)"
  using assms Identity_Clone_spec(1)
  by (auto simp: read_identity_def IdentityFromContext_def held_identity_def ctx_ok_def split: ctxval.splits prod.splits)

lemma held_write_other:
  "k \<noteq> keyIdentity \<Longrightarrow> held_identity (context_WithValue c k v) = held_identity c"
  by (simp add: held_identity_def context_WithValue_def)

lemma read_write_other:
  "k \<noteq> keyIdentity \<Longrightarrow> read_identity (context_WithValue c k v) h = read_identity c h"
  by (simp add: read_identity_def IdentityFromContext_def context_WithValue_def)

lemma held_WithIdentity:
  assumes "WithIdentity c i h = (c', h')" "id_allocated h i"
  obtains k where "held_identity c' = Some k" "view_Identity h' k = view_Identity h i" "id_fresh h k"
    "id_allocated h' k" "id_grown h h'" "c' = context_WithValue c keyIdentity (CVIdentity k)"
proof -
  obtain k h1 where k: "Identity_Clone i h = (k, h1)" by fastforce
  from assms(1) k have "c' = context_WithValue c keyIdentity (CVIdentity k)" "h' = h1"
    by (auto simp: WithIdentity_def)
  with Identity_Clone_spec [OF k assms(2)] that show ?thesis
    by (simp add: held_identity_def context_WithValue_def)
qed

lemma slot_foreign:
  assumes "foreign_key k"
  shows "TraceID (context_WithValue c k v) = TraceID c" "RequestID (context_WithValue c k v) = RequestID c"
    "CorrelationID (context_WithValue c k v) = CorrelationID c" "CausationID (context_WithValue c k v) = CausationID c"
    "TenantID (context_WithValue c k v) = TenantID c" "UserID (context_WithValue c k v) = UserID c" "k \<noteq> keyIdentity"
  using assms by (cases k; simp add: slot_get_other code_defs)+

text \<open>One write.\<close>

lemma perform_ok:
  assumes "ctx_ok (c, h)" "legal_write h w" "perform w (c, h) = (c', h')"
  shows "ctx_ok (c', h')" "id_grown h h'" "vctx_Err c' = vctx_Err c"
proof -
  have "ctx_ok (c', h') \<and> id_grown h h' \<and> vctx_Err c' = vctx_Err c"
  proof (cases w)
    case (SetIdentity i)
    then obtain k where "held_identity c' = Some k" "id_allocated h' k" "id_grown h h'"
        "c' = context_WithValue c keyIdentity (CVIdentity k)"
      using assms(2,3) by (auto elim: held_WithIdentity)
    then show ?thesis by (simp add: ctx_ok_def context_WithValue_def)
  next
    case (SetForeign k v)
    then show ?thesis using assms slot_foreign(7) [of k]
      by (auto simp: ctx_ok_def held_write_other) (simp add: context_WithValue_def)
  qed (use assms in \<open>auto simp: ctx_ok_def slot_with held_write_other code_defs, simp_all add: context_WithValue_def\<close>)
  then show "ctx_ok (c', h')" "id_grown h h'" "vctx_Err c' = vctx_Err c" by simp_all
qed

lemma perform_step:
  assumes ok: "ctx_ok (c, h)" and w: "legal_write h w"
  shows "baggage_of (perform w (c, h)) = baggage_step h w (baggage_of (c, h))"
proof (cases w)
  case (SetIdentity i)
  obtain c' h' where p: "WithIdentity c i h = (c', h')" by fastforce
  with w SetIdentity obtain k where k: "held_identity c' = Some k" "view_Identity h' k = view_Identity h i"
      "c' = context_WithValue c keyIdentity (CVIdentity k)"
    by (auto elim: held_WithIdentity)
  have "ctx_ok (c', h')" using perform_ok(1) [OF ok w] p SetIdentity by simp
  from read_identity_held [OF this] have "read_identity c' h' = Some (view_Identity h i)"
    using k(1,2) by simp
  then show ?thesis using SetIdentity p by (simp add: baggage_of_def k(3) slot_get_other code_defs)
next
  case (SetForeign k v)
  then show ?thesis using w by (simp add: baggage_of_def slot_foreign read_write_other)
qed (simp_all add: baggage_of_def slot_with slot_get_other read_write_other code_defs slot_get_put [unfolded slot_with code_defs One_nat_def])

lemma baggage_step_grown:
  "id_grown h h' \<Longrightarrow> legal_write h w \<Longrightarrow> baggage_step h' w b = baggage_step h w b"
  by (cases w) (simp_all add: id_grown_view)

lemma legal_write_grown: "id_grown h h' \<Longrightarrow> legal_write h w \<Longrightarrow> legal_write h' w"
  by (cases w) (simp_all add: id_grown_allocated)

text \<open>
  C13. A context behaves as a record of values: after any sequence of the writers of \<^verbatim>\<open>pkg/contextx\<close>,
  of \<^verbatim>\<open>auth.WithIdentity\<close> and of writes by other packages under their own key types, every reader
  returns the argument of the last write to its own field, the identity with the roles and claims
  it had when it was stored, and no write disturbs another field. The cancellation state of the
  context is untouched.
\<close>

theorem context_refines_record:
  assumes "ctx_ok (c, h)" "\<forall>w \<in> set ws. legal_write h w"
  shows "baggage_of (fold perform ws (c, h)) = fold (baggage_step h) ws (baggage_of (c, h)) \<and>
    vctx_Err (fst (fold perform ws (c, h))) = vctx_Err c"
  using assms
proof (induction ws arbitrary: c h)
  case Nil
  then show ?case by simp
next
  case (Cons w ws)
  obtain c' h' where p: "perform w (c, h) = (c', h')" by fastforce
  from Cons.prems have w: "legal_write h w" and ws: "\<forall>w \<in> set ws. legal_write h w" by simp_all
  note facts = perform_ok [OF Cons.prems(1) w p]
  have ws': "\<forall>w \<in> set ws. legal_write h' w" using ws facts(2) legal_write_grown by blast
  have same: "fold (baggage_step h') ws b = fold (baggage_step h) ws b" for b
    using ws facts(2) by (intro fold_cong) (auto simp: fun_eq_iff baggage_step_grown)
  show ?case
    using Cons.IH [OF facts(1) ws'] perform_step [OF Cons.prems(1) w] facts(3) by (simp add: p same)
qed

text \<open>The theorem at a request that passes two middlewares and a handler.\<close>

theorem context_refines_record_witness:
  "let h = \<lparr>ih_roles = (\<lambda>_. [''admin'']), ih_nroles = 1, ih_claims = (\<lambda>_. Map.empty), ih_nclaims = 0\<rparr>;
       i = \<lparr>id_Subject = ''user-1'', id_TenantID = ''acme'', id_Roles = Some 0, id_Claims = None\<rparr>;
       ws = [SetTraceID ''t1'', SetTenantID ''tn1'', SetIdentity i, SetForeign (CtxKey ''app.key'' 0) (CVString ''x''),
             SetTraceID ''t2'']
   in baggage_of (fold perform ws (RootCtx context_Background, h)) =
        \<lparr>bg_TraceID = ''t2'', bg_RequestID = [], bg_CorrelationID = [], bg_CausationID = [], bg_TenantID = ''tn1'',
         bg_UserID = [],
         bg_Identity = Some \<lparr>iv_Subject = ''user-1'', iv_TenantID = ''acme'', iv_Roles = Some [''admin''], iv_Claims = None\<rparr>\<rparr>"
  unfolding Let_def
  by (subst context_refines_record [THEN conjunct1])
    (simp_all add: ctx_ok_def held_identity_def id_allocated_def baggage_of_def slot_get_base read_identity_def
      IdentityFromContext_def view_Identity_def)

section \<open>Nobody can tamper with the identity of a context\<close>

text \<open>
  The code outside the package, as an adversary that holds references to slices and maps. It may
  write through any reference it holds, allocate, clone, store further identities, derive
  contexts, and read the identity of any context it holds, which gives it the references of the
  returned copy. It cannot forge references.
\<close>

record client =
  cl_heap :: id_heap
  cl_roles :: "nat set"
  cl_claims :: "nat set"

definition learn :: "Identity \<Rightarrow> id_heap \<Rightarrow> client \<Rightarrow> client" where
  "learn i h s = \<lparr>cl_heap = h, cl_roles = cl_roles s \<union> set_option (id_Roles i), cl_claims = cl_claims s \<union> set_option (id_Claims i)\<rparr>"

definition holds :: "client \<Rightarrow> Identity \<Rightarrow> bool" where
  "holds s i \<longleftrightarrow> set_option (id_Roles i) \<subseteq> cl_roles s \<and> set_option (id_Claims i) \<subseteq> cl_claims s"

inductive client_step :: "vcontext set \<times> client \<Rightarrow> vcontext set \<times> client \<Rightarrow> bool" where
  set_role: "a \<in> cl_roles s \<Longrightarrow> n < length (ih_roles (cl_heap s) a) \<Longrightarrow>
    client_step (cs, s) (cs, s\<lparr>cl_heap := (cl_heap s)\<lparr>ih_roles := (ih_roles (cl_heap s))(a := (ih_roles (cl_heap s) a)[n := r])\<rparr>\<rparr>)"
| set_claim: "a \<in> cl_claims s \<Longrightarrow>
    client_step (cs, s) (cs, s\<lparr>cl_heap := (cl_heap s)\<lparr>ih_claims := (ih_claims (cl_heap s))(a := (ih_claims (cl_heap s) a)(k := v))\<rparr>\<rparr>)"
| new_roles: "client_step (cs, s)
    (cs, s\<lparr>cl_heap := (cl_heap s)\<lparr>ih_roles := (ih_roles (cl_heap s))(ih_nroles (cl_heap s) := rs), ih_nroles := Suc (ih_nroles (cl_heap s))\<rparr>,
           cl_roles := insert (ih_nroles (cl_heap s)) (cl_roles s)\<rparr>)"
| new_claims: "client_step (cs, s)
    (cs, s\<lparr>cl_heap := (cl_heap s)\<lparr>ih_claims := (ih_claims (cl_heap s))(ih_nclaims (cl_heap s) := m), ih_nclaims := Suc (ih_nclaims (cl_heap s))\<rparr>,
           cl_claims := insert (ih_nclaims (cl_heap s)) (cl_claims s)\<rparr>)"
| clone: "holds s i \<Longrightarrow> Identity_Clone i (cl_heap s) = (i', h') \<Longrightarrow> client_step (cs, s) (cs, learn i' h' s)"
| read_ctx: "c \<in> cs \<Longrightarrow> IdentityFromContext c (cl_heap s) = ((i', ok), h') \<Longrightarrow> client_step (cs, s) (cs, learn i' h' s)"
| store: "c \<in> cs \<Longrightarrow> holds s i \<Longrightarrow> WithIdentity c i (cl_heap s) = (c', h') \<Longrightarrow>
    client_step (cs, s) (insert c' cs, s\<lparr>cl_heap := h'\<rparr>)"
| derive: "c \<in> cs \<Longrightarrow> k \<noteq> keyIdentity \<Longrightarrow> client_step (cs, s) (insert (context_WithValue c k (CVString v)) cs, s)"

text \<open>The references of the contexts and those of the code outside are disjoint.\<close>

definition apart :: "client \<Rightarrow> Identity \<Rightarrow> bool" where
  "apart s k \<longleftrightarrow> id_allocated (cl_heap s) k \<and> set_option (id_Roles k) \<inter> cl_roles s = {} \<and>
     set_option (id_Claims k) \<inter> cl_claims s = {}"

definition separated :: "vcontext set \<times> client \<Rightarrow> bool" where
  "separated st = (case st of (cs, s) \<Rightarrow>
     (\<forall>a \<in> cl_roles s. a < ih_nroles (cl_heap s)) \<and> (\<forall>a \<in> cl_claims s. a < ih_nclaims (cl_heap s)) \<and>
     (\<forall>c \<in> cs. \<forall>k \<in> set_option (held_identity c). apart s k))"

lemma holds_allocated: "separated (cs, s) \<Longrightarrow> holds s i \<Longrightarrow> id_allocated (cl_heap s) i"
  by (auto simp: separated_def holds_def id_allocated_def)

lemma learn_apart:
  assumes "apart s k" "id_grown (cl_heap s) h'" "id_fresh (cl_heap s) i'"
  shows "apart (learn i' h' s) k" "view_Identity h' k = view_Identity (cl_heap s) k"
proof -
  show "apart (learn i' h' s) k"
    using assms id_grown_allocated [of "cl_heap s" h' k]
    by (cases "id_Roles i'"; cases "id_Claims i'") (auto simp: apart_def learn_def id_fresh_def id_allocated_def)
  show "view_Identity h' k = view_Identity (cl_heap s) k"
    using assms id_grown_view by (simp add: apart_def)
qed

lemma learn_separated:
  assumes "separated (cs, s)" "id_grown (cl_heap s) h'" "id_fresh (cl_heap s) i'" "id_allocated h' i'"
  shows "separated (cs, learn i' h' s)"
  using assms learn_apart [of s _ h' i']
  by (fastforce simp: separated_def learn_def id_grown_def id_allocated_def)

lemma read_learns:
  assumes "ctx_ok (c, h)" "IdentityFromContext c h = ((i', ok), h')"
  shows "id_grown h h'" "id_fresh h i'" "id_allocated h' i'"
  using assms Identity_Clone_spec(2-4)
  by (auto simp: IdentityFromContext_def ctx_ok_def held_identity_def zero_Identity_def id_fresh_def id_allocated_def
      split: ctxval.splits prod.splits)

lemma separated_ctx_ok: "separated (cs, s) \<Longrightarrow> c \<in> cs \<Longrightarrow> ctx_ok (c, cl_heap s)"
  by (auto simp: separated_def ctx_ok_def apart_def)

text \<open>A write through a reference the client holds misses every identity held by a context.\<close>

lemma apart_write:
  "apart s k \<Longrightarrow> a \<in> cl_roles s \<Longrightarrow>
     apart (s\<lparr>cl_heap := (cl_heap s)\<lparr>ih_roles := (ih_roles (cl_heap s))(a := rs)\<rparr>\<rparr>) k \<and>
     view_Identity ((cl_heap s)\<lparr>ih_roles := (ih_roles (cl_heap s))(a := rs)\<rparr>) k = view_Identity (cl_heap s) k"
  "apart s k \<Longrightarrow> b \<in> cl_claims s \<Longrightarrow>
     apart (s\<lparr>cl_heap := (cl_heap s)\<lparr>ih_claims := (ih_claims (cl_heap s))(b := m)\<rparr>\<rparr>) k \<and>
     view_Identity ((cl_heap s)\<lparr>ih_claims := (ih_claims (cl_heap s))(b := m)\<rparr>) k = view_Identity (cl_heap s) k"
  by (cases "id_Roles k"; cases "id_Claims k"; auto simp: apart_def id_allocated_def view_Identity_def)+

lemma apart_new:
  "apart s k \<Longrightarrow>
     apart (s\<lparr>cl_heap := (cl_heap s)\<lparr>ih_roles := (ih_roles (cl_heap s))(ih_nroles (cl_heap s) := rs), ih_nroles := Suc (ih_nroles (cl_heap s))\<rparr>,
              cl_roles := insert (ih_nroles (cl_heap s)) (cl_roles s)\<rparr>) k \<and>
     view_Identity ((cl_heap s)\<lparr>ih_roles := (ih_roles (cl_heap s))(ih_nroles (cl_heap s) := rs), ih_nroles := Suc (ih_nroles (cl_heap s))\<rparr>) k =
       view_Identity (cl_heap s) k"
  "apart s k \<Longrightarrow>
     apart (s\<lparr>cl_heap := (cl_heap s)\<lparr>ih_claims := (ih_claims (cl_heap s))(ih_nclaims (cl_heap s) := m), ih_nclaims := Suc (ih_nclaims (cl_heap s))\<rparr>,
              cl_claims := insert (ih_nclaims (cl_heap s)) (cl_claims s)\<rparr>) k \<and>
     view_Identity ((cl_heap s)\<lparr>ih_claims := (ih_claims (cl_heap s))(ih_nclaims (cl_heap s) := m), ih_nclaims := Suc (ih_nclaims (cl_heap s))\<rparr>) k =
       view_Identity (cl_heap s) k"
  by (cases "id_Roles k"; cases "id_Claims k"; auto simp: apart_def id_allocated_def view_Identity_def)+

text \<open>Storing allocates behind the back of the client.\<close>

lemma apart_store:
  assumes "apart s k" "id_grown (cl_heap s) h'"
  shows "apart (s\<lparr>cl_heap := h'\<rparr>) k" "view_Identity h' k = view_Identity (cl_heap s) k"
  using assms id_grown_allocated [of "cl_heap s" h' k] id_grown_view [of "cl_heap s" h' k] by (auto simp: apart_def)

lemma store_separated:
  assumes sep: "separated (cs, s)" and i: "holds s i" and w: "WithIdentity c i (cl_heap s) = (c', h')"
  obtains k where "held_identity c' = Some k" "separated (insert c' cs, s\<lparr>cl_heap := h'\<rparr>)"
    "view_Identity h' k = view_Identity (cl_heap s) i" "id_grown (cl_heap s) h'"
proof -
  from held_WithIdentity [OF w holds_allocated [OF sep i]] obtain k where
    k: "held_identity c' = Some k" "view_Identity h' k = view_Identity (cl_heap s) i" "id_fresh (cl_heap s) k"
      "id_allocated h' k" "id_grown (cl_heap s) h'" by metis
  have "apart (s\<lparr>cl_heap := h'\<rparr>) k"
    using k(3,4) sep by (fastforce simp: apart_def id_fresh_def separated_def)
  then have "separated (insert c' cs, s\<lparr>cl_heap := h'\<rparr>)"
    using sep k(1,5) apart_store(1) [OF _ k(5)] by (fastforce simp: separated_def id_grown_def)
  with that k show ?thesis by blast
qed

lemma client_step_keeps:
  assumes "client_step st st'" "separated st" "apart (snd st) k"
  shows "apart (snd st') k \<and> view_Identity (cl_heap (snd st')) k = view_Identity (cl_heap (snd st)) k"
  using assms
proof cases
  case (clone s i i' h' cs)
  then have "id_grown (cl_heap s) h'" "id_fresh (cl_heap s) i'"
    using Identity_Clone_spec(2,4) holds_allocated assms(2) by blast+
  then show ?thesis using clone(1,2) assms(3) learn_apart [of s k h' i'] by (simp add: learn_def)
next
  case (read_ctx c cs s i' ok h')
  then have "id_grown (cl_heap s) h'" "id_fresh (cl_heap s) i'"
    using read_learns(1,2) separated_ctx_ok assms(2) by blast+
  then show ?thesis using read_ctx(1,2) assms(3) learn_apart [of s k h' i'] by (simp add: learn_def)
next
  case (store c cs s i c' h')
  then have "id_grown (cl_heap s) h'"
    using store_separated [of cs s i c c' h'] assms(2) by metis
  then show ?thesis using store(1,2) assms(3) apart_store [of s k h'] by simp
qed (simp_all add: apart_write apart_new del: fun_upd_apply)

lemma client_step_separated:
  assumes "client_step st st'" "separated st"
  shows "separated st'"
  using assms
proof cases
  case (clone s i i' h' cs)
  then show ?thesis
    using Identity_Clone_spec(2-4) holds_allocated learn_separated assms(2) by metis
next
  case (read_ctx c cs s i' ok h')
  then show ?thesis
    using read_learns separated_ctx_ok learn_separated assms(2) by metis
next
  case (store c cs s i c' h')
  then show ?thesis using store_separated [of cs s i c c' h'] assms(2) by metis
next
  case (derive c cs k s v)
  then show ?thesis using assms(2) by (auto simp: separated_def held_write_other)
next
  case (new_roles cs s rs)
  then show ?thesis using assms(2) apart_new(1) [of s] by (simp add: separated_def less_Suc_eq)
next
  case (new_claims cs s m)
  then show ?thesis using assms(2) apart_new(2) [of s] by (simp add: separated_def less_Suc_eq)
qed (use assms in \<open>auto simp: separated_def apart_write simp del: fun_upd_apply\<close>)

lemma client_steps_keep:
  assumes "client_step\<^sup>*\<^sup>* st st'" "separated st" "apart (snd st) k"
  shows "separated st' \<and> apart (snd st') k \<and> view_Identity (cl_heap (snd st')) k = view_Identity (cl_heap (snd st)) k"
  using assms
proof (induction rule: rtranclp_induct)
  case (step y z)
  then show ?case using client_step_keeps [of y z k] client_step_separated [of y z] by simp
qed simp


text \<open>
  The theorem at the caller that changes the slice it passed in, reads the identity, and changes
  the copy.
\<close>

definition demo_client :: client where
  "demo_client = \<lparr>cl_heap = \<lparr>ih_roles = (\<lambda>_. [''admin'']), ih_nroles = 1, ih_claims = (\<lambda>_. Map.empty), ih_nclaims = 0\<rparr>,
     cl_roles = {0}, cl_claims = {}\<rparr>"

definition demo_identity :: Identity where
  "demo_identity = \<lparr>id_Subject = ''user-1'', id_TenantID = [], id_Roles = Some 0, id_Claims = None\<rparr>"


end
