(* ===== verification/Adapters.thy ===== *)
theory Adapters
  imports Command_Bus Query_Bus
begin

text \<open>
  The small adapters around the ports: use cases and units of work (\<^verbatim>\<open>application/usecase\<close>,
  \<^verbatim>\<open>application/unitofwork.go\<close>), gRPC interceptors (\<^verbatim>\<open>transport/grpc/interceptor.go\<close>), health checks,
  projectors, outbox records and headers, and logging (\<^verbatim>\<open>ports/logger\<close> with the example's adapter on
  \<^verbatim>\<open>log/slog\<close>).
\<close>

section \<open>application/usecase\<close>

text \<open>A use case is its \<^verbatim>\<open>Execute\<close> method, over the state of the service.\<close>

type_synonym ('c, 'd, 'w, 'r) UseCase = "'c \<Rightarrow> 'd \<Rightarrow> 'w \<Rightarrow> 'r \<times> goerr option \<times> 'w"

definition Func_Execute :: "('c, 'd, 'w, 'r) UseCase \<Rightarrow> ('c, 'd, 'w, 'r) UseCase" where
  "Func_Execute f ctx input w = f ctx input w"

definition AsCommandHandler :: "('c, 'd, 'w, 'r) UseCase \<Rightarrow> ('c, 'd, 'w, 'r) cmd_handler" where
  "AsCommandHandler uc = (\<lambda>ctx input w. uc ctx input w)"

definition AsQueryHandler :: "('c, 'd, 'w, 'r) UseCase \<Rightarrow> ('c, 'd, 'w, 'r) qry_handler" where
  "AsQueryHandler uc = (\<lambda>ctx input w. uc ctx input w)"

text \<open>A use case lifted to a bus without middlewares is the use case.\<close>

lemma usecase_on_command_bus:
  assumes "wf_gotypes ty" "stable_name ty t" "typeOf ty v = t" "cmd_middlewares b = []" "uc ctx v w = (r, err, w')"
  shows "cmd_Dispatch ty (cmd_Register ty t (AsCommandHandler uc) b) ctx (Some v) w = (Some r, err, w')"
  by (simp add: cmd_reaches_typed [OF assms(1-3)] assms(4,5) cmdc.chain_Nil cmd_typed_match [OF assms(1,3)] AsCommandHandler_def)

lemma usecase_on_query_bus:
  assumes "wf_gotypes ty" "stable_name ty t" "typeOf ty v = t" "qry_middlewares b = []" "uc ctx v w = (r, err, w')"
  shows "qry_Dispatch ty (qry_Register ty t (AsQueryHandler uc) b) ctx (Some v) w = (Some r, err, w')"
  by (simp add: qry_register_dispatch [OF assms(1-4)] assms(5) AsQueryHandler_def)

section \<open>application/unitofwork.go\<close>

type_synonym ('c, 'w) TxFunc = "'c \<Rightarrow> 'w \<Rightarrow> goerr option \<times> 'w"
type_synonym ('c, 'w) UnitOfWork = "'c \<Rightarrow> ('c, 'w) TxFunc \<Rightarrow> 'w \<Rightarrow> goerr option \<times> 'w"

definition UnitOfWorkFunc_Do :: "('c, 'w) UnitOfWork \<Rightarrow> ('c, 'w) UnitOfWork" where
  "UnitOfWorkFunc_Do f ctx fn w = f ctx fn w"

text \<open>\<open>WithinTx\<close> is the method of the \<^verbatim>\<open>database.TxManager\<close>, which a driver supplies.\<close>

definition UnitOfWorkFromTxManager :: "('c, 'w) UnitOfWork \<Rightarrow> ('c, 'w) UnitOfWork" where
  "UnitOfWorkFromTxManager WithinTx = UnitOfWorkFunc_Do (\<lambda>ctx fn. WithinTx ctx fn)"

text \<open>
  The contract: the function sees a context of the transaction, its changes are kept when it
  returns nil, and an error rolls them back and is reported.
\<close>

definition transactional :: "('c, 'w) UnitOfWork \<Rightarrow> bool" where
  "transactional u \<longleftrightarrow>
     (\<forall>ctx fn w err w'. u ctx fn w = (err, w') \<longrightarrow>
        (case err of
           None \<Rightarrow> (\<exists>tctx. fn tctx w = (None, w'))
         | Some e \<Rightarrow> w' = w))"

lemma UnitOfWorkFromTxManager_transactional:
  "transactional (UnitOfWorkFromTxManager tm) \<longleftrightarrow> transactional tm"
  by (simp add: transactional_def UnitOfWorkFromTxManager_def UnitOfWorkFunc_Do_def)

section \<open>transport/grpc/interceptor.go\<close>

record 'i InterceptorProvider =
  ip_UnaryInterceptors :: "'i list"
  ip_StreamInterceptors :: "'i list"

definition combine_step :: "'i InterceptorProvider option \<Rightarrow> 'i list \<times> 'i list \<Rightarrow> 'i list \<times> 'i list" where
  "combine_step p acc =
     (case p of None \<Rightarrow> acc
      | Some p \<Rightarrow> (fst acc @ ip_UnaryInterceptors p, snd acc @ ip_StreamInterceptors p))"

definition CombineInterceptorProviders :: "'i InterceptorProvider option list \<Rightarrow> 'i list \<times> 'i list" where
  "CombineInterceptorProviders ps = fold combine_step ps ([], [])"

definition CollectServiceProviders :: "'p option list \<Rightarrow> 'p list" where
  "CollectServiceProviders ps = fold (\<lambda>p out. case p of None \<Rightarrow> out | Some q \<Rightarrow> out @ [q]) ps []"

text \<open>Both keep the order of the providers and skip the nil ones.\<close>

lemma CombineInterceptorProviders_flat:
  "CombineInterceptorProviders ps =
     (concat (map ip_UnaryInterceptors (List.map_filter id ps)), concat (map ip_StreamInterceptors (List.map_filter id ps)))"
proof -
  have "fold combine_step ps (u, s) =
      (u @ concat (map ip_UnaryInterceptors (List.map_filter id ps)),
       s @ concat (map ip_StreamInterceptors (List.map_filter id ps)))" for u s
    by (induction ps arbitrary: u s) (auto simp: combine_step_def split: option.split)
  then show ?thesis by (simp add: CombineInterceptorProviders_def)
qed

lemma CollectServiceProviders_filter: "CollectServiceProviders ps = List.map_filter id ps"
proof -
  have "fold (\<lambda>p out. case p of None \<Rightarrow> out | Some q \<Rightarrow> out @ [q]) ps out = out @ List.map_filter id ps" for out
    by (induction ps arbitrary: out) (auto split: option.split)
  then show ?thesis by (simp add: CollectServiceProviders_def)
qed

section \<open>ports/health\<close>

record ('c, 'w) checkFunc =
  hc_name :: string
  hc_fn :: "'c \<Rightarrow> 'w \<Rightarrow> goerr option \<times> 'w"

definition NewCheck :: "string \<Rightarrow> ('c \<Rightarrow> 'w \<Rightarrow> goerr option \<times> 'w) \<Rightarrow> ('c, 'w) checkFunc" where
  "NewCheck name fn = \<lparr>hc_name = name, hc_fn = fn\<rparr>"

definition checkFunc_Name :: "('c, 'w) checkFunc \<Rightarrow> string" where "checkFunc_Name c = hc_name c"

definition checkFunc_Check :: "('c, 'w) checkFunc \<Rightarrow> 'c \<Rightarrow> 'w \<Rightarrow> goerr option \<times> 'w" where
  "checkFunc_Check c ctx = hc_fn c ctx"

section \<open>ports/logger\<close>

definition LevelDebug :: int where [code_defs]: "LevelDebug = -4"
definition LevelInfo :: int where [code_defs]: "LevelInfo = 0"
definition LevelWarn :: int where [code_defs]: "LevelWarn = 4"
definition LevelError :: int where [code_defs]: "LevelError = 8"

record Attr =
  at_Key :: string
  at_Value :: any

definition F :: "string \<Rightarrow> any \<Rightarrow> Attr" where "F key value = \<lparr>at_Key = key, at_Value = value\<rparr>"

text \<open>A logger is its \<^verbatim>\<open>Log\<close> method; the wrappers fix the level.\<close>

type_synonym ('c, 'w) log_fn = "'c \<Rightarrow> int \<Rightarrow> string \<Rightarrow> Attr list \<Rightarrow> 'w \<Rightarrow> 'w"

definition log_Debug :: "('c, 'w) log_fn \<Rightarrow> 'c \<Rightarrow> string \<Rightarrow> Attr list \<Rightarrow> 'w \<Rightarrow> 'w" where
  "log_Debug l ctx msg attrs = l ctx LevelDebug msg attrs"
definition log_Info :: "('c, 'w) log_fn \<Rightarrow> 'c \<Rightarrow> string \<Rightarrow> Attr list \<Rightarrow> 'w \<Rightarrow> 'w" where
  "log_Info l ctx msg attrs = l ctx LevelInfo msg attrs"
definition log_Warn :: "('c, 'w) log_fn \<Rightarrow> 'c \<Rightarrow> string \<Rightarrow> Attr list \<Rightarrow> 'w \<Rightarrow> 'w" where
  "log_Warn l ctx msg attrs = l ctx LevelWarn msg attrs"
definition log_Error :: "('c, 'w) log_fn \<Rightarrow> 'c \<Rightarrow> string \<Rightarrow> Attr list \<Rightarrow> 'w \<Rightarrow> 'w" where
  "log_Error l ctx msg attrs = l ctx LevelError msg attrs"

section \<open>examples/minimal/infra/slogger\<close>

text \<open>
  The part of \<^verbatim>\<open>log/slog\<close> the adapter uses, at the level of records: a handler has a minimal level
  and the attributes bound so far, and the output is the list of records. The JSON encoding of a
  record is not modelled.
\<close>

type_synonym slog_attr = "string \<times> any"

record slog_logger =
  sl_level :: int
  sl_attrs :: "slog_attr list"

type_synonym slog_record = "int \<times> string \<times> slog_attr list"

definition slog_Any :: "string \<Rightarrow> any \<Rightarrow> slog_attr" where "slog_Any key value = (key, value)"

definition slog_Enabled :: "slog_logger \<Rightarrow> int \<Rightarrow> bool" where "slog_Enabled l level \<longleftrightarrow> sl_level l \<le> level"

definition slog_LogAttrs :: "slog_logger \<Rightarrow> int \<Rightarrow> string \<Rightarrow> slog_attr list \<Rightarrow> slog_record list \<Rightarrow> slog_record list" where
  "slog_LogAttrs l level msg attrs out =
     (if slog_Enabled l level then out @ [(level, msg, sl_attrs l @ attrs)] else out)"

definition slog_With :: "slog_logger \<Rightarrow> slog_attr list \<Rightarrow> slog_logger" where
  "slog_With l attrs = l\<lparr>sl_attrs := sl_attrs l @ attrs\<rparr>"

record slogger = sg_inner :: slog_logger

definition slogger_New :: "int \<Rightarrow> slogger" where
  "slogger_New level = \<lparr>sg_inner = \<lparr>sl_level = level, sl_attrs = []\<rparr>\<rparr>"

text \<open>The loops that fill a slice of the length of the argument.\<close>

definition toSlogAttrs :: "Attr list \<Rightarrow> slog_attr list" where
  "toSlogAttrs ins = map (\<lambda>a. slog_Any (at_Key a) (at_Value a)) ins"

definition toAnySlice :: "slog_attr list \<Rightarrow> slog_attr list" where
  "toAnySlice ins = map (\<lambda>a. a) ins"

definition slogger_Log :: "slogger \<Rightarrow> ('c, slog_record list) log_fn" where
  "slogger_Log l ctx level msg attrs out = slog_LogAttrs (sg_inner l) level msg (toSlogAttrs attrs) out"

definition slogger_With :: "slogger \<Rightarrow> Attr list \<Rightarrow> slogger" where
  "slogger_With l attrs = \<lparr>sg_inner = slog_With (sg_inner l) (toAnySlice (toSlogAttrs attrs))\<rparr>"

definition slogger_Enabled :: "slogger \<Rightarrow> int \<Rightarrow> bool" where
  "slogger_Enabled l level = slog_Enabled (sg_inner l) level"

text \<open>
  A derived logger binds attributes in front of those of each call, at the same threshold, and
  binding in two steps is binding once.
\<close>

lemma slogger_With_Log:
  "slogger_Log (slogger_With l bs) ctx level msg as out = slogger_Log l ctx level msg (bs @ as) out"
  by (simp add: slogger_Log_def slogger_With_def slog_LogAttrs_def slog_With_def slog_Enabled_def toSlogAttrs_def toAnySlice_def)

lemma slogger_threshold:
  "slogger_Log l ctx level msg as out \<noteq> out \<longleftrightarrow> slogger_Enabled l level"
  by (simp add: slogger_Log_def slog_LogAttrs_def slogger_Enabled_def)

lemma slogger_Info_default:
  "log_Debug (slogger_Log (slogger_New LevelInfo)) ctx msg as out = out"
  "log_Warn (slogger_Log (slogger_New LevelInfo)) ctx msg as out = out @ [(4, msg, toSlogAttrs as)]"
  by (simp_all add: log_Debug_def log_Warn_def slogger_Log_def slogger_New_def slog_LogAttrs_def slog_Enabled_def code_defs)

section \<open>eventsourcing: streams and projectors\<close>

record StreamID =
  st_AggregateType :: string
  st_AggregateID :: string

record 'e PersistedEvent =
  pe_Event :: 'e
  pe_StreamID :: StreamID
  pe_StreamVersion :: i64
  pe_GlobalPosition :: i64

record ('c, 'e, 'w) ProjectorFunc =
  pf_ProjectorName :: string
  pf_ProjectFn :: "'c \<Rightarrow> 'e PersistedEvent \<Rightarrow> 'w \<Rightarrow> goerr option \<times> 'w"

definition ProjectorFunc_Name :: "('c, 'e, 'w) ProjectorFunc \<Rightarrow> string" where
  "ProjectorFunc_Name p = pf_ProjectorName p"

definition ProjectorFunc_Project :: "('c, 'e, 'w) ProjectorFunc \<Rightarrow> 'c \<Rightarrow> 'e PersistedEvent \<Rightarrow> 'w \<Rightarrow> goerr option \<times> 'w" where
  "ProjectorFunc_Project p ctx event w = pf_ProjectFn p ctx event w"

section \<open>eventbus: outbox records and headers\<close>

text \<open>Rows of an outbox and the metadata keys of a codec; stores, relays and codecs are adapters of other repositories.\<close>

record OutboxRecord =
  ob_ID :: string
  ob_EventID :: string
  ob_Topic :: string
  ob_EventName :: string
  ob_AggregateID :: string
  ob_AggregateType :: string
  ob_Payload :: string
  ob_Headers :: "string \<Rightarrow> string option"
  ob_CreatedAt :: int
  ob_AvailableAt :: int
  ob_Attempts :: i64

definition HeaderEventID :: string where "HeaderEventID = ''event_id''"
definition HeaderEventName :: string where "HeaderEventName = ''event_name''"
definition HeaderAggregateID :: string where "HeaderAggregateID = ''aggregate_id''"
definition HeaderAggregateType :: string where "HeaderAggregateType = ''aggregate_type''"
definition HeaderOccurredAt :: string where "HeaderOccurredAt = ''occurred_at''"
definition HeaderEventVersion :: string where "HeaderEventVersion = ''event_version''"
definition HeaderTraceID :: string where "HeaderTraceID = ''trace_id''"
definition HeaderCausationID :: string where "HeaderCausationID = ''causation_id''"
definition HeaderCorrelationID :: string where "HeaderCorrelationID = ''correlation_id''"

text \<open>No two headers share a key, so a codec that writes all of them loses none.\<close>

lemma headers_distinct:
  "distinct [HeaderEventID, HeaderEventName, HeaderAggregateID, HeaderAggregateType, HeaderOccurredAt, HeaderEventVersion,
     HeaderTraceID, HeaderCausationID, HeaderCorrelationID]"
  by (simp add: HeaderEventID_def HeaderEventName_def HeaderAggregateID_def HeaderAggregateType_def HeaderOccurredAt_def
      HeaderEventVersion_def HeaderTraceID_def HeaderCausationID_def HeaderCorrelationID_def)

end
