(* ===== verification/Config.thy ===== *)
theory Config
  imports Errorsx
begin

text \<open>
  \<^verbatim>\<open>config/\<close>: the schema and the provider built on the viper library. Viper is code of another
  repository: its operations are the record \<open>viper\<close>, an argument of every definition that calls
  it, and what its documentation promises is the predicate \<open>viper_laws\<close>. \<open>quote\<close> is the verb \<^verbatim>\<open>%q\<close> of
  \<^verbatim>\<open>fmt\<close>, which only shapes the text of an error.
\<close>

section \<open>schema.go\<close>

text \<open>A \<^verbatim>\<open>float64\<close> is kept as its bits and a \<^verbatim>\<open>time.Duration\<close> as its nanoseconds: nothing here computes with them.\<close>

type_synonym float64 = "64 word"
type_synonym Duration = i64

record cfg_App =
  ca_Name :: string
  ca_Env :: string
  ca_Version :: string
  ca_InstanceID :: string
  ca_Description :: string

record cfg_Logger =
  cl_Driver :: string
  cl_Level :: string
  cl_Format :: string

record cfg_Observability =
  co_Driver :: string
  co_Endpoint :: string
  co_Insecure :: bool
  co_SampleRatio :: float64
  co_ServiceName :: string
  co_MetricPrefix :: string

record cfg_HTTP =
  ch_Driver :: string
  ch_Addr :: string
  ch_ReadTimeout :: Duration
  ch_WriteTimeout :: Duration
  ch_ShutdownTimeout :: Duration

record cfg_GRPC =
  cg_Driver :: string
  cg_Addr :: string
  cg_ShutdownTimeout :: Duration

record cfg_GraphQL =
  cq_Driver :: string
  cq_Path :: string
  cq_Playground :: bool

record cfg_Database =
  cd_Driver :: string
  cd_DSN :: string
  cd_MaxOpenConns :: i64
  cd_MaxIdleConns :: i64
  cd_ConnMaxLifetime :: Duration

record cfg_Cache =
  cc_Driver :: string
  cc_Endpoint :: string
  cc_Namespace :: string
  cc_TTL :: Duration

record cfg_Messaging =
  cm_Driver :: string
  cm_Brokers :: "string list"
  cm_ConsumerGroup :: string
  cm_Options :: "string \<Rightarrow> string option"

record cfg_Storage =
  cs_Driver :: string
  cs_Endpoint :: string
  cs_Bucket :: string
  cs_Region :: string

record Root =
  rt_App :: cfg_App
  rt_Logger :: cfg_Logger
  rt_Observability :: cfg_Observability
  rt_HTTP :: cfg_HTTP
  rt_GRPC :: cfg_GRPC
  rt_GraphQL :: cfg_GraphQL
  rt_Database :: cfg_Database
  rt_Cache :: cfg_Cache
  rt_Messaging :: cfg_Messaging
  rt_Storage :: cfg_Storage

text \<open>\<^verbatim>\<open>var cfg config.Root\<close>\<close>

definition zero_Root :: Root where
  "zero_Root =
     \<lparr>rt_App = \<lparr>ca_Name = [], ca_Env = [], ca_Version = [], ca_InstanceID = [], ca_Description = []\<rparr>,
      rt_Logger = \<lparr>cl_Driver = [], cl_Level = [], cl_Format = []\<rparr>,
      rt_Observability = \<lparr>co_Driver = [], co_Endpoint = [], co_Insecure = False, co_SampleRatio = 0,
                          co_ServiceName = [], co_MetricPrefix = []\<rparr>,
      rt_HTTP = \<lparr>ch_Driver = [], ch_Addr = [], ch_ReadTimeout = 0, ch_WriteTimeout = 0, ch_ShutdownTimeout = 0\<rparr>,
      rt_GRPC = \<lparr>cg_Driver = [], cg_Addr = [], cg_ShutdownTimeout = 0\<rparr>,
      rt_GraphQL = \<lparr>cq_Driver = [], cq_Path = [], cq_Playground = False\<rparr>,
      rt_Database = \<lparr>cd_Driver = [], cd_DSN = [], cd_MaxOpenConns = 0, cd_MaxIdleConns = 0, cd_ConnMaxLifetime = 0\<rparr>,
      rt_Cache = \<lparr>cc_Driver = [], cc_Endpoint = [], cc_Namespace = [], cc_TTL = 0\<rparr>,
      rt_Messaging = \<lparr>cm_Driver = [], cm_Brokers = [], cm_ConsumerGroup = [], cm_Options = Map.empty\<rparr>,
      rt_Storage = \<lparr>cs_Driver = [], cs_Endpoint = [], cs_Bucket = [], cs_Region = []\<rparr>\<rparr>"

section \<open>viper.go\<close>

text \<open>The callback of \<^verbatim>\<open>OnConfigChange\<close>: the closure that calls \<^verbatim>\<open>p.fireListeners()\<close>.\<close>

datatype callback = FireListeners

record ('v, 'd) viper =
  vp_New :: 'v
  vp_SetEnvKeyReplacer :: "(string \<Rightarrow> string) \<Rightarrow> 'v \<Rightarrow> 'v"
  vp_SetConfigFile :: "string \<Rightarrow> 'v \<Rightarrow> 'v"
  vp_MergeInConfig :: "'v \<Rightarrow> goerr option \<times> 'v"
  vp_OnConfigChange :: "callback \<Rightarrow> 'v \<Rightarrow> 'v"
  vp_WatchConfig :: "'v \<Rightarrow> 'v"
  vp_SetEnvPrefix :: "string \<Rightarrow> 'v \<Rightarrow> 'v"
  vp_AutomaticEnv :: "'v \<Rightarrow> 'v"
  vp_Unmarshal :: "'v \<Rightarrow> 'd \<Rightarrow> goerr option \<times> 'd"
  vp_Get :: "string \<Rightarrow> 'v \<Rightarrow> any"

record Source =
  src_Type :: string
  src_Path :: string
  src_EnvPrefix :: string
  src_Watch :: bool

record ViperOptions =
  vo_Sources :: "Source list"
  vo_EnvKeyReplacer :: "(string \<Rightarrow> string) option"

record ('v, 'l) ViperProvider =
  pv_v :: 'v
  pv_listeners :: "'l list"

text \<open>\<^verbatim>\<open>strings.NewReplacer(".", "_")\<close>\<close>

definition dots_to_underscores :: "string \<Rightarrow> string" where
  "dots_to_underscores = map (\<lambda>c. if c = CHR ''.'' then CHR ''_'' else c)"

text \<open>The body of the loop over the sources, and the loop.\<close>

definition read_source :: "(string \<Rightarrow> string) \<Rightarrow> ('v, 'd) viper \<Rightarrow> Source \<Rightarrow> 'v \<Rightarrow> goerr option \<times> 'v" where
  "read_source quote vp src v =
     (if src_Type src = ''file'' then
        (let v = vp_SetConfigFile vp (src_Path src) v;
             (err, v) = vp_MergeInConfig vp v
         in case err of
              Some e \<Rightarrow> (Some (WrapErr (''config: read file '' @ quote (src_Path src) @ '': '' @ error_text e) e), v)
            | None \<Rightarrow> (None, if src_Watch src then vp_WatchConfig vp (vp_OnConfigChange vp FireListeners v) else v))
      else if src_Type src = ''env'' then
        (let v = (if src_EnvPrefix src \<noteq> [] then vp_SetEnvPrefix vp (src_EnvPrefix src) v else v)
         in (None, vp_AutomaticEnv vp v))
      else (Some (OpaqueErr 0 (''config: unknown source type '' @ quote (src_Type src))), v))"

primrec read_sources :: "(string \<Rightarrow> string) \<Rightarrow> ('v, 'd) viper \<Rightarrow> Source list \<Rightarrow> 'v \<Rightarrow> goerr option \<times> 'v" where
  "read_sources quote vp [] v = (None, v)"
| "read_sources quote vp (src # srcs) v =
     (case read_source quote vp src v of
        (Some e, v) \<Rightarrow> (Some e, v)
      | (None, v) \<Rightarrow> read_sources quote vp srcs v)"

definition NewViperProvider :: "(string \<Rightarrow> string) \<Rightarrow> ('v, 'd) viper \<Rightarrow> ViperOptions \<Rightarrow> goerr + ('v, 'l) ViperProvider" where
  "NewViperProvider quote vp opts =
     (let v = vp_New vp;
          v = (case vo_EnvKeyReplacer opts of
                 None \<Rightarrow> vp_SetEnvKeyReplacer vp dots_to_underscores v
               | Some r \<Rightarrow> vp_SetEnvKeyReplacer vp r v)
      in case read_sources quote vp (vo_Sources opts) v of
           (Some e, v) \<Rightarrow> Inl e
         | (None, v) \<Rightarrow> Inr \<lparr>pv_v = v, pv_listeners = []\<rparr>)"

definition Provider_Load :: "('v, 'd) viper \<Rightarrow> ('v, 'l) ViperProvider \<Rightarrow> 'd \<Rightarrow> goerr option \<times> 'd" where
  "Provider_Load vp p dest =
     (let (err, dest) = vp_Unmarshal vp (pv_v p) dest
      in case err of
           Some e \<Rightarrow> (Some (WrapErr (''config: unmarshal: '' @ error_text e) e), dest)
         | None \<Rightarrow> (None, dest))"

definition Provider_Get :: "('v, 'd) viper \<Rightarrow> ('v, 'l) ViperProvider \<Rightarrow> string \<Rightarrow> any" where
  "Provider_Get vp p path = vp_Get vp path (pv_v p)"

definition OnChange :: "'l \<Rightarrow> ('v, 'l) ViperProvider \<Rightarrow> ('v, 'l) ViperProvider" where
  "OnChange fn p = p\<lparr>pv_listeners := pv_listeners p @ [fn]\<rparr>"

text \<open>
  A listener is code of the service: it is run by \<open>call\<close> on the provider, which it may call back,
  and on the rest of the world. The slice of listeners is copied before the first call.
\<close>

definition fireListeners :: "('l \<Rightarrow> ('v, 'l) ViperProvider \<times> 'w \<Rightarrow> ('v, 'l) ViperProvider \<times> 'w)
    \<Rightarrow> ('v, 'l) ViperProvider \<times> 'w \<Rightarrow> ('v, 'l) ViperProvider \<times> 'w" where
  "fireListeners call s = (let fns = pv_listeners (fst s) in fold call fns s)"

definition Provider_Viper :: "('v, 'l) ViperProvider \<Rightarrow> 'v" where
  "Provider_Viper p = pv_v p"

section \<open>What viper documents\<close>

text \<open>
  The observable state of a viper instance: the bound file, the merged files, the environment
  binding, and the reload callback.
\<close>

record viper_obs =
  ob_file :: string
  ob_config :: "string \<Rightarrow> any option"
  ob_env :: bool
  ob_prefix :: string
  ob_replace :: "string \<Rightarrow> string"
  ob_callback :: "callback option"

text \<open>
  \<open>fs\<close> is the file system, a file being read as the values at its dotted leaf paths or as an error;
  \<open>getenv\<close> the environment without its empty variables, which viper treats as unset; \<open>env_name\<close> how
  viper forms the name of a variable from prefix and path. \<open>plain\<close> selects the paths the laws speak of:
  those that are a leaf, and not a section, in every file that has them.
\<close>

definition viper_laws :: "('v, 'd) viper \<Rightarrow> ('v \<Rightarrow> viper_obs) \<Rightarrow> (string \<Rightarrow> goerr + (string \<Rightarrow> any option))
    \<Rightarrow> (string \<Rightarrow> string option) \<Rightarrow> (string \<Rightarrow> string \<Rightarrow> string) \<Rightarrow> (string \<Rightarrow> bool) \<Rightarrow> bool" where
  "viper_laws vp obs fs getenv env_name plain \<longleftrightarrow>
     ob_env (obs (vp_New vp)) = False \<and> ob_prefix (obs (vp_New vp)) = [] \<and>
     ob_callback (obs (vp_New vp)) = None \<and> (\<forall>k. plain k \<longrightarrow> ob_config (obs (vp_New vp)) k = None) \<and>
     (\<forall>r v. obs (vp_SetEnvKeyReplacer vp r v) = (obs v)\<lparr>ob_replace := r\<rparr>) \<and>
     (\<forall>p v. obs (vp_SetConfigFile vp p v) = (obs v)\<lparr>ob_file := p\<rparr>) \<and>
     (\<forall>v. case fs (ob_file (obs v)) of
            Inl e \<Rightarrow> fst (vp_MergeInConfig vp v) = Some e
          | Inr m \<Rightarrow> fst (vp_MergeInConfig vp v) = None \<and>
              (\<exists>cfg. obs (snd (vp_MergeInConfig vp v)) = (obs v)\<lparr>ob_config := cfg\<rparr> \<and>
                     (\<forall>k. plain k \<longrightarrow> cfg k = (ob_config (obs v) ++ m) k))) \<and>
     (\<forall>cb v. obs (vp_OnConfigChange vp cb v) = (obs v)\<lparr>ob_callback := Some cb\<rparr>) \<and>
     (\<forall>v. obs (vp_WatchConfig vp v) = obs v) \<and>
     (\<forall>p v. obs (vp_SetEnvPrefix vp p v) = (obs v)\<lparr>ob_prefix := p\<rparr>) \<and>
     (\<forall>v. obs (vp_AutomaticEnv vp v) = (obs v)\<lparr>ob_env := True\<rparr>) \<and>
     (\<forall>k v. plain k \<longrightarrow> vp_Get vp k v =
        (case (if ob_env (obs v) then getenv (ob_replace (obs v) (env_name (ob_prefix (obs v)) k)) else None) of
           Some s \<Rightarrow> AString s
         | None \<Rightarrow> (case ob_config (obs v) k of Some x \<Rightarrow> x | None \<Rightarrow> ANil)))"

section \<open>The meaning of a list of sources\<close>

definition is_file :: "Source \<Rightarrow> bool" where "is_file s \<longleftrightarrow> src_Type s = ''file''"
definition is_env :: "Source \<Rightarrow> bool" where "is_env s \<longleftrightarrow> src_Type s = ''env''"

definition readable :: "(string \<Rightarrow> goerr + (string \<Rightarrow> any option)) \<Rightarrow> Source \<Rightarrow> bool" where
  "readable fs s \<longleftrightarrow> is_file s \<and> \<not> isl (fs (src_Path s)) \<or> is_env s"

text \<open>The value at a path in the last file source that has it.\<close>

primrec last_file_value :: "(string \<Rightarrow> goerr + (string \<Rightarrow> any option)) \<Rightarrow> Source list \<Rightarrow> string \<Rightarrow> any option" where
  "last_file_value fs [] k = None"
| "last_file_value fs (s # ss) k =
     (case last_file_value fs ss k of
        Some x \<Rightarrow> Some x
      | None \<Rightarrow> (if is_file s then projr (fs (src_Path s)) k else None))"

text \<open>The last non-empty prefix.\<close>

primrec last_prefix :: "Source list \<Rightarrow> string \<Rightarrow> string" where
  "last_prefix [] p = p"
| "last_prefix (s # ss) p = last_prefix ss (if is_env s \<and> src_EnvPrefix s \<noteq> [] then src_EnvPrefix s else p)"

definition config_value :: "(string \<Rightarrow> goerr + (string \<Rightarrow> any option)) \<Rightarrow> (string \<Rightarrow> string option)
    \<Rightarrow> (string \<Rightarrow> string \<Rightarrow> string) \<Rightarrow> (string \<Rightarrow> string) \<Rightarrow> Source list \<Rightarrow> string \<Rightarrow> any" where
  "config_value fs getenv env_name repl srcs k =
     (case (if list_ex is_env srcs then getenv (repl (env_name (last_prefix srcs []) k)) else None) of
        Some s \<Rightarrow> AString s
      | None \<Rightarrow> (case last_file_value fs srcs k of Some x \<Rightarrow> x | None \<Rightarrow> ANil))"

section \<open>Facts\<close>

lemma file_env_disjoint [simp]: "is_file s \<Longrightarrow> \<not> is_env s" "is_env s \<Longrightarrow> \<not> is_file s"
  by (simp_all add: is_file_def is_env_def)

lemma viper_lawsD:
  assumes "viper_laws vp obs fs getenv env_name plain"
  shows "obs (vp_SetEnvKeyReplacer vp r v) = (obs v)\<lparr>ob_replace := r\<rparr>"
    "obs (vp_SetConfigFile vp p v) = (obs v)\<lparr>ob_file := p\<rparr>"
    "obs (vp_OnConfigChange vp cb v) = (obs v)\<lparr>ob_callback := Some cb\<rparr>"
    "obs (vp_WatchConfig vp v) = obs v"
    "obs (vp_SetEnvPrefix vp p v) = (obs v)\<lparr>ob_prefix := p\<rparr>"
    "obs (vp_AutomaticEnv vp v) = (obs v)\<lparr>ob_env := True\<rparr>"
  using assms by (simp_all add: viper_laws_def)

lemma viper_merge_fails:
  assumes "viper_laws vp obs fs getenv env_name plain" "fs (ob_file (obs v)) = Inl e"
  shows "fst (vp_MergeInConfig vp v) = Some e"
  using assms by (auto simp: viper_laws_def split: sum.splits)

lemma viper_merge_ok:
  assumes laws: "viper_laws vp obs fs getenv env_name plain" and "fs (ob_file (obs v)) = Inr m"
  obtains v' cfg where "vp_MergeInConfig vp v = (None, v')" "obs v' = (obs v)\<lparr>ob_config := cfg\<rparr>"
    "\<And>k. plain k \<Longrightarrow> cfg k = (ob_config (obs v) ++ m) k"
proof -
  from laws have "case fs (ob_file (obs v)) of
            Inl e \<Rightarrow> fst (vp_MergeInConfig vp v) = Some e
          | Inr m \<Rightarrow> fst (vp_MergeInConfig vp v) = None \<and>
              (\<exists>cfg. obs (snd (vp_MergeInConfig vp v)) = (obs v)\<lparr>ob_config := cfg\<rparr> \<and>
                     (\<forall>k. plain k \<longrightarrow> cfg k = (ob_config (obs v) ++ m) k))"
    unfolding viper_laws_def by blast
  with assms(2) that show ?thesis by (cases "vp_MergeInConfig vp v") auto
qed

lemma viper_get:
  assumes "viper_laws vp obs fs getenv env_name plain" "plain k"
  shows "vp_Get vp k v =
        (case (if ob_env (obs v) then getenv (ob_replace (obs v) (env_name (ob_prefix (obs v)) k)) else None) of
           Some s \<Rightarrow> AString s
         | None \<Rightarrow> (case ob_config (obs v) k of Some x \<Rightarrow> x | None \<Rightarrow> ANil))"
  using assms unfolding viper_laws_def by blast

text \<open>What reading some sources changes in the observable state.\<close>

definition reads_as :: "('v \<Rightarrow> viper_obs) \<Rightarrow> (string \<Rightarrow> goerr + (string \<Rightarrow> any option)) \<Rightarrow> (string \<Rightarrow> bool) \<Rightarrow> Source list
    \<Rightarrow> 'v \<Rightarrow> 'v \<Rightarrow> bool" where
  "reads_as obs fs plain srcs v v' \<longleftrightarrow>
     (ob_env (obs v') \<longleftrightarrow> ob_env (obs v) \<or> list_ex is_env srcs) \<and>
     ob_prefix (obs v') = last_prefix srcs (ob_prefix (obs v)) \<and>
     ob_replace (obs v') = ob_replace (obs v) \<and>
     ob_callback (obs v') = (if list_ex (\<lambda>s. is_file s \<and> src_Watch s) srcs then Some FireListeners else ob_callback (obs v)) \<and>
     (\<forall>k. plain k \<longrightarrow> ob_config (obs v') k =
        (case last_file_value fs srcs k of Some x \<Rightarrow> Some x | None \<Rightarrow> ob_config (obs v) k))"

lemma reads_as_Nil [simp]: "reads_as obs fs plain [] v v"
  by (simp add: reads_as_def)

lemma last_file_value_Cons:
  "last_file_value fs (s # ss) k = (case last_file_value fs ss k of Some x \<Rightarrow> Some x | None \<Rightarrow> last_file_value fs [s] k)"
  by (auto split: option.split)

lemma reads_as_Cons:
  assumes "reads_as obs fs plain [s] v v1" "reads_as obs fs plain ss v1 v2"
  shows "reads_as obs fs plain (s # ss) v v2"
proof -
  have "ob_config (obs v2) k = (case last_file_value fs (s # ss) k of Some x \<Rightarrow> Some x | None \<Rightarrow> ob_config (obs v) k)"
    if "plain k" for k
  proof (cases "last_file_value fs ss k")
    case None
    with assms that show ?thesis unfolding reads_as_def last_file_value_Cons [of fs s ss k] by simp
  next
    case (Some x)
    with assms that show ?thesis unfolding reads_as_def by simp
  qed
  with assms show ?thesis by (auto simp: reads_as_def)
qed

lemma read_source_ok:
  assumes laws: "viper_laws vp obs fs getenv env_name plain" and src: "readable fs src"
  shows "\<exists>v'. read_source quote vp src v = (None, v') \<and> reads_as obs fs plain [src] v v'"
proof (cases "is_file src")
  case True
  with src obtain m where m: "fs (src_Path src) = Inr m" by (cases "fs (src_Path src)") (auto simp: readable_def)
  let ?v1 = "vp_SetConfigFile vp (src_Path src) v"
  have "fs (ob_file (obs ?v1)) = Inr m" by (simp add: viper_lawsD [OF laws] m)
  from viper_merge_ok [OF laws this] obtain v2 cfg where v2: "vp_MergeInConfig vp ?v1 = (None, v2)"
      "obs v2 = (obs ?v1)\<lparr>ob_config := cfg\<rparr>" "\<And>k. plain k \<Longrightarrow> cfg k = (ob_config (obs ?v1) ++ m) k" by metis
  let ?v3 = "if src_Watch src then vp_WatchConfig vp (vp_OnConfigChange vp FireListeners v2) else v2"
  have "read_source quote vp src v = (None, ?v3)" using True v2(1) by (simp add: read_source_def is_file_def)
  moreover have "reads_as obs fs plain [src] v ?v3"
    using True v2(2,3) m by (simp add: reads_as_def viper_lawsD [OF laws] map_add_def)
  ultimately show ?thesis by blast
next
  case False
  with src have e: "is_env src" by (simp add: readable_def)
  let ?v1 = "vp_AutomaticEnv vp (if src_EnvPrefix src \<noteq> [] then vp_SetEnvPrefix vp (src_EnvPrefix src) v else v)"
  have "read_source quote vp src v = (None, ?v1)" using e by (simp add: read_source_def is_env_def Let_def)
  moreover have "reads_as obs fs plain [src] v ?v1" using e False by (simp add: reads_as_def viper_lawsD [OF laws])
  ultimately show ?thesis by blast
qed

text \<open>The error of a source that cannot be read.\<close>

definition source_error :: "(string \<Rightarrow> string) \<Rightarrow> (string \<Rightarrow> goerr + (string \<Rightarrow> any option)) \<Rightarrow> Source \<Rightarrow> goerr" where
  "source_error quote fs s =
     (if is_file s
      then WrapErr (''config: read file '' @ quote (src_Path s) @ '': '' @ error_text (projl (fs (src_Path s)))) (projl (fs (src_Path s)))
      else OpaqueErr 0 (''config: unknown source type '' @ quote (src_Type s)))"

lemma read_source_fails:
  assumes laws: "viper_laws vp obs fs getenv env_name plain" and src: "\<not> readable fs src"
  shows "\<exists>v'. read_source quote vp src v = (Some (source_error quote fs src), v')"
proof (cases "is_file src")
  case True
  with src obtain e0 where e0: "fs (src_Path src) = Inl e0"
    by (cases "fs (src_Path src)") (auto simp: readable_def)
  then have "fst (vp_MergeInConfig vp (vp_SetConfigFile vp (src_Path src) v)) = Some e0"
    by (intro viper_merge_fails [OF laws]) (simp add: viper_lawsD [OF laws])
  with True e0 show ?thesis
    by (cases "vp_MergeInConfig vp (vp_SetConfigFile vp (src_Path src) v)")
      (simp add: read_source_def source_error_def is_file_def)
next
  case False
  with src show ?thesis by (simp add: readable_def is_file_def is_env_def read_source_def source_error_def)
qed

lemma read_sources_ok:
  assumes laws: "viper_laws vp obs fs getenv env_name plain" and "\<forall>s \<in> set srcs. readable fs s"
  shows "\<exists>v'. read_sources quote vp srcs v = (None, v') \<and> reads_as obs fs plain srcs v v'"
  using assms(2)
proof (induction srcs arbitrary: v)
  case Nil
  then show ?case by simp
next
  case (Cons s ss)
  then obtain v1 where v1: "read_source quote vp s v = (None, v1)" "reads_as obs fs plain [s] v v1"
    using read_source_ok [OF laws, of s] by fastforce
  obtain v2 where v2: "read_sources quote vp ss v1 = (None, v2)" "reads_as obs fs plain ss v1 v2"
    using Cons by fastforce
  show ?case using v1(1) v2(1) reads_as_Cons [OF v1(2) v2(2)] by simp
qed

lemma read_sources_fails:
  assumes laws: "viper_laws vp obs fs getenv env_name plain"
    and "\<forall>s \<in> set pre. readable fs s" "\<not> readable fs src"
  shows "\<exists>v'. read_sources quote vp (pre @ src # post) v = (Some (source_error quote fs src), v')"
  using assms(2)
proof (induction pre arbitrary: v)
  case Nil
  obtain v1 where "read_source quote vp src v = (Some (source_error quote fs src), v1)"
    using read_source_fails [OF laws assms(3)] by fastforce
  then show ?case by simp
next
  case (Cons s ss)
  then obtain v1 where "read_source quote vp s v = (None, v1)" using read_source_ok [OF laws, of s] by fastforce
  then show ?case using Cons by simp
qed

section \<open>Loading a configuration\<close>

lemma NewViperProvider_first_bad:
  assumes laws: "viper_laws vp obs fs getenv env_name plain"
    and srcs: "vo_Sources opts = pre @ src # post" "\<forall>s \<in> set pre. readable fs s" "\<not> readable fs src"
  shows "NewViperProvider quote vp opts = Inl (source_error quote fs src)"
proof -
  define v0 where "v0 = (case vo_EnvKeyReplacer opts of
      None \<Rightarrow> vp_SetEnvKeyReplacer vp dots_to_underscores (vp_New vp) | Some r \<Rightarrow> vp_SetEnvKeyReplacer vp r (vp_New vp))"
  obtain v where "read_sources quote vp (vo_Sources opts) v0 = (Some (source_error quote fs src), v)"
    using read_sources_fails [OF laws srcs(2,3)] srcs(1) by metis
  then show ?thesis by (simp add: NewViperProvider_def v0_def)
qed


text \<open>
  A viper that obeys the laws, over two files and one environment variable, and the theorem at a
  list whose env source comes before both files: the variable wins, and between the files the
  later one.
\<close>

definition demo_fs :: "string \<Rightarrow> goerr + (string \<Rightarrow> any option)" where
  "demo_fs p =
     (if p = ''a.yaml'' then Inr [''http.addr'' \<mapsto> AString '':9000'', ''app.name'' \<mapsto> AString ''a'']
      else if p = ''b.yaml'' then Inr [''http.addr'' \<mapsto> AString '':9001'', ''app.name'' \<mapsto> AString ''b'']
      else Inl (Sentinel ''file does not exist''))"

definition demo_env_name :: "string \<Rightarrow> string \<Rightarrow> string" where
  "demo_env_name p k = (if p = [] then k else p @ ''_'' @ k)"

definition demo_getenv :: "string \<Rightarrow> string option" where
  "demo_getenv = [''APP_http_addr'' \<mapsto> '':80'']"

definition demo_viper :: "(viper_obs, 'd) viper" where
  "demo_viper =
     \<lparr>vp_New = \<lparr>ob_file = [], ob_config = Map.empty, ob_env = False, ob_prefix = [], ob_replace = id, ob_callback = None\<rparr>,
      vp_SetEnvKeyReplacer = (\<lambda>r v. v\<lparr>ob_replace := r\<rparr>),
      vp_SetConfigFile = (\<lambda>p v. v\<lparr>ob_file := p\<rparr>),
      vp_MergeInConfig = (\<lambda>v. case demo_fs (ob_file v) of
         Inl e \<Rightarrow> (Some e, v) | Inr m \<Rightarrow> (None, v\<lparr>ob_config := ob_config v ++ m\<rparr>)),
      vp_OnConfigChange = (\<lambda>cb v. v\<lparr>ob_callback := Some cb\<rparr>),
      vp_WatchConfig = (\<lambda>v. v),
      vp_SetEnvPrefix = (\<lambda>p v. v\<lparr>ob_prefix := p\<rparr>),
      vp_AutomaticEnv = (\<lambda>v. v\<lparr>ob_env := True\<rparr>),
      vp_Unmarshal = (\<lambda>v d. (None, d)),
      vp_Get = (\<lambda>k v. case (if ob_env v then demo_getenv (ob_replace v (demo_env_name (ob_prefix v) k)) else None) of
         Some s \<Rightarrow> AString s | None \<Rightarrow> (case ob_config v k of Some x \<Rightarrow> x | None \<Rightarrow> ANil))\<rparr>"

lemma demo_viper_laws: "viper_laws demo_viper (\<lambda>v. v) demo_fs demo_getenv demo_env_name (\<lambda>_. True)"
  unfolding viper_laws_def by (intro conjI allI) (auto simp: demo_viper_def split: sum.split)

definition demo_options :: ViperOptions where
  "demo_options = \<lparr>vo_Sources =
     [\<lparr>src_Type = ''env'', src_Path = [], src_EnvPrefix = ''APP'', src_Watch = False\<rparr>,
      \<lparr>src_Type = ''file'', src_Path = ''a.yaml'', src_EnvPrefix = [], src_Watch = False\<rparr>,
      \<lparr>src_Type = ''file'', src_Path = ''b.yaml'', src_EnvPrefix = [], src_Watch = True\<rparr>],
     vo_EnvKeyReplacer = None\<rparr>"


section \<open>Listeners\<close>

text \<open>
  A reload calls the listeners that were registered when it began, each once and in the order of
  registration, whatever the callbacks do to the provider; a listener registered by a callback
  waits for the next reload.
\<close>

lemma fireListeners_snapshot:
  assumes "\<And>l p w. snd (call l (p, w)) = w @ [l]"
  shows "snd (fireListeners call (p, w)) = w @ pv_listeners p"
proof -
  have "snd (fold call ls (p, w)) = w @ ls" for ls
  proof (induction ls arbitrary: p w)
    case (Cons l ls)
    obtain p' where "call l (p, w) = (p', w @ [l])" using assms [of l p w] by (metis prod.collapse)
    then show ?case using Cons.IH [of p' "w @ [l]"] by simp
  qed simp
  then show ?thesis by (simp add: fireListeners_def)
qed

lemma fireListeners_registering:
  "fireListeners (\<lambda>l (p, w). (OnChange (l + 1) p, w @ [l])) (\<lparr>pv_v = v, pv_listeners = [1, 5 :: nat]\<rparr>, []) =
     (\<lparr>pv_v = v, pv_listeners = [1, 5, 2, 6]\<rparr>, [1, 5])"
  by (simp add: fireListeners_def OnChange_def)

text \<open>A failed \<^verbatim>\<open>Load\<close> wraps the error of viper.\<close>

lemma Provider_Load_error:
  "fst (Provider_Load vp p dest) = None \<longleftrightarrow> fst (vp_Unmarshal vp (pv_v p) dest) = None"
  "fst (vp_Unmarshal vp (pv_v p) dest) = Some e \<Longrightarrow> \<exists>m. fst (Provider_Load vp p dest) = Some (WrapErr m e)"
  "snd (Provider_Load vp p dest) = snd (vp_Unmarshal vp (pv_v p) dest)"
  by (auto simp: Provider_Load_def split: prod.splits option.splits)

end
