(* ===== verification/Http_Server.thy ===== *)
theory Http_Server
  imports Bootstrap Go_Runtime
begin

text \<open>
  \<^verbatim>\<open>examples/minimal/infra/httpsrv\<close>: the server of the example and the goroutine it starts. The
  socket and the requests are outside the model; what \<^verbatim>\<open>ListenAndServe\<close> can return follows its
  documentation, and the scheduler is the step relation \<open>srv_step\<close>.
\<close>

section \<open>The server\<close>

definition http_ErrServerClosed :: goerr where "http_ErrServerClosed = Sentinel ''http: Server closed''"

text \<open>
  A goroutine of \<^verbatim>\<open>Start\<close>: not yet scheduled, serving, back from \<^verbatim>\<open>ListenAndServe\<close>, stuck on a full
  channel, done, or crashed by the runtime (a send on, or a close of, a closed channel).
\<close>

datatype proc = Launched | Serving | Returned "goerr option" | Stuck | Done | Crashed

record httpsrv =
  hs_addr :: string
  hs_mux :: "string list"
  hs_shutdown :: bool
  hs_shutdownTimeout :: i64
  hs_errCh :: "goerr chan"
  hs_procs :: "proc list"
  hs_stderr :: "string list"

definition httpsrv_New :: "string \<Rightarrow> i64 \<Rightarrow> httpsrv" where
  "httpsrv_New addr timeout =
     \<lparr>hs_addr = addr, hs_mux = [], hs_shutdown = False, hs_shutdownTimeout = timeout,
      hs_errCh = \<lparr>ch_buf = [], ch_cap = 1, ch_closed = False\<rparr>, hs_procs = [], hs_stderr = []\<rparr>"

definition httpsrv_HandleFunc :: "string \<Rightarrow> httpsrv \<Rightarrow> httpsrv" where
  "httpsrv_HandleFunc pat s = s\<lparr>hs_mux := hs_mux s @ [pat]\<rparr>"

definition httpsrv_Start :: "'c goctx \<Rightarrow> httpsrv \<Rightarrow> goerr option \<times> httpsrv" where
  "httpsrv_Start ctx s = (None, s\<lparr>hs_procs := hs_procs s @ [Launched]\<rparr>)"

definition listen_failed :: "string \<Rightarrow> goerr \<Rightarrow> string" where
  "listen_failed addr e = ''httpsrv: listen on '' @ addr @ '' failed: '' @ error_text e"

text \<open>What the goroutine does with the result of \<^verbatim>\<open>ListenAndServe\<close>.\<close>

definition after_serve :: "goerr option \<Rightarrow> httpsrv \<Rightarrow> proc \<times> httpsrv" where
  "after_serve err s =
     (if err \<noteq> None \<and> \<not> errors_Is err http_ErrServerClosed then
        (let s = s\<lparr>hs_stderr := hs_stderr s @ [listen_failed (hs_addr s) (the err)]\<rparr>;
             c = hs_errCh s
         in if ch_closed c then (Crashed, s)
            else if length (ch_buf c) < ch_cap c then (Done, s\<lparr>hs_errCh := c\<lparr>ch_buf := ch_buf c @ [the err]\<rparr>\<rparr>)
            else (Stuck, s))
      else if ch_closed (hs_errCh s) then (Crashed, s)
      else (Done, s\<lparr>hs_errCh := (hs_errCh s)\<lparr>ch_closed := True\<rparr>\<rparr>))"

definition httpsrv_Err :: "httpsrv \<Rightarrow> goerr received \<times> httpsrv" where
  "httpsrv_Err s = (case chan_recv (hs_errCh s) of (r, c) \<Rightarrow> (r, s\<lparr>hs_errCh := c\<rparr>))"

text \<open>
  \<^verbatim>\<open>Shutdown\<close> marks the server first; then it waits for the requests in flight, and \<open>drain\<close> says with
  which result under the given context.
\<close>

definition httpsrv_Stop :: "('c goctx \<Rightarrow> goerr option) \<Rightarrow> 'c goctx \<Rightarrow> httpsrv \<Rightarrow> goerr option \<times> httpsrv" where
  "httpsrv_Stop drain ctx s =
     (let sctx = TimeoutCtx ctx (hs_shutdownTimeout s) in (drain sctx, s\<lparr>hs_shutdown := True\<rparr>))"

definition httpsrv_Addr :: "httpsrv \<Rightarrow> string" where "httpsrv_Addr s = hs_addr s"

section \<open>Steps\<close>

text \<open>
  \<^verbatim>\<open>ListenAndServe\<close> returns \<^verbatim>\<open>ErrServerClosed\<close> when the server was shut down before or while it serves, and
  another error when the address cannot be bound or accepting fails. Besides the goroutines,
  a client may stop the server and receive from the channel at any time.
\<close>

inductive srv_step :: "httpsrv \<Rightarrow> httpsrv \<Rightarrow> bool" where
  refused: "i < length (hs_procs s) \<Longrightarrow> hs_procs s ! i = Launched \<Longrightarrow> hs_shutdown s \<Longrightarrow>
    srv_step s (s\<lparr>hs_procs := (hs_procs s)[i := Returned (Some http_ErrServerClosed)]\<rparr>)"
| bound: "i < length (hs_procs s) \<Longrightarrow> hs_procs s ! i = Launched \<Longrightarrow> \<not> hs_shutdown s \<Longrightarrow>
    srv_step s (s\<lparr>hs_procs := (hs_procs s)[i := Serving]\<rparr>)"
| failed: "i < length (hs_procs s) \<Longrightarrow> hs_procs s ! i \<in> {Launched, Serving} \<Longrightarrow> \<not> hs_shutdown s \<Longrightarrow>
    \<not> errors_Is (Some e) http_ErrServerClosed \<Longrightarrow>
    srv_step s (s\<lparr>hs_procs := (hs_procs s)[i := Returned (Some e)]\<rparr>)"
| closed: "i < length (hs_procs s) \<Longrightarrow> hs_procs s ! i = Serving \<Longrightarrow> hs_shutdown s \<Longrightarrow>
    srv_step s (s\<lparr>hs_procs := (hs_procs s)[i := Returned (Some http_ErrServerClosed)]\<rparr>)"
| reported: "i < length (hs_procs s) \<Longrightarrow> hs_procs s ! i = Returned err \<Longrightarrow> after_serve err s = (p, s') \<Longrightarrow>
    srv_step s (s'\<lparr>hs_procs := (hs_procs s')[i := p]\<rparr>)"
| stop: "srv_step s (snd (httpsrv_Stop drain (ctx :: unit goctx) s))"
| receive: "httpsrv_Err s = (r, s') \<Longrightarrow> srv_step s s'"

text \<open>A server that was started once, the way a module starts it.\<close>

definition started :: "string \<Rightarrow> i64 \<Rightarrow> httpsrv" where
  "started addr timeout = snd (httpsrv_Start (BaseCtx ()) (httpsrv_New addr timeout))"

text \<open>
  The states a server started once goes through: nothing has been sent or closed while the
  goroutine runs, and at the end exactly one of the two.
\<close>

definition once_inv :: "httpsrv \<Rightarrow> bool" where
  "once_inv s \<longleftrightarrow> ch_cap (hs_errCh s) = 1 \<and>
     (\<exists>p. hs_procs s = [p] \<and>
       (p \<in> {Launched, Serving} \<union> range Returned \<and> ch_buf (hs_errCh s) = [] \<and> \<not> ch_closed (hs_errCh s) \<and> hs_stderr s = [] \<or>
        p = Done \<and> ch_closed (hs_errCh s) \<and> ch_buf (hs_errCh s) = [] \<and> hs_stderr s = [] \<or>
        p = Done \<and> \<not> ch_closed (hs_errCh s) \<and> length (ch_buf (hs_errCh s)) \<le> 1 \<and> length (hs_stderr s) = 1))"

lemma once_inv_started: "once_inv (started addr timeout)"
  by (simp add: once_inv_def started_def httpsrv_Start_def httpsrv_New_def)

lemma after_serve_once:
  assumes "once_inv s" "hs_procs s = [Returned err]" "after_serve err s = (p, s')"
  shows "once_inv (s'\<lparr>hs_procs := [p]\<rparr>)"
  using assms by (auto simp: once_inv_def after_serve_def Let_def split: if_splits)

lemma chan_recv_cases:
  "chan_recv c = (r, c') \<Longrightarrow>
     ch_cap c' = ch_cap c \<and> ch_closed c' = ch_closed c \<and> length (ch_buf c') \<le> length (ch_buf c) \<and>
     (r = Closed \<longleftrightarrow> ch_buf c = [] \<and> ch_closed c)"
  by (auto simp: chan_recv_def split: list.splits if_splits)

lemma once_inv_step:
  assumes "srv_step s s'" "once_inv s"
  shows "once_inv s'"
  using assms
proof cases
  case (reported i err p s1)
  moreover from this assms(2) have "hs_procs s = [Returned err]" by (auto simp: once_inv_def)
  moreover from this reported(4) have "hs_procs s1 = [Returned err]" by (auto simp: after_serve_def Let_def split: if_splits)
  ultimately show ?thesis using after_serve_once [OF assms(2)] by simp
next
  case (receive r)
  then obtain c where c: "chan_recv (hs_errCh s) = (r, c)" "s' = s\<lparr>hs_errCh := c\<rparr>"
    by (auto simp: httpsrv_Err_def split: prod.splits)
  from chan_recv_cases [OF c(1)] assms(2) show ?thesis by (auto simp: once_inv_def c(2))
next
  case (stop drain ctx)
  then show ?thesis using assms(2) by (simp add: once_inv_def httpsrv_Stop_def)
qed (use assms in \<open>auto simp: once_inv_def\<close>)

lemma once_inv_reachable: "srv_step\<^sup>*\<^sup>* (started addr timeout) s \<Longrightarrow> once_inv s"
  by (induction rule: rtranclp_induct) (auto simp: once_inv_started once_inv_step)


text \<open>The theorem at a server whose address is in use.\<close>

definition bind_error :: goerr where "bind_error = Sentinel ''bind: address already in use''"


text \<open>A second \<^verbatim>\<open>Start\<close> makes a clean shutdown crash: both goroutines close the channel.\<close>

lemma httpsrv_started_twice:
  assumes "hs_procs s = [Done, Returned (Some http_ErrServerClosed)]" "ch_closed (hs_errCh s)"
  shows "srv_step s (s\<lparr>hs_procs := [Done, Crashed]\<rparr>)"
proof -
  have "after_serve (Some http_ErrServerClosed) s = (Crashed, s)"
    using assms(2) by (simp add: after_serve_def errors_Is_def http_ErrServerClosed_def)
  from srv_step.reported [of 1, OF _ _ this] show ?thesis using assms(1) by simp
qed

end
