(* ===== verification/Identifiers.thy ===== *)
theory Identifiers
  imports Errorsx
begin

text \<open>
  \<^verbatim>\<open>pkg/vo/uuid\<close> and \<^verbatim>\<open>pkg/idgen\<close>, with the value object helpers of \<^verbatim>\<open>domain/valueobject.go\<close>. The
  library google/uuid is the record \<open>gguid\<close>, an argument of the definitions that call it; its
  generators draw from a random source of type \<open>'r\<close> and may fail.
\<close>

record ('u, 'r) gguid =
  gg_Nil :: 'u
  gg_NewV7 :: "'r \<Rightarrow> (goerr + 'u) \<times> 'r"
  gg_NewString :: "'r \<Rightarrow> string \<times> 'r"
  gg_Parse :: "string \<Rightarrow> goerr + 'u"
  gg_String :: "'u \<Rightarrow> string"

section \<open>domain/valueobject.go\<close>

definition EqualValues :: "'a \<Rightarrow> 'a \<Rightarrow> bool" where "EqualValues a b \<longleftrightarrow> a = b"

section \<open>pkg/vo/uuid\<close>

record 'u UUID = uu_v :: 'u

text \<open>A value of the interface \<^verbatim>\<open>domain.ValueObject\<close>: nil, a \<^verbatim>\<open>UUID\<close>, or a value of another type.\<close>

datatype 'u value_object = VONil | VOUuid "'u UUID" | VOOther nat

definition uuid_Nil :: "('u, 'r) gguid \<Rightarrow> 'u UUID" where "uuid_Nil g = \<lparr>uu_v = gg_Nil g\<rparr>"

text \<open>\<^verbatim>\<open>gguid.Must\<close> panics on an error, here \<^term>\<open>None\<close>.\<close>

definition uuid_New :: "('u, 'r) gguid \<Rightarrow> 'r \<Rightarrow> 'u UUID option \<times> 'r" where
  "uuid_New g r = (case gg_NewV7 g r of (Inl e, r) \<Rightarrow> (None, r) | (Inr v, r) \<Rightarrow> (Some \<lparr>uu_v = v\<rparr>, r))"

definition uuid_Parse :: "('u, 'r) gguid \<Rightarrow> string \<Rightarrow> 'u UUID \<times> goerr option" where
  "uuid_Parse g s = (case gg_Parse g s of Inl e \<Rightarrow> (uuid_Nil g, Some e) | Inr v \<Rightarrow> (\<lparr>uu_v = v\<rparr>, None))"

definition uuid_MustParse :: "('u, 'r) gguid \<Rightarrow> string \<Rightarrow> 'u UUID option" where
  "uuid_MustParse g s = (case uuid_Parse g s of (u, Some e) \<Rightarrow> None | (u, None) \<Rightarrow> Some u)"

definition uuid_String :: "('u, 'r) gguid \<Rightarrow> 'u UUID \<Rightarrow> string" where
  "uuid_String g u = gg_String g (uu_v u)"

definition uuid_IsNil :: "('u, 'r) gguid \<Rightarrow> 'u UUID \<Rightarrow> bool" where
  "uuid_IsNil g u \<longleftrightarrow> uu_v u = gg_Nil g"

definition uuid_Equal :: "'u UUID \<Rightarrow> 'u value_object \<Rightarrow> bool" where
  "uuid_Equal u other = (case other of VOUuid o' \<Rightarrow> uu_v u = uu_v o' | _ \<Rightarrow> False)"

definition MarshalText :: "('u, 'r) gguid \<Rightarrow> 'u UUID \<Rightarrow> string \<times> goerr option" where
  "MarshalText g u = (uuid_String g u, None)"

definition UnmarshalText :: "('u, 'r) gguid \<Rightarrow> string \<Rightarrow> 'u UUID \<Rightarrow> goerr option \<times> 'u UUID" where
  "UnmarshalText g text u =
     (case uuid_Parse g text of (parsed, Some e) \<Rightarrow> (Some e, u) | (parsed, None) \<Rightarrow> (None, parsed))"

section \<open>pkg/idgen\<close>

type_synonym 'r Generator = "'r \<Rightarrow> string \<times> 'r"

definition GeneratorFunc_New :: "'r Generator \<Rightarrow> 'r Generator" where "GeneratorFunc_New f r = f r"

definition UUIDv4 :: "('u, 'r) gguid \<Rightarrow> 'r Generator" where "UUIDv4 g = GeneratorFunc_New (gg_NewString g)"

definition UUIDv7 :: "('u, 'r) gguid \<Rightarrow> 'r Generator" where
  "UUIDv7 g = GeneratorFunc_New
     (\<lambda>r. case gg_NewV7 g r of
            (Inr v, r) \<Rightarrow> (gg_String g v, r)
          | (Inl e, r) \<Rightarrow> gg_NewString g r)"

section \<open>Facts\<close>

text \<open>
  A UUID survives its text form, given that the library parses what it prints: \<^verbatim>\<open>UnmarshalText\<close>
  after \<^verbatim>\<open>MarshalText\<close> gives the same value, \<^verbatim>\<open>MustParse\<close> does not panic on a printed UUID, two UUIDs are
  \<^verbatim>\<open>Equal\<close> exactly when they print alike, and a text that does not parse leaves the receiver as
  it was. \<^verbatim>\<open>Equal\<close> never holds for nil or for a value of another type.
\<close>

theorem uuid_text_roundtrip:
  assumes "\<And>v. gg_Parse g (gg_String g v) = Inr v"
  shows "UnmarshalText g (fst (MarshalText g u)) old = (None, u) \<and>
    uuid_MustParse g (uuid_String g u) = Some u \<and>
    (uuid_Equal u (VOUuid w) \<longleftrightarrow> uuid_String g u = uuid_String g w) \<and>
    (fst (UnmarshalText g text old) = None \<or> snd (UnmarshalText g text old) = old) \<and>
    \<not> uuid_Equal u VONil \<and> \<not> uuid_Equal u (VOOther n)"
proof -
  have inj: "gg_String g a = gg_String g b \<longleftrightarrow> a = b" for a b using assms by (metis sum.inject(2))
  show ?thesis
    by (simp add: UnmarshalText_def MarshalText_def uuid_Parse_def uuid_String_def uuid_MustParse_def assms uuid_Equal_def inj
        split: sum.split)
qed

text \<open>A library whose identifiers are bytes, printed as they are.\<close>

definition demo_gguid :: "(string, nat) gguid" where
  "demo_gguid =
     \<lparr>gg_Nil = replicate 16 (CHR ''0''), gg_NewV7 = (\<lambda>r. (Inr (dec_digits r), Suc r)),
      gg_NewString = (\<lambda>r. (dec_digits r, Suc r)), gg_Parse = (\<lambda>s. Inr s), gg_String = (\<lambda>s. s)\<rparr>"

theorem uuid_text_roundtrip_witness:
  "UnmarshalText demo_gguid (fst (MarshalText demo_gguid \<lparr>uu_v = ''7''\<rparr>)) (uuid_Nil demo_gguid) = (None, \<lparr>uu_v = ''7''\<rparr>)"
  by (rule uuid_text_roundtrip [THEN conjunct1]) (simp add: demo_gguid_def)

text \<open>The generator for v7 always answers, with a v4 string when v7 is not available.\<close>

lemma UUIDv7_fallback:
  "fst (UUIDv7 g r) = (case gg_NewV7 g r of (Inr v, r') \<Rightarrow> gg_String g v | (Inl e, r') \<Rightarrow> fst (UUIDv4 g r'))"
  by (simp add: UUIDv7_def UUIDv4_def GeneratorFunc_New_def split: prod.split sum.split)

lemma uuid_New_String:
  "uuid_New g r = (Some u, r') \<Longrightarrow> UUIDv7 g r = (uuid_String g u, r')"
  by (auto simp: uuid_New_def UUIDv7_def GeneratorFunc_New_def uuid_String_def split: prod.splits sum.splits)

lemma uuid_IsNil_Nil: "uuid_IsNil g u \<longleftrightarrow> u = uuid_Nil g"
  by (cases u) (simp add: uuid_IsNil_def uuid_Nil_def)

lemma uuid_Equal_values: "uuid_Equal u (VOUuid w) \<longleftrightarrow> EqualValues u w"
  by (cases u; cases w) (simp add: uuid_Equal_def EqualValues_def)

end
