(* ===== verification/Service.thy ===== *)
theory Service
  imports Order_App Config Http_Server Identifiers
begin

text \<open>
  \<^verbatim>\<open>examples/minimal/cmd/main.go\<close>: the function \<^verbatim>\<open>run\<close> composes the configuration, the container and the
  HTTP server. Its requests are served by the routes of \<open>Order_App\<close>; here is the life of the process.
\<close>

section \<open>run\<close>

text \<open>The two callbacks of the module \<^verbatim>\<open>http\<close>; the world they act on is the server.\<close>

datatype main_callback = HttpStart | HttpStop

definition main_env :: "(string \<Rightarrow> string) \<Rightarrow> (unit goctx \<Rightarrow> goerr option) \<Rightarrow> (main_callback, unit, unit, httpsrv) benv" where
  "main_env quote drain =
     \<lparr>be_callback = (\<lambda>k ctx a srv. case k of
        HttpStart \<Rightarrow> (let (err, srv) = httpsrv_Start ctx srv in (err, [], srv))
      | HttpStop \<Rightarrow> (let (err, srv) = httpsrv_Stop drain ctx srv in (err, [], srv))),
      be_quote = quote\<rparr>"

definition http_module :: "main_callback Module" where
  "http_module = \<lparr>md_ModuleName = ''http'', md_StartFn = Some HttpStart, md_StopFn = Some HttpStop\<rparr>"

definition main_options :: "string \<Rightarrow> ViperOptions" where
  "main_options cfgPath =
     \<lparr>vo_Sources =
        [\<lparr>src_Type = ''file'', src_Path = cfgPath, src_EnvPrefix = [], src_Watch = False\<rparr>,
         \<lparr>src_Type = ''env'', src_Path = [], src_EnvPrefix = ''APP'', src_Watch = False\<rparr>],
      vo_EnvKeyReplacer = None\<rparr>"

definition config_path :: "(string \<Rightarrow> string) \<Rightarrow> string" where
  "config_path getenv = (if getenv ''CONFIG_PATH'' = [] then ''examples/minimal/config.yaml'' else getenv ''CONFIG_PATH'')"

definition registerRoutes :: "httpsrv \<Rightarrow> httpsrv" where
  "registerRoutes srv = httpsrv_HandleFunc ''GET /orders/{id}'' (httpsrv_HandleFunc ''POST /orders'' srv)"

text \<open>
  The application and the server \<^verbatim>\<open>run\<close> builds from a configuration. The provider and the logger are
  values the container only stores.
\<close>

definition main_boot :: "Root \<Rightarrow> (main_callback, unit, httpsrv) boot" where
  "main_boot cfg =
     (let httpServer = registerRoutes (httpsrv_New (ch_Addr (rt_HTTP cfg)) (ch_ShutdownTimeout (rt_HTTP cfg)))
      in fresh_app \<lparr>op_Config = AOpaque 0, op_Logger = AOpaque 1, op_Registry = None,
                    op_ShutdownTimeout = ch_ShutdownTimeout (rt_HTTP cfg)\<rparr>
           [http_module] httpServer)"

text \<open>
  \<^term>\<open>None\<close> when \<^verbatim>\<open>Run\<close> never returns; the second component is the container, absent when \<^verbatim>\<open>run\<close> gives up
  before it is built.
\<close>

definition main_run :: "(string \<Rightarrow> string) \<Rightarrow> ('v, Root) viper \<Rightarrow> (string \<Rightarrow> string) \<Rightarrow> (unit goctx \<Rightarrow> goerr option)
    \<Rightarrow> (main_callback, unit, unit, httpsrv) waiter \<Rightarrow> (goerr option \<times> (main_callback, unit, httpsrv) boot option) option" where
  "main_run quote vp getenv drain wait =
     (case (NewViperProvider quote vp (main_options (config_path getenv)) :: goerr + ('v, unit) ViperProvider) of
        Inl e \<Rightarrow> Some (Some (WrapErr (''load config: '' @ error_text e) e), None)
      | Inr provider \<Rightarrow>
          (case Provider_Load vp provider zero_Root of
             (Some e, cfg) \<Rightarrow> Some (Some (WrapErr (''unmarshal config: '' @ error_text e) e), None)
           | (None, cfg) \<Rightarrow>
               map_option (\<lambda>(err, s). (err, Some s)) (App_Run (main_env quote drain) wait (BaseCtx ()) (main_boot cfg))))"

text \<open>\<^verbatim>\<open>main\<close> prints the error and exits with status 1.\<close>

definition main_exit :: "goerr option \<Rightarrow> string list \<times> int" where
  "main_exit err = (case err of None \<Rightarrow> ([], 0) | Some e \<Rightarrow> ([''fatal: '' @ error_text e @ [CHR 0x0A]], 1))"

section \<open>Facts\<close>

text \<open>The time a context leaves, \<^term>\<open>None\<close> for no limit.\<close>

fun budget :: "'c goctx \<Rightarrow> int option" where
  "budget (BaseCtx c) = None"
| "budget (TimeoutCtx c t) = Some (case budget c of None \<Rightarrow> sint t | Some b \<Rightarrow> min b (sint t))"

text \<open>The context in which the server drains: the timeout of the container, then its own.\<close>

definition drain_ctx :: "Root \<Rightarrow> unit goctx" where
  "drain_ctx cfg =
     (let t = ch_ShutdownTimeout (rt_HTTP cfg)
      in TimeoutCtx (ShutdownContext (BaseCtx ()) (if t \<le>s 0 then 15 * 1000000000 else t)) t)"

lemma app_timeout_positive: "\<not> (if t \<le>s 0 then 15 * 1000000000 else t :: i64) \<le>s 0"
  by (simp add: word_sle_eq)

lemma drain_budget: "budget (drain_ctx cfg) = Some (sint (ch_ShutdownTimeout (rt_HTTP cfg)))"
  using app_timeout_positive [of "ch_ShutdownTimeout (rt_HTTP cfg)"]
  by (auto simp: drain_ctx_def ShutdownContext_def Let_def word_sle_eq min_def)

text \<open>The container after its start.\<close>

definition main_started :: "Root \<Rightarrow> (main_callback, unit, httpsrv) boot" where
  "main_started cfg = (main_boot cfg)\<lparr>bs_world := snd (httpsrv_Start (BaseCtx ()) (bs_world (main_boot cfg))),
           bs_trace := [Started http_module None],
           bs_app := (bs_app (main_boot cfg))\<lparr>app_lifecycle := \<lparr>lc_starts = [], lc_stops = [\<lparr>hk_Name = ''http'', hk_Run = StopOf http_module\<rparr>]\<rparr>\<rparr>\<rparr>"

lemma main_App_Run:
  assumes "wait (BaseCtx ()) (bs_app (main_started cfg)) (bs_world (main_started cfg)) = Some ([], srv)"
    and "hs_shutdownTimeout srv = ch_ShutdownTimeout (rt_HTTP cfg)"
  shows "\<exists>s. App_Run (main_env quote drain) wait (BaseCtx ()) (main_boot cfg) = Some (errors_Join [drain (drain_ctx cfg)], s) \<and>
    bs_world s = srv\<lparr>hs_shutdown := True\<rparr> \<and>
    bs_trace s = [Started http_module None, HookRan (StopOf http_module) (drain (drain_ctx cfg))]"
proof -
  let ?s1 = "main_started cfg"
  have start: "App_Start (main_env quote drain) (BaseCtx ()) (main_boot cfg) = (None, ?s1)"
    by (simp add: App_Start_def main_boot_def fresh_app_def App_Use_def App_New_def Let_def Module_Start_def invoke_def main_env_def
        http_module_def httpsrv_Start_def AppendStop_def log_ran_def Lifecycle_Start_def main_started_def)
  have app: "app_shutdownTimeout (bs_app ?s1) = (let t = ch_ShutdownTimeout (rt_HTTP cfg) in if t \<le>s 0 then 15 * 1000000000 else t)"
    "lc_stops (app_lifecycle (bs_app ?s1)) = [\<lparr>hk_Name = ''http'', hk_Run = StopOf http_module\<rparr>]" "bs_trace ?s1 = [Started http_module None]"
    by (simp_all add: main_started_def main_boot_def fresh_app_def App_Use_def App_New_def Let_def)
  let ?s2 = "?s1\<lparr>bs_world := srv\<rparr>"
  have dctx: "TimeoutCtx (ShutdownContext (BaseCtx ()) (app_shutdownTimeout (bs_app ?s2))) (hs_shutdownTimeout srv) = drain_ctx cfg"
    by (simp add: app drain_ctx_def assms(2) Let_def)
  have "\<exists>s. App_Stop (main_env quote drain) (BaseCtx ()) ?s2 = (errors_Join [drain (drain_ctx cfg)], s) \<and>
      bs_world s = srv\<lparr>hs_shutdown := True\<rparr> \<and>
      bs_trace s = [Started http_module None, HookRan (StopOf http_module) (drain (drain_ctx cfg))]"
    using dctx
    by (cases "drain (drain_ctx cfg)")
      (simp_all add: App_Stop_def Lifecycle_Stop_def app Hook_Run_def invoke_def main_env_def http_module_def httpsrv_Stop_def
        log_ran_def Let_def errors_Join_def)
  then show ?thesis using assms(1) by (simp add: App_Run_def start WaitForSignal_def)
qed

lemma srv_step_fixed:
  assumes "srv_step s s'"
  shows "hs_shutdownTimeout s' = hs_shutdownTimeout s" "hs_addr s' = hs_addr s" "hs_mux s' = hs_mux s"
  using assms
  by (cases; auto simp: after_serve_def httpsrv_Stop_def httpsrv_Err_def Let_def split: if_splits prod.splits)+

lemma srv_steps_fixed:
  assumes "srv_step\<^sup>*\<^sup>* s s'"
  shows "hs_shutdownTimeout s' = hs_shutdownTimeout s \<and> hs_addr s' = hs_addr s \<and> hs_mux s' = hs_mux s \<and> (once_inv s \<longrightarrow> once_inv s')"
  using assms by (induction rule: rtranclp_induct) (auto simp: srv_step_fixed once_inv_step)

lemma main_server_started:
  "once_inv (snd (httpsrv_Start (BaseCtx ()) (bs_world (main_boot cfg))))"
  "hs_shutdownTimeout (snd (httpsrv_Start (BaseCtx ()) (bs_world (main_boot cfg)))) = ch_ShutdownTimeout (rt_HTTP cfg)"
  "hs_addr (snd (httpsrv_Start (BaseCtx ()) (bs_world (main_boot cfg)))) = ch_Addr (rt_HTTP cfg)"
  "hs_mux (snd (httpsrv_Start (BaseCtx ()) (bs_world (main_boot cfg)))) = [''POST /orders'', ''GET /orders/{id}'']"
  by (simp_all add: once_inv_def httpsrv_Start_def main_boot_def fresh_app_def registerRoutes_def httpsrv_HandleFunc_def
      httpsrv_New_def Let_def)

text \<open>
  C15. The life of the example service. Once the configuration is loaded, and whatever the goroutine
  of the server does until the signal arrives, \<^verbatim>\<open>run\<close> starts the module once, stops it once and
  returns the joined result of draining; at the end the server at the configured address, with
  its two routes, is shut down, and its goroutine neither blocks nor crashes. The time given to
  requests in flight is the configured timeout, so with none configured it is zero, although the
  container then assumes fifteen seconds; and a listener that failed does not show in the result.
\<close>

theorem main_run_graceful:
  assumes cfg: "(NewViperProvider quote vp (main_options (config_path getenv)) :: goerr + ('v, unit) ViperProvider) = Inr provider"
      "Provider_Load vp provider zero_Root = (None, cfg)"
    and wait: "\<And>ctx a srv. \<exists>srv'. wait ctx a srv = Some ([], srv') \<and> srv_step\<^sup>*\<^sup>* srv srv'"
  shows "\<exists>s p. main_run quote vp getenv drain wait = Some (errors_Join [drain (drain_ctx cfg)], Some s) \<and>
    bs_trace s = [Started http_module None, HookRan (StopOf http_module) (drain (drain_ctx cfg))] \<and>
    hs_addr (bs_world s) = ch_Addr (rt_HTTP cfg) \<and> hs_mux (bs_world s) = [''POST /orders'', ''GET /orders/{id}''] \<and>
    hs_shutdown (bs_world s) \<and> hs_procs (bs_world s) = [p] \<and> p \<noteq> Stuck \<and> p \<noteq> Crashed \<and>
    budget (drain_ctx cfg) = Some (sint (ch_ShutdownTimeout (rt_HTTP cfg)))"
proof -
  obtain srv where srv: "wait (BaseCtx ()) (bs_app (main_started cfg)) (bs_world (main_started cfg)) = Some ([], srv)"
      "srv_step\<^sup>*\<^sup>* (bs_world (main_started cfg)) srv"
    using wait by blast
  have w1: "bs_world (main_started cfg) = snd (httpsrv_Start (BaseCtx ()) (bs_world (main_boot cfg)))" by (simp add: main_started_def)
  have fx: "hs_shutdownTimeout srv = ch_ShutdownTimeout (rt_HTTP cfg)" "hs_addr srv = ch_Addr (rt_HTTP cfg)"
      "hs_mux srv = [''POST /orders'', ''GET /orders/{id}'']" "once_inv srv"
    using srv_steps_fixed [OF srv(2)] main_server_started [of cfg] by (simp_all add: w1)
  then obtain p where p: "hs_procs srv = [p]" "p \<noteq> Stuck" "p \<noteq> Crashed" by (auto simp: once_inv_def)
  from main_App_Run [of wait cfg srv quote drain, OF srv(1) fx(1)] obtain s where
    s: "App_Run (main_env quote drain) wait (BaseCtx ()) (main_boot cfg) = Some (errors_Join [drain (drain_ctx cfg)], s)"
      "bs_world s = srv\<lparr>hs_shutdown := True\<rparr>"
      "bs_trace s = [Started http_module None, HookRan (StopOf http_module) (drain (drain_ctx cfg))]" by blast
  have "main_run quote vp getenv drain wait = Some (errors_Join [drain (drain_ctx cfg)], Some s)"
    using cfg s(1) by (simp add: main_run_def)
  with s(2,3) fx p drain_budget show ?thesis by (intro exI [of _ s] exI [of _ p]) simp
qed

text \<open>The theorem at a configuration that says nothing about the server.\<close>

theorem main_run_graceful_witness:
  "\<exists>s. main_run id (demo_viper :: (viper_obs, Root) viper) (\<lambda>_. ''a.yaml'') (\<lambda>_. None) (\<lambda>_ _ srv. Some ([], srv)) = Some (None, Some s) \<and>
     hs_shutdown (bs_world s) \<and> budget (drain_ctx zero_Root) = Some 0"
proof -
  let ?opts = "main_options (config_path (\<lambda>_. ''a.yaml''))"
  obtain p where p: "(NewViperProvider id (demo_viper :: (viper_obs, Root) viper) ?opts :: goerr + (viper_obs, unit) ViperProvider) = Inr p"
    by (simp add: NewViperProvider_def main_options_def config_path_def read_source_def demo_viper_def demo_fs_def Let_def)
  have l: "Provider_Load (demo_viper :: (viper_obs, Root) viper) p zero_Root = (None, zero_Root)"
    by (simp add: Provider_Load_def demo_viper_def)
  show ?thesis
    using main_run_graceful [OF p l, of "\<lambda>_ _ srv. Some ([], srv)" "\<lambda>_. None"]
    by (auto simp: errors_Join_def zero_Root_def)
qed

text \<open>
  A configuration file that cannot be read ends the process before anything is built: \<^verbatim>\<open>run\<close> returns
  an error with the cause of the file error, and \<^verbatim>\<open>main\<close> reports it and exits with status 1.
\<close>

theorem main_run_bad_config:
  fixes vp :: "('v, Root) viper"
  assumes laws: "viper_laws vp obs fs env env_name plain" and "fs (config_path getenv) = Inl e0"
  shows "\<exists>err. main_run quote vp getenv drain wait = Some (Some err, None) \<and>
    (\<forall>t. errors_Is (Some err) t \<longleftrightarrow> errors_Is (Some e0) t) \<and>
    main_exit (Some err) = ([''fatal: '' @ error_text err @ [CHR 0x0A]], 1)"
proof -
  let ?src = "\<lparr>src_Type = ''file'', src_Path = config_path getenv, src_EnvPrefix = [], src_Watch = False\<rparr>"
  have bad: "\<not> readable fs ?src" using assms(2) by (simp add: readable_def is_file_def is_env_def)
  have "(NewViperProvider quote vp (main_options (config_path getenv)) :: goerr + ('v, unit) ViperProvider) =
      Inl (source_error quote fs ?src)"
    by (rule NewViperProvider_first_bad [OF laws _ _ bad, of _ "[]"]) (simp_all add: main_options_def)
  then show ?thesis using assms(2) by (simp add: main_run_def main_exit_def source_error_def is_file_def)
qed

theorem main_run_bad_config_witness:
  "\<exists>err. main_run id (demo_viper :: (viper_obs, Root) viper) (\<lambda>_. []) (\<lambda>_. None) (\<lambda>_ _ _. None) = Some (Some err, None) \<and>
     errors_Is (Some err) (Sentinel ''file does not exist'')"
proof -
  have "demo_fs (config_path (\<lambda>_. [])) = Inl (Sentinel ''file does not exist'')" by (simp add: demo_fs_def config_path_def)
  from main_run_bad_config [OF demo_viper_laws this, of id "\<lambda>_. None" "\<lambda>_ _ _. None"] show ?thesis by auto
qed

end
