(* ===== verification/Json.thy ===== *)
theory Json
  imports Go_Runtime "HOL-Library.List_Lexorder" "HOL-Library.Char_ord"
begin

text \<open>
  The text of the JSON that the program writes: \<^verbatim>\<open>json.NewEncoder(w).Encode\<close> of the standard library on the
  values that occur, with its escaping of strings, and a reader of JSON text that follows the
  decoder of the same package (whole numbers only), as a client would use. Strings are byte
  strings; the encoder replaces bytes that are not part of a UTF-8 sequence.

  Shown: reading the text of a value gives the value back, with invalid bytes replaced, whatever
  bytes its strings contain, so no string can break out of its place in the text.
\<close>

section \<open>UTF-8\<close>

abbreviation byte :: "char \<Rightarrow> nat" where "byte \<equiv> of_char"

definition cont :: "char \<Rightarrow> bool" where "cont c \<longleftrightarrow> 0x80 \<le> byte c \<and> byte c \<le> 0xBF"

text \<open>The length of the UTF-8 sequence at the head of a string, 0 if there is none: \<^verbatim>\<open>utf8.DecodeRune\<close>.\<close>

fun rune_len :: "string \<Rightarrow> nat" where
  "rune_len [] = 0"
| "rune_len (a # s) =
     (let n = byte a; c1 = (case s of b # _ \<Rightarrow> cont b | _ \<Rightarrow> False); c2 = (case s of _ # b # _ \<Rightarrow> cont b | _ \<Rightarrow> False);
          c3 = (case s of _ # _ # b # _ \<Rightarrow> cont b | _ \<Rightarrow> False); b1 = (case s of b # _ \<Rightarrow> byte b | [] \<Rightarrow> 0)
      in if n < 0x80 then 1
         else if n < 0xC2 then 0
         else if n < 0xE0 then (if c1 then 2 else 0)
         else if n < 0xF0 then
           (if c1 \<and> c2 \<and> (n = 0xE0 \<longrightarrow> 0xA0 \<le> b1) \<and> (n = 0xED \<longrightarrow> b1 \<le> 0x9F) then 3 else 0)
         else if n < 0xF5 then
           (if c1 \<and> c2 \<and> c3 \<and> (n = 0xF0 \<longrightarrow> 0x90 \<le> b1) \<and> (n = 0xF4 \<longrightarrow> b1 \<le> 0x8F) then 4 else 0)
         else 0)"

definition utf8_encode :: "nat \<Rightarrow> string" where
  "utf8_encode u =
     (if u < 0x80 then [char_of u]
      else if u < 0x800 then [char_of (0xC0 + u div 64), char_of (0x80 + u mod 64)]
      else if u < 0x10000 then [char_of (0xE0 + u div 4096), char_of (0x80 + u div 64 mod 64), char_of (0x80 + u mod 64)]
      else [char_of (0xF0 + u div 262144), char_of (0x80 + u div 4096 mod 64), char_of (0x80 + u div 64 mod 64), char_of (0x80 + u mod 64)])"

definition RuneError :: string where "RuneError = utf8_encode 0xFFFD"

text \<open>Every byte that starts no sequence is replaced.\<close>

function valid_utf8 :: "string \<Rightarrow> string" where
  "valid_utf8 [] = []"
| "valid_utf8 (c # cs) =
     (let n = rune_len (c # cs)
      in if n = 0 then RuneError @ valid_utf8 cs else take n (c # cs) @ valid_utf8 (drop n (c # cs)))"
  by pat_completeness auto
termination by (relation "measure length") auto

section \<open>The encoder\<close>

definition hex_digit :: "nat \<Rightarrow> char" where
  "hex_digit d = ''0123456789abcdef'' ! d"

definition quote :: char where "quote = CHR 0x22"
definition backslash :: char where "backslash = CHR 0x5C"

text \<open>One byte below 128 in \<^verbatim>\<open>appendString\<close>, with HTML characters escaped.\<close>

definition escape_byte :: "char \<Rightarrow> string" where
  "escape_byte c =
     (if c = backslash \<or> c = quote then [backslash, c]
      else if byte c = 8 then [backslash, CHR ''b'']
      else if byte c = 12 then [backslash, CHR ''f'']
      else if byte c = 10 then [backslash, CHR ''n'']
      else if byte c = 13 then [backslash, CHR ''r'']
      else if byte c = 9 then [backslash, CHR ''t'']
      else if byte c < 32 \<or> c = CHR ''<'' \<or> c = CHR ''>'' \<or> c = CHR ''&'' then
        [backslash, CHR ''u'', CHR ''0'', CHR ''0'', hex_digit (byte c div 16), hex_digit (byte c mod 16)]
      else [c])"

definition line_separator :: string where "line_separator = utf8_encode 0x2028"
definition paragraph_separator :: string where "paragraph_separator = utf8_encode 0x2029"

function appendString :: "string \<Rightarrow> string" where
  "appendString [] = []"
| "appendString (c # cs) =
     (if byte c < 0x80 then escape_byte c @ appendString cs
      else
        (let n = rune_len (c # cs); r = take n (c # cs)
         in if n = 0 then backslash # ''ufffd'' @ appendString cs
            else (if r = line_separator then backslash # ''u2028''
                  else if r = paragraph_separator then backslash # ''u2029'' else r) @ appendString (drop n (c # cs))))"
  by pat_completeness auto
termination by (relation "measure length") auto

definition json_string :: "string \<Rightarrow> string" where
  "json_string s = quote # appendString s @ [quote]"

datatype json = JNull | JBool bool | JInt int | JStr string | JArr "json list" | JObj "(string \<times> json) list"

fun json_print :: "json \<Rightarrow> string" and print_elems :: "json list \<Rightarrow> string" and print_fields :: "(string \<times> json) list \<Rightarrow> string" where
  "json_print JNull = ''null''"
| "json_print (JBool b) = (if b then ''true'' else ''false'')"
| "json_print (JInt i) = fmt_d i"
| "json_print (JStr s) = json_string s"
| "json_print (JArr vs) = CHR ''['' # print_elems vs @ '']''"
| "json_print (JObj fs) = CHR ''{'' # print_fields fs @ ''}''"
| "print_elems [] = []"
| "print_elems (v # vs) = json_print v @ (if vs = [] then [] else CHR '','' # print_elems vs)"
| "print_fields [] = []"
| "print_fields ((k, v) # fs) = json_string k @ CHR '':'' # json_print v @ (if fs = [] then [] else CHR '','' # print_fields fs)"

text \<open>\<^verbatim>\<open>Encode\<close> ends the value with a newline.\<close>

definition json_Encode :: "json \<Rightarrow> string" where
  "json_Encode v = json_print v @ [char_of (10 :: nat)]"

section \<open>The reader\<close>

definition white :: "char \<Rightarrow> bool" where
  "white c \<longleftrightarrow> byte c \<in> {32, 9, 10, 13}"

definition skip :: "string \<Rightarrow> string" where
  "skip s = dropWhile white s"

definition hex_value :: "char \<Rightarrow> nat option" where
  "hex_value c =
     (let n = byte c
      in if 48 \<le> n \<and> n \<le> 57 then Some (n - 48)
         else if 97 \<le> n \<and> n \<le> 102 then Some (n - 87)
         else if 65 \<le> n \<and> n \<le> 70 then Some (n - 55)
         else None)"

text \<open>Four hexadecimal digits, as \<^verbatim>\<open>getu4\<close> reads them after the \<^verbatim>\<open>u\<close> of an escape.\<close>

fun getu4 :: "string \<Rightarrow> (nat \<times> string) option" where
  "getu4 (a # b # c # d # s) = do {
     a \<leftarrow> hex_value a; b \<leftarrow> hex_value b; c \<leftarrow> hex_value c; d \<leftarrow> hex_value d;
     Some (4096 * a + 256 * b + 16 * c + d, s) }"
| "getu4 _ = None"

lemma getu4_shorter: "getu4 s = Some (u, r) \<Longrightarrow> length r < length s"
  by (cases s rule: getu4.cases) (auto split: bind_splits)

definition simple_escape :: "char \<Rightarrow> char option" where
  "simple_escape e =
     (if e = quote \<or> e = backslash \<or> e = CHR ''/'' then Some e
      else if e = CHR ''b'' then Some (char_of (8 :: nat))
      else if e = CHR ''f'' then Some (char_of (12 :: nat))
      else if e = CHR ''n'' then Some (char_of (10 :: nat))
      else if e = CHR ''r'' then Some (char_of (13 :: nat))
      else if e = CHR ''t'' then Some (char_of (9 :: nat))
      else None)"

text \<open>The second half of a surrogate pair, or the replacement character for half a pair.\<close>

definition low_surrogate :: "nat \<Rightarrow> string \<Rightarrow> (nat \<times> string) option" where
  "low_surrogate u s =
     (case s of
        a # b # s' \<Rightarrow>
          if a = backslash \<and> b = CHR ''u'' then
            (case getu4 s' of
               Some (v, r) \<Rightarrow> if u < 0xDC00 \<and> 0xDC00 \<le> v \<and> v < 0xE000
                 then Some (0x10000 + 1024 * (u - 0xD800) + (v - 0xDC00), r) else None
             | None \<Rightarrow> None)
          else None
      | _ \<Rightarrow> None)"

definition read_unicode :: "string \<Rightarrow> (string \<times> string) option" where
  "read_unicode s =
     (case getu4 s of
        None \<Rightarrow> None
      | Some (u, r) \<Rightarrow>
          if 0xD800 \<le> u \<and> u < 0xE000 then
            (case low_surrogate u r of Some (w, r') \<Rightarrow> Some (utf8_encode w, r') | None \<Rightarrow> Some (RuneError, r))
          else Some (utf8_encode u, r))"

lemma read_unicode_shorter: "read_unicode s = Some (x, r) \<Longrightarrow> length r < length s"
  by (auto simp: read_unicode_def low_surrogate_def split: option.splits if_splits list.splits dest!: getu4_shorter)

text \<open>The rest of a string literal after its opening quote.\<close>

function read_string :: "string \<Rightarrow> (string \<times> string) option" where
  "read_string [] = None"
| "read_string (c # cs) =
     (if c = quote then Some ([], cs)
      else if c = backslash then
        (case cs of
           [] \<Rightarrow> None
         | e # r \<Rightarrow>
             if e = CHR ''u'' then
               (case read_unicode r of
                  None \<Rightarrow> None
                | Some (x, r') \<Rightarrow> map_option (map_prod ((@) x) id) (read_string r'))
             else
               (case simple_escape e of
                  None \<Rightarrow> None
                | Some x \<Rightarrow> map_option (map_prod ((#) x) id) (read_string r)))
      else if byte c < 32 then None
      else
        (let n = rune_len (c # cs)
         in if n = 0 then map_option (map_prod ((@) RuneError) id) (read_string cs)
            else map_option (map_prod ((@) (take n (c # cs))) id) (read_string (drop n (c # cs)))))"
  by pat_completeness auto
termination by (relation "measure length") (auto dest: read_unicode_shorter)

declare appendString.simps(2) [simp del] valid_utf8.simps(2) [simp del] read_string.simps(2) [simp del] rune_len.simps(2) [simp del]

definition digit :: "char \<Rightarrow> bool" where "digit c \<longleftrightarrow> 48 \<le> byte c \<and> byte c \<le> 57"

definition digits_value :: "string \<Rightarrow> nat" where
  "digits_value ds = foldl (\<lambda>n c. 10 * n + (byte c - 48)) 0 ds"

definition read_nat :: "string \<Rightarrow> (nat \<times> string) option" where
  "read_nat s =
     (let ds = takeWhile digit s; r = dropWhile digit s
      in if ds = [] \<or> (hd ds = CHR ''0'' \<and> tl ds \<noteq> []) \<or> (r \<noteq> [] \<and> hd r \<in> set ''.eE'') then None
         else Some (digits_value ds, r))"

definition read_int :: "string \<Rightarrow> (int \<times> string) option" where
  "read_int s =
     (case s of
        [] \<Rightarrow> None
      | c # s' \<Rightarrow>
          if c = CHR ''-'' then map_option (map_prod (\<lambda>n. - int n) id) (read_nat s')
          else map_option (map_prod int id) (read_nat s))"

definition read_word :: "string \<Rightarrow> json \<Rightarrow> string \<Rightarrow> (json \<times> string) option" where
  "read_word w v s = (if take (length w) s = w then Some (v, drop (length w) s) else None)"

text \<open>Values, and the elements of arrays and fields of objects up to the closing bracket; the fuel bounds the nesting.\<close>

fun read_value :: "nat \<Rightarrow> string \<Rightarrow> (json \<times> string) option" and read_elems :: "nat \<Rightarrow> string \<Rightarrow> (json list \<times> string) option"
  and read_fields :: "nat \<Rightarrow> string \<Rightarrow> ((string \<times> json) list \<times> string) option" where
  "read_value 0 s = None"
| "read_value (Suc n) s =
     (case skip s of
        [] \<Rightarrow> None
      | c # cs \<Rightarrow>
          if c = CHR ''n'' then read_word ''null'' JNull (c # cs)
          else if c = CHR ''t'' then read_word ''true'' (JBool True) (c # cs)
          else if c = CHR ''f'' then read_word ''false'' (JBool False) (c # cs)
          else if c = quote then map_option (map_prod JStr id) (read_string cs)
          else if c = CHR ''['' then
            (case skip cs of
               [] \<Rightarrow> None
             | d # r \<Rightarrow> if d = CHR '']'' then Some (JArr [], r) else map_option (map_prod JArr id) (read_elems n cs))
          else if c = CHR ''{'' then
            (case skip cs of
               [] \<Rightarrow> None
             | d # r \<Rightarrow> if d = CHR ''}'' then Some (JObj [], r) else map_option (map_prod JObj id) (read_fields n cs))
          else map_option (map_prod JInt id) (read_int (c # cs)))"
| "read_elems 0 s = None"
| "read_elems (Suc n) s =
     (case read_value n s of
        None \<Rightarrow> None
      | Some (v, r) \<Rightarrow>
          (case skip r of
             [] \<Rightarrow> None
           | d # r' \<Rightarrow>
               if d = CHR '','' then map_option (map_prod ((#) v) id) (read_elems n r')
               else if d = CHR '']'' then Some ([v], r')
               else None))"
| "read_fields 0 s = None"
| "read_fields (Suc n) s =
     (case skip s of
        [] \<Rightarrow> None
      | q # s' \<Rightarrow>
          if q \<noteq> quote then None
          else
            (case read_string s' of
               None \<Rightarrow> None
             | Some (k, r) \<Rightarrow>
                 (case skip r of
                    [] \<Rightarrow> None
                  | col # r1 \<Rightarrow>
                      if col \<noteq> CHR '':'' then None
                      else
                        (case read_value n r1 of
                           None \<Rightarrow> None
                         | Some (v, r2) \<Rightarrow>
                             (case skip r2 of
                                [] \<Rightarrow> None
                              | d # r3 \<Rightarrow>
                                  if d = CHR '','' then map_option (map_prod ((#) (k, v)) id) (read_fields n r3)
                                  else if d = CHR ''}'' then Some ([(k, v)], r3)
                                  else None)))))"

definition json_parse :: "string \<Rightarrow> json option" where
  "json_parse s = (case read_value (length s) s of Some (v, r) \<Rightarrow> if skip r = [] then Some v else None | None \<Rightarrow> None)"

section \<open>Strings\<close>

lemmas rune_cases = rune_len.simps Let_def

lemma rune_len_le: "rune_len s \<le> length s"
  by (cases s) (auto simp: rune_cases split: list.splits)

lemma rune_len_ascii: "byte c < 0x80 \<Longrightarrow> rune_len (c # cs) = 1"
  by (simp add: rune_cases)

text \<open>A sequence is recognised by its own bytes.\<close>

lemma rune_len_take:
  assumes "rune_len s = n" "0 < n"
  shows "rune_len (take n s @ t) = n"
proof -
  obtain c cs where s: "s = c # cs" using assms by (cases s) auto
  consider "byte c < 0x80" | "0x80 \<le> byte c" "byte c < 0xE0" | "0xE0 \<le> byte c" "byte c < 0xF0" | "0xF0 \<le> byte c" by linarith
  then show ?thesis
  proof cases
    case 1
    then have "n = 1" using assms(1) by (simp add: s rune_cases)
    with 1 show ?thesis by (simp add: s rune_cases)
  next
    case 2
    with assms obtain b r where cs: "cs = b # r" "cont b" "n = 2" by (auto simp: s rune_cases split: if_splits list.splits)
    with assms(1) 2 show ?thesis by (simp add: s rune_cases split: if_splits)
  next
    case 3
    with assms obtain b b' r where cs: "cs = b # b' # r" "cont b" "cont b'" "n = 3"
      by (auto simp: s rune_cases split: if_splits list.splits)
    with assms(1) 3 show ?thesis by (simp add: s rune_cases split: if_splits)
  next
    case 4
    with assms obtain b b' b'' r where cs: "cs = b # b' # b'' # r" "cont b" "cont b'" "cont b''" "n = 4"
      by (auto simp: s rune_cases split: if_splits list.splits)
    with assms(1) 4 show ?thesis by (simp add: s rune_cases split: if_splits)
  qed
qed

lemma hex_value_digit: "d < 16 \<Longrightarrow> hex_value (hex_digit d) = Some d"
proof -
  assume "d < 16"
  then have "d \<in> set [0..<16]" by simp
  moreover have "\<forall>d\<in>set [0..<16]. hex_value (hex_digit d) = Some d" by code_simp
  ultimately show ?thesis by blast
qed

lemma getu4_byte:
  assumes "n < 256"
  shows "getu4 (CHR ''0'' # CHR ''0'' # hex_digit (n div 16) # hex_digit (n mod 16) # s) = Some (n, s)"
proof -
  have "hex_value CHR ''0'' = Some 0" by code_simp
  then show ?thesis using assms by (simp add: hex_value_digit)
qed

lemma getu4_consts:
  "getu4 (CHR ''f'' # CHR ''f'' # CHR ''f'' # CHR ''d'' # s) = Some (0xFFFD, s)"
  "getu4 (CHR ''2'' # CHR ''0'' # CHR ''2'' # CHR ''8'' # s) = Some (0x2028, s)"
  "getu4 (CHR ''2'' # CHR ''0'' # CHR ''2'' # CHR ''9'' # s) = Some (0x2029, s)"
  by (simp_all add: hex_value_def)

lemma read_escaped:
  assumes "byte c < 0x80"
  shows "read_string (escape_byte c @ s) = map_option (map_prod ((#) c) id) (read_string s)"
proof -
  have ascii: "utf8_encode n = [char_of n]" if "n < 0x80" for n using that by (simp add: utf8_encode_def)
  have one: "(@) [c] = (#) c" by (simp add: fun_eq_iff)
  consider (esc) "c = backslash \<or> c = quote" | (ctl) "byte c \<in> {8, 12, 10, 13, 9}"
    | (hex) "c \<noteq> backslash" "c \<noteq> quote" "byte c \<notin> {8, 12, 10, 13, 9}" "byte c < 32 \<or> c = CHR ''<'' \<or> c = CHR ''>'' \<or> c = CHR ''&''"
    | (plain) "c \<noteq> backslash" "c \<noteq> quote" "\<not> byte c < 32" "\<not> (c = CHR ''<'' \<or> c = CHR ''>'' \<or> c = CHR ''&'')"
    by blast
  then show ?thesis
  proof cases
    case esc
    then show ?thesis by (auto simp: escape_byte_def read_string.simps simple_escape_def backslash_def quote_def)
  next
    case ctl
    have c: "char_of n = c" if "byte c = n" for n using that by auto
    from ctl show ?thesis
      by (auto simp: c escape_byte_def read_string.simps simple_escape_def backslash_def quote_def)
  next
    case hex
    then have "escape_byte c = [backslash, CHR ''u'', CHR ''0'', CHR ''0'', hex_digit (byte c div 16), hex_digit (byte c mod 16)]"
      by (simp add: escape_byte_def)
    then show ?thesis
      using assms by (simp add: one read_string.simps read_unicode_def getu4_byte ascii backslash_def quote_def del: getu4.simps)
  next
    case plain
    then have "escape_byte c = [c]" by (auto simp: escape_byte_def)
    with plain rune_len_ascii [OF assms] show ?thesis by (simp add: one read_string.simps Let_def)
  qed
qed

lemma read_rune:
  assumes "rune_len (c # cs) = n" "0 < n" "0x80 \<le> byte c"
  shows "read_string (take n (c # cs) @ s) = map_option (map_prod ((@) (take n (c # cs))) id) (read_string s)"
proof -
  obtain m where n: "n = Suc m" using assms(2) by (cases n) auto
  have len: "m \<le> length cs" using rune_len_le [of "c # cs"] assms(1) n by simp
  have "c \<noteq> quote" "c \<noteq> backslash" "\<not> byte c < 32" using assms(3) by (auto simp: quote_def backslash_def)
  moreover have "rune_len (c # take m cs @ s) = n" using rune_len_take [OF assms(1,2), of s] n by simp
  ultimately show ?thesis using n len by (simp add: read_string.simps Let_def min_def)
qed

lemma read_appendString: "read_string (appendString s @ quote # rest) = Some (valid_utf8 s, rest)"
proof (induction s rule: appendString.induct)
  case 1
  show ?case by (simp add: read_string.simps)
next
  case (2 c cs)
  show ?case
  proof (cases "byte c < 0x80")
    case True
    with 2(1) rune_len_ascii [OF True] show ?thesis
      by (simp add: appendString.simps read_escaped valid_utf8.simps Let_def)
  next
    case False
    let ?n = "rune_len (c # cs)" and ?r = "take (rune_len (c # cs)) (c # cs)"
    show ?thesis
    proof (cases "?n = 0")
      case True
      with False 2(2) show ?thesis
        by (simp add: appendString.simps valid_utf8.simps read_string.simps read_unicode_def getu4_consts
            RuneError_def backslash_def quote_def del: getu4.simps)
    next
      case n: False
      have IH: "read_string (appendString (drop ?n (c # cs)) @ quote # rest) = Some (valid_utf8 (drop ?n (c # cs)), rest)"
        using 2(3) False n by simp
      have v: "valid_utf8 (c # cs) = ?r @ valid_utf8 (drop ?n (c # cs))" using n by (simp add: valid_utf8.simps Let_def)
      consider (ls) "?r = line_separator" | (ps) "?r = paragraph_separator" "?r \<noteq> line_separator"
        | (other) "?r \<noteq> paragraph_separator" "?r \<noteq> line_separator" by blast
      then show ?thesis
      proof cases
        case ls
        then have "appendString (c # cs) = backslash # ''u2028'' @ appendString (drop ?n (c # cs))"
          using False n by (simp add: appendString.simps Let_def)
        with IH ls v show ?thesis
          by (simp add: read_string.simps read_unicode_def getu4_consts line_separator_def backslash_def quote_def
              del: getu4.simps)
      next
        case ps
        then have "appendString (c # cs) = backslash # ''u2029'' @ appendString (drop ?n (c # cs))"
          using False n by (simp add: appendString.simps Let_def)
        with IH ps v show ?thesis
          by (simp add: read_string.simps read_unicode_def getu4_consts paragraph_separator_def backslash_def quote_def
              del: getu4.simps)
      next
        case other
        then have "appendString (c # cs) = ?r @ appendString (drop ?n (c # cs))"
          using False n by (simp add: appendString.simps Let_def)
        with IH v n False show ?thesis by (simp only: append_assoc) (simp add: read_rune)
      qed
    qed
  qed
qed

section \<open>Numbers\<close>

lemma byte_digit: "d < 10 \<Longrightarrow> byte (char_of (48 + d :: nat)) = 48 + d"
  by (simp add: of_char_of)

lemma dec_digits_digit: "\<forall>c\<in>set (dec_digits n). digit c"
proof (induction n rule: dec_digits.induct)
  case (1 n)
  have "digit (char_of (48 + d :: nat))" if "d < 10" for d using that byte_digit [OF that] by (simp add: digit_def)
  with 1 show ?case by (subst dec_digits.simps) (auto simp del: of_char_of)
qed

lemma dec_digits_value: "digits_value (dec_digits n) = n"
proof (induction n rule: dec_digits.induct)
  case (1 n)
  have "byte (char_of (48 + d :: nat)) - 48 = d" if "d < 10" for d using byte_digit [OF that] by simp
  with 1 show ?case
    by (subst dec_digits.simps) (simp add: digits_value_def del: of_char_of)
qed

lemma dec_digits_canonical: "dec_digits n \<noteq> [] \<and> (hd (dec_digits n) = CHR ''0'' \<longrightarrow> tl (dec_digits n) = [])"
proof (induction n rule: dec_digits.induct)
  case (1 n)
  show ?case
  proof (cases "n < 10")
    case False
    let ?m = "n div 10"
    have "hd (dec_digits ?m) \<noteq> CHR ''0''"
    proof
      assume z: "hd (dec_digits ?m) = CHR ''0''"
      with 1 False have "dec_digits ?m = [CHR ''0'']" by (metis list.collapse)
      then have "digits_value (dec_digits ?m) = 0" by (simp add: digits_value_def)
      with False show False by (simp add: dec_digits_value)
    qed
    with 1 False show ?thesis by (subst (1 2 3) dec_digits.simps) simp
  qed (simp add: dec_digits.simps)
qed

lemma digits_head: "\<exists>c cs. dec_digits n = c # cs \<and> digit c"
  using dec_digits_canonical [of n] dec_digits_digit [of n] by (cases "dec_digits n") auto

text \<open>What may follow a number so that the number ends there.\<close>

definition ends_number :: "string \<Rightarrow> bool" where
  "ends_number r \<longleftrightarrow> r = [] \<or> (\<not> digit (hd r) \<and> hd r \<notin> set ''.eE'')"

lemma read_nat_digits:
  assumes "ends_number r"
  shows "read_nat (dec_digits n @ r) = Some (n, r)"
proof -
  have "takeWhile digit (dec_digits n @ r) = dec_digits n" "dropWhile digit (dec_digits n @ r) = r"
    using dec_digits_digit [of n] assms by (cases r; simp add: ends_number_def takeWhile_append dropWhile_append)+
  with assms dec_digits_canonical [of n] show ?thesis by (auto simp: read_nat_def Let_def dec_digits_value ends_number_def)
qed

lemma read_int_fmt:
  assumes "ends_number r"
  shows "read_int (fmt_d i @ r) = Some (i, r)"
proof (cases "i < 0")
  case True
  then show ?thesis by (simp add: fmt_d_def read_int_def read_nat_digits [OF assms])
next
  case False
  from digits_head obtain c cs where c: "dec_digits (nat i) = c # cs" "digit c" by blast
  then have "c \<noteq> CHR ''-''" by (auto simp: digit_def)
  with c have "read_int (dec_digits (nat i) @ r) = map_option (map_prod int id) (read_nat (dec_digits (nat i) @ r))"
    by (simp add: read_int_def)
  with False show ?thesis by (simp add: fmt_d_def read_nat_digits [OF assms])
qed

section \<open>Values\<close>

fun json_norm :: "json \<Rightarrow> json" and norm_elems :: "json list \<Rightarrow> json list" and norm_fields :: "(string \<times> json) list \<Rightarrow> (string \<times> json) list" where
  "json_norm (JStr s) = JStr (valid_utf8 s)"
| "json_norm (JArr vs) = JArr (norm_elems vs)"
| "json_norm (JObj fs) = JObj (norm_fields fs)"
| "json_norm JNull = JNull"
| "json_norm (JBool b) = JBool b"
| "json_norm (JInt i) = JInt i"
| "norm_elems [] = []"
| "norm_elems (v # vs) = json_norm v # norm_elems vs"
| "norm_fields [] = []"
| "norm_fields ((k, v) # fs) = (valid_utf8 k, json_norm v) # norm_fields fs"

text \<open>The fuel a value needs.\<close>

fun need :: "json \<Rightarrow> nat" and need_elems :: "json list \<Rightarrow> nat" and need_fields :: "(string \<times> json) list \<Rightarrow> nat" where
  "need (JArr vs) = Suc (need_elems vs)"
| "need (JObj fs) = Suc (need_fields fs)"
| "need JNull = 1"
| "need (JBool b) = 1"
| "need (JInt i) = 1"
| "need (JStr s) = 1"
| "need_elems [] = 0"
| "need_elems (v # vs) = Suc (max (need v) (need_elems vs))"
| "need_fields [] = 0"
| "need_fields ((k, v) # fs) = Suc (max (need v) (need_fields fs))"

lemma fmt_d_length: "1 \<le> length (fmt_d i)"
  using dec_digits_canonical by (cases "fmt_d i") (auto simp: fmt_d_def split: if_splits)

lemma need_length:
  "need v \<le> length (json_print v)" "need_elems vs \<le> length (print_elems vs) + 1" "need_fields fs \<le> length (print_fields fs) + 1"
  using fmt_d_length
  by (induction v and vs and fs rule: json_print_print_elems_print_fields.induct) (auto simp: json_string_def)

lemma skip_visible: "\<not> white c \<Longrightarrow> skip (c # s) = c # s"
  by (simp add: skip_def)

text \<open>The first character of a printed value.\<close>

lemma print_head:
  obtains c cs where "json_print v = c # cs" "\<not> white c" "c \<noteq> CHR '']''"
proof (cases v)
  case (JInt i)
  show ?thesis
  proof (cases "i < 0")
    case True
    with JInt that [of "CHR ''-''"] show ?thesis by (simp add: fmt_d_def white_def)
  next
    case False
    from digits_head obtain c cs where c: "dec_digits (nat i) = c # cs" "digit c" by blast
    then have "\<not> white c" "c \<noteq> CHR '']''" by (auto simp: digit_def white_def)
    with c(1) False JInt that show ?thesis by (simp add: fmt_d_def)
  qed
next
  case (JBool b)
  then show ?thesis using that [of "hd (json_print v)" "tl (json_print v)"] by (cases b) (simp_all add: white_def)
qed (use that in \<open>auto simp: white_def json_string_def quote_def\<close>)

lemma read_word_print: "read_word w v (w @ r) = Some (v, r)"
  by (simp add: read_word_def)

lemma read_string_print: "read_string (appendString s @ quote # r) = Some (valid_utf8 s, r)"
  by (rule read_appendString)

lemma read_int_value:
  assumes "ends_number r"
  shows "read_value (Suc n) (fmt_d i @ r) = Some (JInt i, r)"
proof -
  obtain c cs where c: "fmt_d i = c # cs" "\<not> white c" "digit c \<or> c = CHR ''-''"
  proof (cases "i < 0")
    case True
    with that [of "CHR ''-''"] show ?thesis by (simp add: fmt_d_def white_def)
  next
    case False
    from digits_head obtain c cs where "dec_digits (nat i) = c # cs" "digit c" by blast
    with False that show ?thesis by (auto simp: fmt_d_def digit_def white_def)
  qed
  then have "c \<notin> {CHR ''n'', CHR ''t'', CHR ''f'', quote, CHR ''['', CHR ''{''}" by (auto simp: digit_def quote_def)
  with c(1,2) read_int_fmt [OF assms, of i] show ?thesis by (simp add: skip_visible)
qed

lemma ends_number_simps [simp]:
  "ends_number (CHR '','' # r)" "ends_number (CHR '']'' # r)" "ends_number (CHR ''}'' # r)"
  by (simp_all add: ends_number_def digit_def)

lemma skip_simps [simp]:
  "skip (CHR '','' # r) = CHR '','' # r" "skip (CHR '']'' # r) = CHR '']'' # r" "skip (CHR ''}'' # r) = CHR ''}'' # r"
  "skip (CHR '':'' # r) = CHR '':'' # r" "skip (quote # r) = quote # r" "skip (CHR ''['' # r) = CHR ''['' # r"
  "skip (CHR ''{'' # r) = CHR ''{'' # r" "skip (CHR 0x22 # r) = CHR 0x22 # r"
  by (simp_all add: skip_visible white_def quote_def)

lemma read_print:
  "ends_number r \<Longrightarrow> need v \<le> n \<Longrightarrow> read_value n (json_print v @ r) = Some (json_norm v, r)"
  "vs \<noteq> [] \<Longrightarrow> need_elems vs \<le> n \<Longrightarrow> read_elems n (print_elems vs @ CHR '']'' # r) = Some (norm_elems vs, r)"
  "fs \<noteq> [] \<Longrightarrow> need_fields fs \<le> n \<Longrightarrow> read_fields n (print_fields fs @ CHR ''}'' # r) = Some (norm_fields fs, r)"
proof (induction v and vs and fs arbitrary: n r and n r and n r rule: json_print_print_elems_print_fields.induct)
  case (5 vs)
  then obtain m where n: "n = Suc m" "need_elems vs \<le> m" by (cases n) auto
  show ?case
  proof (cases vs)
    case (Cons v ws)
    obtain c cs where "json_print v = c # cs" "\<not> white c" "c \<noteq> CHR '']''" by (rule print_head)
    with Cons 5(1) [OF _ n(2)] n(1) show ?thesis by (simp add: skip_visible quote_def)
  qed (simp add: n quote_def)
next
  case (6 fs)
  then obtain m where n: "n = Suc m" "need_fields fs \<le> m" by (cases n) auto
  show ?case
  proof (cases fs)
    case (Cons f gs)
    obtain k v where "f = (k, v)" by (cases f)
    with Cons 6(1) [OF _ n(2)] n(1) show ?thesis by (simp add: json_string_def quote_def)
  qed (simp add: n quote_def)
next
  case (8 v vs)
  then obtain m where n: "n = Suc m" "need v \<le> m" "need_elems vs \<le> m" by (cases n) auto
  with 8(1,2) show ?case by (cases "vs = []") simp_all
next
  case (10 k v fs)
  then obtain m where n: "n = Suc m" "need v \<le> m" "need_fields fs \<le> m" by (cases n) auto
  with 10(1,2) show ?case by (cases "fs = []") (simp_all add: json_string_def read_string_print)
next
  case 1
  then obtain m where "n = Suc m" by (cases n) auto
  then show ?case using read_word_print [of "''null''" JNull r] by (simp add: skip_visible white_def)
next
  case (2 b)
  then obtain m where "n = Suc m" by (cases n) auto
  then show ?case using read_word_print [of "''true''" "JBool True" r] read_word_print [of "''false''" "JBool False" r]
    by (simp add: skip_visible white_def)
next
  case (3 i)
  then obtain m where "n = Suc m" by (cases n) auto
  with read_int_value [OF 3(1)] show ?case by simp
next
  case (4 s)
  then obtain m where "n = Suc m" by (cases n) auto
  then show ?case using read_string_print [of s r] by (simp add: json_string_def quote_def)
qed simp_all

text \<open>The strings the encoder keeps as they are.\<close>

lemma valid_utf8_ascii: "\<forall>c\<in>set s. byte c < 0x80 \<Longrightarrow> valid_utf8 s = s"
  by (induction s) (simp_all add: valid_utf8.simps rune_len_ascii)

lemma valid_utf8_sequence:
  assumes "rune_len s = n" "0 < n"
  shows "valid_utf8 (take n s @ t) = take n s @ valid_utf8 t"
proof -
  have len: "length (take n s) = n" using rune_len_le [of s] assms(1) by simp
  obtain c cs where c: "take n s @ t = c # cs" using len assms(2) by (cases "take n s @ t") auto
  have "rune_len (c # cs) = n" using rune_len_take [OF assms, of t] c by simp
  then have "valid_utf8 (c # cs) = take n (c # cs) @ valid_utf8 (drop n (c # cs))" using assms(2) by (simp add: valid_utf8.simps Let_def)
  with c [symmetric] len show ?thesis by simp
qed

lemma valid_utf8_error: "valid_utf8 (RuneError @ t) = RuneError @ valid_utf8 t"
proof -
  have "rune_len RuneError = 3" by (simp add: RuneError_def utf8_encode_def rune_cases cont_def)
  moreover have "take 3 RuneError = RuneError" by (simp add: RuneError_def utf8_encode_def)
  ultimately show ?thesis using valid_utf8_sequence [of RuneError 3 t] by simp
qed

lemma valid_utf8_idem: "valid_utf8 (valid_utf8 s) = valid_utf8 s"
proof (induction s rule: valid_utf8.induct)
  case (2 c cs)
  show ?case
  proof (cases "rune_len (c # cs) = 0")
    case True
    with 2(1) show ?thesis by (simp add: valid_utf8.simps(2) [of c cs] valid_utf8_error)
  next
    case False
    with 2(2) show ?thesis by (simp add: valid_utf8.simps(2) [of c cs] Let_def valid_utf8_sequence del: take_Cons' drop_Cons')
  qed
qed simp

text \<open>Reading the encoded text of any value gives the value, with invalid bytes replaced.\<close>

theorem json_round_trip: "json_parse (json_Encode v) = Some (json_norm v)"
proof -
  let ?nl = "[char_of (10 :: nat)]"
  have "ends_number ?nl" by code_simp
  moreover have "need v \<le> length (json_Encode v)" using need_length(1) [of v] by (simp add: json_Encode_def)
  ultimately have "read_value (length (json_Encode v)) (json_print v @ ?nl) = Some (json_norm v, ?nl)" by (rule read_print)
  moreover have "skip ?nl = []" by code_simp
  ultimately show ?thesis by (simp add: json_parse_def json_Encode_def)
qed

end
