(* ===== verification/Wire.thy ===== *)
theory Wire
  imports Json Order_App
begin

text \<open>
  What goes over the wire: the bodies of the HTTP responses as bytes. The routes of the example and
  the error writer of \<^verbatim>\<open>pkg/errorsx/httpx\<close> send values through \<^verbatim>\<open>json.NewEncoder\<close>, error texts through \<^verbatim>\<open>http.Error\<close>.
\<close>

section \<open>The routes of the example\<close>

text \<open>Structs without tags are encoded with their field names, in the order of the declaration.\<close>

definition marshal_result :: "PlaceOrderResult \<Rightarrow> json" where
  "marshal_result r = JObj [(''OrderID'', JStr (pr_OrderID r)), (''TotalCents'', JInt (sint (pr_TotalCents r)))]"

definition marshal_view :: "OrderView \<Rightarrow> json" where
  "marshal_view v =
     JObj [(''OrderID'', JStr (ov_OrderID v)), (''CustomerID'', JStr (ov_CustomerID v)), (''Status'', JStr (ov_Status v)),
       (''TotalCents'', JInt (sint (ov_TotalCents v))), (''Version'', JInt (sint (ov_Version v)))]"

text \<open>\<^verbatim>\<open>http.Error\<close> ends its text with a newline.\<close>

fun payload_text :: "payload \<Rightarrow> string" where
  "payload_text PNull = json_Encode JNull"
| "payload_text (PText m) = m @ [char_of (10 :: nat)]"
| "payload_text (PResult r) = json_Encode (marshal_result r)"
| "payload_text (PView v) = json_Encode (marshal_view v)"

definition body_text :: "payload ResponseWriter \<Rightarrow> string" where
  "body_text rw = concat (map payload_text (rw_body rw))"

section \<open>The error writer\<close>

text \<open>How values of other types are encoded is a parameter; \<^term>\<open>None\<close> stands for an encoding error.\<close>

fun marshal_any :: "(nat \<Rightarrow> json option) \<Rightarrow> any \<Rightarrow> json option" where
  "marshal_any enc ANil = Some JNull"
| "marshal_any enc (AString s) = Some (JStr s)"
| "marshal_any enc (AInt i) = Some (JInt i)"
| "marshal_any enc (ABool b) = Some (JBool b)"
| "marshal_any enc (AOpaque n) = enc n"

text \<open>A map is encoded with its keys in order.\<close>

definition marshal_map :: "(nat \<Rightarrow> json option) \<Rightarrow> (string \<Rightarrow> any option) \<Rightarrow> (string \<times> json) list option" where
  "marshal_map enc m = those (map (\<lambda>k. map_option (Pair k) (marshal_any enc (the (m k)))) (sorted_list_of_set (dom m)))"

definition details_of :: "Body \<Rightarrow> string \<Rightarrow> any option" where
  "details_of b = (case bd_Details b of None \<Rightarrow> Map.empty | Some m \<Rightarrow> m)"

text \<open>\<^verbatim>\<open>omitempty\<close> leaves out a nil or empty map.\<close>

definition marshal_Body :: "(nat \<Rightarrow> json option) \<Rightarrow> Body \<Rightarrow> json option" where
  "marshal_Body enc b =
     map_option (\<lambda>ds. JObj ([(''code'', JStr (bd_Code b)), (''message'', JStr (bd_Message b))] @
         (if details_of b = Map.empty then [] else [(''details'', JObj ds)])))
       (marshal_map enc (details_of b))"

text \<open>The encoder writes nothing when the value cannot be encoded, and \<^verbatim>\<open>WriteJSON\<close> drops its error.\<close>

definition Body_text :: "(nat \<Rightarrow> json option) \<Rightarrow> Body \<Rightarrow> string" where
  "Body_text enc b = (case marshal_Body enc b of None \<Rightarrow> [] | Some v \<Rightarrow> json_Encode v)"

definition error_body_text :: "(nat \<Rightarrow> json option) \<Rightarrow> Body ResponseWriter \<Rightarrow> string" where
  "error_body_text enc rw = concat (map (Body_text enc) (rw_body rw))"

definition new_Body_writer :: "Body ResponseWriter" where
  "new_Body_writer = \<lparr>rw_header = Map.empty, rw_status = None, rw_body = []\<rparr>"

section \<open>What a client reads\<close>

lemma norm_fields_map: "norm_fields fs = map (\<lambda>(k, v). (valid_utf8 k, json_norm v)) fs"
  by (induction fs) auto

lemma those_fields_Some: "those (map (\<lambda>k. map_option (Pair k) (f k)) ks) = Some fs \<longleftrightarrow> map fst fs = ks \<and> (\<forall>(k, v)\<in>set fs. f k = Some v)"
proof (induction ks arbitrary: fs)
  case (Cons k ks)
  then show ?case by (cases fs) (auto split: option.split)
qed auto

lemma those_fields_None: "those (map (\<lambda>k. map_option (Pair k) (f k)) ks) = None \<longleftrightarrow> (\<exists>k\<in>set ks. f k = None)"
  by (induction ks) (auto split: option.split)

text \<open>The fields of an encoded map: its keys in order, each with the encoding of its value.\<close>

lemma marshal_map_fields:
  assumes "finite (dom m)" "marshal_map enc m = Some fs"
  shows "map_of fs = (\<lambda>k. Option.bind (m k) (marshal_any enc))" "sorted (map fst fs)" "distinct (map fst fs)"
proof -
  have fs: "map fst fs = sorted_list_of_set (dom m)" "\<forall>(k, v)\<in>set fs. marshal_any enc (the (m k)) = Some v"
    using assms(2) by (simp_all add: marshal_map_def those_fields_Some)
  then show dist: "distinct (map fst fs)" and "sorted (map fst fs)" by simp_all
  have keys: "fst ` set fs = dom m" using fs(1) assms(1) by (metis set_map set_sorted_list_of_set)
  show "map_of fs = (\<lambda>k. Option.bind (m k) (marshal_any enc))"
  proof
    fix k
    show "map_of fs k = Option.bind (m k) (marshal_any enc)"
    proof (cases "m k")
      case None
      then have "k \<notin> fst ` set fs" using keys by auto
      with None show ?thesis by (simp add: map_of_eq_None_iff)
    next
      case (Some a)
      then obtain v where v: "(k, v) \<in> set fs" using keys by force
      with fs(2) Some have "marshal_any enc a = Some v" by auto
      with v dist Some show ?thesis by (simp add: map_of_eq_Some_iff)
    qed
  qed
qed

lemma marshal_map_None:
  "finite (dom m) \<Longrightarrow> marshal_map enc m = None \<longleftrightarrow> (\<exists>k a. m k = Some a \<and> marshal_any enc a = None)"
  by (force simp: marshal_map_def those_fields_None)

text \<open>
  C2. On the wire: whatever bytes the order and customer ids consist of, a client that reads the
  body of a successful \<^verbatim>\<open>POST /orders\<close> as JSON finds an object with exactly the id and the total, and
  in the body of the following \<^verbatim>\<open>GET\<close> an object with exactly the five fields of the placed order, ids in
  valid UTF-8 as they were sent; no id can add fields or break the text.
\<close>

theorem wire_post_get:
  assumes "shop_wf w" "ph_publisher h = None" "decode b = Inr (oid, cid, Some xs)" "xs \<noteq> []" "\<forall>it\<in>set xs. 0 < sint (it_Quantity it)"
    and "post_orders decode h ctx b new_writer w = (rw, w')"
  shows "json_parse (body_text rw) =
      Some (JObj [(''OrderID'', JStr (valid_utf8 oid)), (''TotalCents'', JInt (sint (word_of_int (order_sum xs) :: i64)))]) \<and>
    json_parse (body_text (fst (get_order ctx oid new_writer w'))) =
      Some (JObj [(''OrderID'', JStr (valid_utf8 oid)), (''CustomerID'', JStr (valid_utf8 cid)), (''Status'', JStr ''placed''),
        (''TotalCents'', JInt (sint (word_of_int (order_sum xs) :: i64))), (''Version'', JInt 1)])"
proof -
  have ascii: "valid_utf8 s = s" if "s \<in> {''OrderID'', ''CustomerID'', ''Status'', ''TotalCents'', ''Version'', ''placed''}" for s
    using that by (intro valid_utf8_ascii) auto
  have body: "rw_body rw = [PResult \<lparr>pr_OrderID = oid, pr_TotalCents = word_of_int (order_sum xs)\<rparr>]"
    "rw_body (fst (get_order ctx oid new_writer w')) = [PView \<lparr>ov_OrderID = oid, ov_CustomerID = cid, ov_Status = ''placed'',
       ov_TotalCents = word_of_int (order_sum xs), ov_Version = 1\<rparr>]"
    using post_get_cycle [OF assms(1-3,6)] assms(4,5) by simp_all
  show ?thesis
    by (simp add: body_text_def body json_round_trip marshal_result_def marshal_view_def ascii)
qed

theorem wire_post_get_witness:
  "json_parse (body_text (fst (post_orders (\<lambda>_. Inr (''o\"1'', ''c1'', Some [demo_item 5])) (demo_handler None) () () new_writer demo_shop))) =
     Some (JObj [(''OrderID'', JStr ''o\"1''), (''TotalCents'', JInt (sint (word_of_int (order_sum [demo_item 5]) :: i64)))])"
  using wire_post_get [OF demo_shop_ok(1), of "demo_handler None" "\<lambda>_. Inr (''o\"1'', ''c1'', Some [demo_item 5])" "()"
      "''o\"1''" "''c1''" "[demo_item 5]" "()"]
  by (cases "post_orders (\<lambda>_. Inr (''o\"1'', ''c1'', Some [demo_item 5])) (demo_handler None) () () new_writer demo_shop")
    (simp add: demo_handler_def NewPlaceOrderHandler_def demo_item_def valid_utf8_ascii)

text \<open>
  C28. The error response of \<^verbatim>\<open>WriteJSON\<close> on the wire: the status is the one of \<^verbatim>\<open>Translate\<close>; if every detail
  can be encoded, a client reads exactly the code, the message and, when there are details, one
  object with the details in key order; if a detail cannot be encoded the body is empty, although
  the status line has been sent.
\<close>

theorem WriteJSON_wire:
  assumes "finite (dom (details_of (fst (Translate err))))"
  defines "b \<equiv> fst (Translate err)"
  shows "rw_status (WriteJSON new_Body_writer err) = Some (snd (Translate err)) \<and>
    (if \<exists>k a. details_of b k = Some a \<and> marshal_any enc a = None then error_body_text enc (WriteJSON new_Body_writer err) = []
     else \<exists>fs. map_of fs = (\<lambda>k. Option.bind (details_of b k) (marshal_any enc)) \<and> sorted (map fst fs) \<and> distinct (map fst fs) \<and>
       json_parse (error_body_text enc (WriteJSON new_Body_writer err)) =
         Some (JObj ([(''code'', JStr (valid_utf8 (bd_Code b))), (''message'', JStr (valid_utf8 (bd_Message b)))] @
           (if details_of b = Map.empty then [] else [(''details'', JObj (map (\<lambda>(k, v). (valid_utf8 k, json_norm v)) fs))]))))"
proof -
  have ascii: "valid_utf8 s = s" if "s \<in> {''code'', ''message'', ''details''}" for s
    using that by (intro valid_utf8_ascii) auto
  obtain st where t: "Translate err = (b, st)" by (cases "Translate err") (simp add: b_def)
  have rw: "rw_status (WriteJSON new_Body_writer err) = Some st" "error_body_text enc (WriteJSON new_Body_writer err) = Body_text enc b"
    by (simp_all add: WriteJSON_def t new_Body_writer_def rw_WriteHeader_def error_body_text_def)
  have fin: "finite (dom (details_of b))" using assms by simp
  show ?thesis
  proof (cases "marshal_map enc (details_of b)")
    case None
    then have "\<exists>k a. details_of b k = Some a \<and> marshal_any enc a = None" by (simp add: marshal_map_None [OF fin])
    with None rw t show ?thesis by (simp add: Body_text_def marshal_Body_def)
  next
    case (Some fs)
    then have "\<not> (\<exists>k a. details_of b k = Some a \<and> marshal_any enc a = None)"
      using marshal_map_None [OF fin, of enc] by simp
    moreover have "json_parse (Body_text enc b) =
        Some (JObj ([(''code'', JStr (valid_utf8 (bd_Code b))), (''message'', JStr (valid_utf8 (bd_Message b)))] @
           (if details_of b = Map.empty then [] else [(''details'', JObj (map (\<lambda>(k, v). (valid_utf8 k, json_norm v)) fs))])))"
      by (simp add: Body_text_def marshal_Body_def Some json_round_trip ascii norm_fields_map)
    ultimately show ?thesis using marshal_map_fields [OF fin Some] rw t by (simp only: if_False snd_conv) blast
  qed
qed

theorem WriteJSON_wire_witness:
  "rw_status (WriteJSON new_Body_writer (Some (CodedErr CodeNotFound ''gone'' (Some [''ch'' \<mapsto> AOpaque 0]) None))) = Some 404 \<and>
     error_body_text (\<lambda>_. None) (WriteJSON new_Body_writer (Some (CodedErr CodeNotFound ''gone'' (Some [''ch'' \<mapsto> AOpaque 0]) None))) = []"
proof -
  let ?err = "Some (CodedErr CodeNotFound ''gone'' (Some [''ch'' \<mapsto> AOpaque 0]) None)"
  have t: "Translate ?err = (\<lparr>bd_Code = CodeNotFound, bd_Message = ''gone'', bd_Details = Some [''ch'' \<mapsto> AOpaque 0]\<rparr>, 404)"
    by (simp add: Translate_def errors_As_def StatusFromCode_def statusByCode_def code_defs List.map_filter_simps)
  show ?thesis using WriteJSON_wire [of ?err "\<lambda>_. None"] by (simp add: t details_of_def)
qed

end
