(* ===== verification/Consumer.thy ===== *)
theory Consumer
  imports Event_Router Inbox
begin

text \<open>
  The router and the inbox together: a consumer that follows the documentation of \<^verbatim>\<open>Inbox\<close>
  (\<^verbatim>\<open>eventbus/inbox.go\<close>) behind a \<^verbatim>\<open>Router\<close> (\<^verbatim>\<open>eventbus/router.go\<close>). The broker may deliver every event as often as it
  likes; the effect of the handler on its data is then applied once per event. The argument only
  uses the contract of the inbox, so it is made in the locale, and holds for every implementation.
\<close>

text \<open>
  The documented discipline: the handler changes its data and calls \<^verbatim>\<open>Record\<close> in one transaction; on
  \<^verbatim>\<open>ErrAlreadyRecorded\<close> it rolls back and reports success, on another error it rolls back and reports
  the error. Data and inbox are the state of the transaction; \<open>eff\<close> is the user's effect.
\<close>

definition once_handler :: "'s inbox_record \<Rightarrow> gocontext \<Rightarrow> ('e \<Rightarrow> InboxKey) \<Rightarrow> ('e \<Rightarrow> 'd \<Rightarrow> goerr option \<times> 'd)
    \<Rightarrow> ('c, 'e, 'd \<times> 's) ev_dispatcher" where
  "once_handler Record gctx key eff ctx e w =
     (case eff e (fst w) of
        (Some err, _) \<Rightarrow> (Some err, w)
      | (None, d) \<Rightarrow>
          (case Record gctx (key e) (snd w) of
             (None, s) \<Rightarrow> (None, (d, s))
           | (Some err, s) \<Rightarrow> if errors_Is (Some err) ErrAlreadyRecorded then (None, w) else (Some err, w)))"

text \<open>The router with this handler under one event name.\<close>

definition once_router :: "'s inbox_record \<Rightarrow> gocontext \<Rightarrow> string \<Rightarrow> ('e \<Rightarrow> InboxKey) \<Rightarrow> ('e \<Rightarrow> 'd \<Rightarrow> goerr option \<times> 'd)
    \<Rightarrow> ('c, 'e, 'm, 'd \<times> 's) Router" where
  "once_router Record gctx name key eff = Router_RegisterHandler name (once_handler Record gctx key eff) (NewRouter [])"

text \<open>A list of events takes effect, one after the other, without an error.\<close>

fun takes_effect :: "('e \<Rightarrow> 'd \<Rightarrow> goerr option \<times> 'd) \<Rightarrow> 'e list \<Rightarrow> 'd \<Rightarrow> 'd \<Rightarrow> bool" where
  "takes_effect eff [] d d' \<longleftrightarrow> d' = d"
| "takes_effect eff (e # es) d d' \<longleftrightarrow> fst (eff e d) = None \<and> takes_effect eff es (snd (eff e d)) d'"

lemma once_router_dispatch:
  "Router_dispatch (once_router Record gctx name key eff) ctx env w =
     (if env_Name env = name then once_handler Record gctx key eff ctx (env_Event env) w else (None, w))"
  by (simp add: Router_dispatch_def once_router_def Router_RegisterHandler_def NewRouter_def evc.chain_Nil
      split: prod.split option.split)

text \<open>What the envelopes of a run that carry the name of the handler say.\<close>

definition named :: "string \<Rightarrow> ('e, 'm) Envelope list \<Rightarrow> 'e set" where
  "named name envs = env_Event ` {env \<in> set envs. env_Name env = name}"

context inbox
begin

lemma once_handler_cases:
  assumes "once_handler Record gctx key eff ctx e (d, s) = (err, (d', s'))"
  shows "(err = None \<and> eff e d = (None, d') \<and> key e \<notin> recorded s \<and> recorded s' = insert (key e) (recorded s)) \<or>
    (d' = d \<and> s' = s \<and> (err = None \<and> ik_valid (key e) \<and> ctx_Err gctx = None \<longrightarrow> key e \<in> recorded s))"
proof (cases "\<exists>d1 s1. eff e d = (None, d1) \<and> Record gctx (key e) s = (None, s1)")
  case True
  then obtain d1 s1 where r: "eff e d = (None, d1)" "Record gctx (key e) s = (None, s1)" by blast
  with record_ok_iff [of gctx "key e" s] record_state [of gctx "key e" s] assms show ?thesis by (simp add: once_handler_def)
next
  case False
  with assms have "d' = d" "s' = s" by (auto simp: once_handler_def split: prod.splits option.splits if_splits)
  moreover have "key e \<in> recorded s" if "err = None" "ik_valid (key e)" "ctx_Err gctx = None"
  proof (rule ccontr)
    assume "key e \<notin> recorded s"
    with that have "fst (Record gctx (key e) s) = None" by (intro record_new)
    with False assms that(1) show False by (auto simp: once_handler_def split: prod.splits option.splits)
  qed
  ultimately show ?thesis by simp
qed

lemma once_run:
  fixes eff :: "'e \<Rightarrow> 'd \<Rightarrow> goerr option \<times> 'd" and gctx :: gocontext and name :: string and key :: "'e \<Rightarrow> InboxKey"
  defines "r \<equiv> once_router Record gctx name key eff"
  assumes "run_loop r ctx ctxErr xs (d, s) l = (res, (d', s'), l')"
  shows "\<exists>es. distinct (map key es) \<and> set es \<subseteq> named name (received xs) \<and> (\<forall>e\<in>set es. key e \<notin> recorded s) \<and>
    takes_effect eff es d d' \<and> recorded s' = recorded s \<union> key ` set es \<and>
    (\<forall>(env, w)\<in>set (deliveries r ctx xs (d, s)).
      env_Name env = name \<and> fst (Router_dispatch r ctx env w) = None \<and> ik_valid (key (env_Event env)) \<and> ctx_Err gctx = None
      \<longrightarrow> key (env_Event env) \<in> recorded s')"
  using assms(2)
proof (induction xs arbitrary: d s l)
  case (Cons x xs)
  show ?case
  proof (cases x)
    case (Received env)
    obtain err d1 s1 where disp: "Router_dispatch r ctx env (d, s) = (err, (d1, s1))" by (metis prod.collapse)
    define l1 where "l1 = (if err = None then Envelope_Ack env l else Envelope_Nack env l)"
    have "run_loop r ctx ctxErr xs (d1, s1) l1 = (res, (d', s'), l')"
      using Cons.prems Received disp by (cases err) (simp_all add: l1_def)
    from Cons.IH [OF this] obtain es where es: "distinct (map key es)" "set es \<subseteq> named name (received xs)"
        "\<forall>e\<in>set es. key e \<notin> recorded s1" "takes_effect eff es d1 d'" "recorded s' = recorded s1 \<union> key ` set es"
        "\<forall>(env, w)\<in>set (deliveries r ctx xs (d1, s1)).
          env_Name env = name \<and> fst (Router_dispatch r ctx env w) = None \<and> ik_valid (key (env_Event env)) \<and> ctx_Err gctx = None
          \<longrightarrow> key (env_Event env) \<in> recorded s'"
      by blast
    let ?e = "env_Event env"
    have deliv: "deliveries r ctx (x # xs) (d, s) = (env, (d, s)) # deliveries r ctx xs (d1, s1)" by (simp add: Received disp)
    have sub: "named name (received xs) \<subseteq> named name (received (x # xs))" by (auto simp: named_def Received)
    consider (new) "env_Name env = name" "err = None" "eff ?e d = (None, d1)" "key ?e \<notin> recorded s" "recorded s1 = insert (key ?e) (recorded s)"
      | (old) "d1 = d" "s1 = s" "env_Name env = name \<and> err = None \<and> ik_valid (key ?e) \<and> ctx_Err gctx = None \<longrightarrow> key ?e \<in> recorded s"
      using disp once_handler_cases [of gctx key eff ctx ?e d s err d1 s1] by (auto simp: r_def once_router_dispatch split: if_splits)
    then show ?thesis
    proof cases
      case new
      have "?e \<in> named name (received (x # xs))" using new(1) by (auto simp: named_def Received)
      with new es sub deliv show ?thesis by (intro exI [of _ "?e # es"]) auto
    next
      case old
      with es sub deliv disp show ?thesis by (intro exI [of _ es]) auto
    qed
  qed (use Cons.prems in \<open>auto simp: named_def\<close>)
qed (auto simp: named_def)

end


text \<open>A consumer that counts: the event arrives three times and counts once.\<close>

definition counting :: "string \<Rightarrow> nat \<Rightarrow> goerr option \<times> nat" where "counting e n = (None, Suc n)"

definition thrice :: "(string, nat) selected list" where
  "thrice = map (\<lambda>m. Received \<lparr>env_Event = ''e1'', env_Name = ''placed'', env_Raw = Some m\<rparr>) [0, 1, 2] @ [ChanClosed]"

lemma thrice_run:
  "run_loop (once_router referenceInbox_Record context_Background ''placed'' (inbox_key ''view'') counting) () context_Canceled thrice
       (0, newReference) [] =
     (Some None, (1, \<lparr>ri_seen = {inbox_key ''view'' ''e1''}\<rparr>), [(0, Acked), (1, Acked), (2, Acked)])"
  by (simp add: thrice_def once_router_dispatch once_handler_def counting_def referenceInbox_Record_def inbox_validate_def
      inbox_key_def newReference_def ErrAlreadyRecorded_def Envelope_Ack_def)


end
