(* ===== verification/Accessors.thy ===== *)
theory Accessors
  imports Adapters Account Order_App Bootstrap Event_Router Jobs Cursor
begin

text \<open>
  The read-only surface of the components: accessors of entities, events, aggregates and of the
  container, the function adapters of the handler interfaces, and small types of the ports.
\<close>

section \<open>domain\<close>

definition BaseEntity_ID :: "('id, 'z) BaseEntity_scheme \<Rightarrow> 'id" where "BaseEntity_ID e = be_id e"
definition BaseAggregate_Version :: "('id, 'ev, 'z) BaseAggregate_scheme \<Rightarrow> i64" where "BaseAggregate_Version a = ba_version a"

definition BaseEvent_EventID :: "'z BaseEvent_scheme \<Rightarrow> string" where "BaseEvent_EventID e = ev_ID e"
definition BaseEvent_EventName :: "'z BaseEvent_scheme \<Rightarrow> string" where "BaseEvent_EventName e = ev_Name e"
definition BaseEvent_AggregateID :: "'z BaseEvent_scheme \<Rightarrow> string" where "BaseEvent_AggregateID e = ev_AggregateKey e"
definition BaseEvent_AggregateType :: "'z BaseEvent_scheme \<Rightarrow> string" where "BaseEvent_AggregateType e = ev_AggregateKind e"
definition BaseEvent_OccurredAt :: "'z BaseEvent_scheme \<Rightarrow> int" where "BaseEvent_OccurredAt e = ev_At e"
definition BaseEvent_Version :: "'z BaseEvent_scheme \<Rightarrow> i64" where "BaseEvent_Version e = ev_Ver e"

lemmas event_accessors = BaseEvent_EventID_def BaseEvent_EventName_def BaseEvent_AggregateID_def BaseEvent_AggregateType_def
  BaseEvent_OccurredAt_def BaseEvent_Version_def

text \<open>An event answers with what it was built from.\<close>

lemma NewBaseEvent_accessors:
  "BaseEvent_EventID (NewBaseEvent now i n k t v) = i" "BaseEvent_EventName (NewBaseEvent now i n k t v) = n"
  "BaseEvent_AggregateID (NewBaseEvent now i n k t v) = k" "BaseEvent_AggregateType (NewBaseEvent now i n k t v) = t"
  "BaseEvent_OccurredAt (NewBaseEvent now i n k t v) = now" "BaseEvent_Version (NewBaseEvent now i n k t v) = v"
  by (simp_all add: NewBaseEvent_def event_accessors)

section \<open>The example aggregates\<close>

definition Account_Status :: "Account \<Rightarrow> AccountStatus" where "Account_Status a = acc_status a"
definition Account_Balance :: "Account \<Rightarrow> i64" where "Account_Balance a = acc_balance a"
definition Account_Overdraft :: "Account \<Rightarrow> i64" where "Account_Overdraft a = acc_overdraft a"

definition Order_CustomerID :: "Order \<Rightarrow> string" where "Order_CustomerID o' = od_customerID o'"
definition Order_Status :: "Order \<Rightarrow> string" where "Order_Status o' = od_status o'"
definition Order_TotalCents :: "Order \<Rightarrow> i64" where "Order_TotalCents o' = od_totalCents o'"

text \<open>The projection of an account and the view of an order are what their accessors show.\<close>

lemma account_view_accessors: "account_view a = (Account_Status a, Account_Balance a, Account_Overdraft a)"
  by (simp add: account_view_def Account_Status_def Account_Balance_def Account_Overdraft_def)

lemma view_of_accessors:
  "view_of o' = \<lparr>ov_OrderID = BaseEntity_ID o', ov_CustomerID = Order_CustomerID o', ov_Status = Order_Status o',
     ov_TotalCents = Order_TotalCents o', ov_Version = BaseAggregate_Version o'\<rparr>"
  by (simp add: view_of_def BaseEntity_ID_def Order_CustomerID_def Order_Status_def Order_TotalCents_def BaseAggregate_Version_def)

section \<open>The container\<close>

definition App_Config :: "('k, 'f) App \<Rightarrow> any" where "App_Config a = app_cfg a"
definition App_Logger :: "('k, 'f) App \<Rightarrow> any" where "App_Logger a = app_log a"
definition App_Registry :: "('k, 'f) App \<Rightarrow> 'f AdapterRegistry" where "App_Registry a = app_registry a"
definition App_Lifecycle :: "('k, 'f) App \<Rightarrow> 'k Lifecycle" where "App_Lifecycle a = app_lifecycle a"
definition ModuleFunc_Name :: "'k Module \<Rightarrow> string" where "ModuleFunc_Name m = md_ModuleName m"

section \<open>Function adapters of the handler interfaces\<close>

definition cmd_HandlerFunc_Handle :: "('c, 'd, 'w, 'r) cmd_handler \<Rightarrow> ('c, 'd, 'w, 'r) cmd_handler" where
  "cmd_HandlerFunc_Handle f ctx cmd w = f ctx cmd w"

definition qry_HandlerFunc_Handle :: "('c, 'd, 'w, 'r) qry_handler \<Rightarrow> ('c, 'd, 'w, 'r) qry_handler" where
  "qry_HandlerFunc_Handle f ctx q w = f ctx q w"

definition ev_HandlerFunc_Handle :: "('c, 'e, 'w) ev_dispatcher \<Rightarrow> ('c, 'e, 'w) ev_dispatcher" where
  "ev_HandlerFunc_Handle f ctx event w = f ctx event w"

definition jobs_HandlerFunc_Handle :: "('c \<Rightarrow> Task \<Rightarrow> 'w \<Rightarrow> goerr option \<times> 'w) \<Rightarrow> 'c \<Rightarrow> Task \<Rightarrow> 'w \<Rightarrow> goerr option \<times> 'w" where
  "jobs_HandlerFunc_Handle f ctx task w = f ctx task w"

text \<open>A use case wrapped for a bus and a handler function answer alike.\<close>

lemma handler_funcs_agree:
  "cmd_HandlerFunc_Handle (AsCommandHandler (Func_Execute f)) = f" "qry_HandlerFunc_Handle (AsQueryHandler (Func_Execute f)) = f"
  by (simp_all add: fun_eq_iff cmd_HandlerFunc_Handle_def qry_HandlerFunc_Handle_def AsCommandHandler_def AsQueryHandler_def Func_Execute_def)

section \<open>Small types\<close>

record Snapshot =
  sn_Stream :: StreamID
  sn_Version :: i64
  sn_State :: string
  sn_TakenAt :: int

record Limit =
  lm_Size :: i64
  lm_Offset :: i64

text \<open>The sealed interface: a page request is one of the two.\<close>

datatype PageRequest = ByLimit Limit | ByCursor page_Cursor

definition ErrNoRows :: goerr where [sentinel_defs]: "ErrNoRows = Sentinel ''database: no rows''"

definition StatusCancelled :: "32 word" where [code_defs]: "StatusCancelled = 1"
definition StatusDeadlineExceeded :: "32 word" where [code_defs]: "StatusDeadlineExceeded = 4"
definition StatusFailedPrecondition :: "32 word" where [code_defs]: "StatusFailedPrecondition = 9"
definition StatusOutOfRange :: "32 word" where [code_defs]: "StatusOutOfRange = 11"
definition StatusUnimplemented :: "32 word" where [code_defs]: "StatusUnimplemented = 12"
definition StatusDataLoss :: "32 word" where [code_defs]: "StatusDataLoss = 15"

text \<open>The status constants are the codes 0 to 16 of gRPC, each once.\<close>

lemma grpc_status_codes:
  "[StatusOK, StatusCancelled, StatusUnknown, StatusInvalidArgument, StatusDeadlineExceeded, StatusNotFound, StatusAlreadyExists,
    StatusPermissionDenied, StatusResourceExhausted, StatusFailedPrecondition, StatusAborted, StatusOutOfRange, StatusUnimplemented,
    StatusInternal, StatusUnavailable, StatusDataLoss, StatusUnauthenticated] = map word_of_nat [0..<17]"
  by (simp add: code_defs upt_conv_Cons)

end
